(* ===== verification/Prelude.thy ===== *)
theory Prelude
  imports "HOL-Library.Word" "HOL-Library.Sublist"
begin

text \<open>
  Shared vocabulary of the development: the machine integers of the C++ code, the ways an
  operation can fail, the sequencing of fallible operations, checked array access
  (\<open>std::array::at\<close>), counted loops, and the list lemmas the component theories share.

  Failures are values.  A C++ exception, a failing \<open>assert\<close> and undefined behaviour are
  all constructors of \<open>failure\<close>, so that a model function has a defined result on every
  input and a theorem can say that none of them happens.  The assertions are the ones active
  unless the build defines \<open>NDEBUG\<close> (meson leaves them active by default, also in release
  builds).
\<close>

unbundle bit_operations_syntax

section \<open>Types\<close>

type_synonym byte = "8 word"
type_synonym u16 = "16 word"

datatype failure =
    Out_of_range          \<comment> \<open>\<open>std::out_of_range\<close>\<close>
  | Invalid_argument      \<comment> \<open>\<open>std::invalid_argument\<close>\<close>
  | Bad_alloc             \<comment> \<open>\<open>std::bad_alloc\<close>\<close>
  | System_error int      \<comment> \<open>\<open>std::system_error\<close> with the \<open>errno\<close> it carries\<close>
  | Bad_variant           \<comment> \<open>\<open>std::bad_variant_access\<close>\<close>
  | Hid_error             \<comment> \<open>\<open>HidDeviceError\<close> and \<open>F1HidDevException\<close>\<close>
  | Hid_permission_denied \<comment> \<open>\<open>HidDevicePermissionDenied\<close>\<close>
  | Jack_error            \<comment> \<open>\<open>JackWrapperException\<close> and \<open>JackClientException\<close>\<close>
  | Runtime_error         \<comment> \<open>\<open>std::runtime_error\<close>\<close>
  | Assert_failed         \<comment> \<open>a false \<open>assert\<close>\<close>
  | Undefined_behaviour   \<comment> \<open>anything the language leaves undefined\<close>

type_synonym 'a res = "failure + 'a"

section \<open>Sequencing\<close>

named_theorems res_simps \<open>unfolding of the sequencing combinators\<close>

definition bind_res :: "'a res \<Rightarrow> ('a \<Rightarrow> 'b res) \<Rightarrow> 'b res" where
  "bind_res m k = (case m of Inl e \<Rightarrow> Inl e | Inr x \<Rightarrow> k x)"

definition assert_res :: "bool \<Rightarrow> unit res" where
  "assert_res b = (if b then Inr () else Inl Assert_failed)"

lemma bind_res_simps [simp, res_simps]:
  "bind_res (Inl e) k = Inl e"
  "bind_res (Inr x) k = k x"
  by (simp_all add: bind_res_def)

lemma bind_res_Inr_iff: "bind_res m k = Inr y \<longleftrightarrow> (\<exists>x. m = Inr x \<and> k x = Inr y)"
  by (auto simp: bind_res_def split: sum.splits)

lemma assert_res_simps [simp, res_simps]:
  "assert_res True = Inr ()"
  "assert_res False = Inl Assert_failed"
  by (simp_all add: assert_res_def)

lemma assert_res_Inr_iff [simp]: "assert_res b = Inr u \<longleftrightarrow> b"
  by (simp add: assert_res_def)

text \<open>A loop whose body may fail, over the values its counter takes.\<close>

fun fold_res :: "('a \<Rightarrow> 's \<Rightarrow> 's res) \<Rightarrow> 'a list \<Rightarrow> 's \<Rightarrow> 's res" where
  "fold_res f [] s = Inr s"
| "fold_res f (x # xs) s = bind_res (f x s) (fold_res f xs)"

lemma fold_res_append:
  "fold_res f (xs @ ys) s = bind_res (fold_res f xs s) (fold_res f ys)"
  by (induction xs arbitrary: s) (auto simp: bind_res_def split: sum.splits)

lemma fold_res_pure:
  assumes "\<And>x s. x \<in> set xs \<Longrightarrow> P s \<Longrightarrow> f x s = Inr (g x s)"
    and "\<And>x s. x \<in> set xs \<Longrightarrow> P s \<Longrightarrow> P (g x s)" and "P s"
  shows "fold_res f xs s = Inr (fold g xs s)"
  using assms by (induction xs arbitrary: s) auto

lemma fold_res_invariant:
  assumes "\<And>x s s'. x \<in> set xs \<Longrightarrow> P s \<Longrightarrow> f x s = Inr s' \<Longrightarrow> P s'"
    and "fold_res f xs s = Inr s'" and "P s"
  shows "P s'"
  using assms by (induction xs arbitrary: s) (auto simp: bind_res_Inr_iff)

lemma fold_res_outcome:
  assumes "\<And>x s. x \<in> set xs \<Longrightarrow> P s \<Longrightarrow> case f x s of Inl e \<Rightarrow> Q e | Inr s' \<Rightarrow> P s'" and "P s"
  shows "case fold_res f xs s of Inl e \<Rightarrow> Q e | Inr s' \<Rightarrow> P s'"
  using assms
proof (induction xs arbitrary: s)
  case (Cons x xs)
  from Cons.prems(1) [of x s] Cons.prems(2) Cons.IH Cons.prems(1) show ?case by (cases "f x s") auto
qed simp

lemma fold_res_total: "(\<And>x s. x \<in> set xs \<Longrightarrow> \<exists>s'. f x s = Inr s') \<Longrightarrow> \<exists>s'. fold_res f xs s = Inr s'"
proof (induction xs arbitrary: s)
  case (Cons x xs)
  from Cons.prems [of x s] obtain s1 where "f x s = Inr s1" by auto
  with Cons.IH [of s1] Cons.prems show ?case by simp
qed simp

lemma fold_invariant:
  assumes "\<And>x s. x \<in> set xs \<Longrightarrow> P s \<Longrightarrow> P (f x s)" and "P s"
  shows "P (fold f xs s)"
  using assms by (induction xs arbitrary: s) auto

lemma fold_res_map: "fold_res f (map h xs) s = fold_res (\<lambda>x. f (h x)) xs s"
  by (induction xs arbitrary: s) (auto simp: bind_res_def split: sum.splits)

lemma fold_res_product:
  "fold_res (\<lambda>i. fold_res (\<lambda>j. f (i, j)) js) is s = fold_res f (List.product is js) s"
proof (induction "is" arbitrary: s)
  case (Cons i ks)
  then have "fold_res (\<lambda>i. fold_res (\<lambda>j. f (i, j)) js) ks = fold_res f (List.product ks js)"
    by blast
  then show ?case by (simp add: fold_res_append fold_res_map)
qed simp

section \<open>Arrays\<close>

text \<open>\<open>std::array::at\<close>: reading and writing with the bounds check.\<close>

definition at_res :: "'a list \<Rightarrow> nat \<Rightarrow> 'a res" where
  "at_res xs i = (if i < length xs then Inr (xs ! i) else Inl Out_of_range)"

definition set_at_res :: "'a list \<Rightarrow> nat \<Rightarrow> 'a \<Rightarrow> 'a list res" where
  "set_at_res xs i v = (if i < length xs then Inr (xs[i := v]) else Inl Out_of_range)"

text \<open>\<open>std::bitset::operator[]\<close> and the unchecked array subscript: out of range is undefined.\<close>

definition sub_res :: "'a list \<Rightarrow> nat \<Rightarrow> 'a res" where
  "sub_res xs i = (if i < length xs then Inr (xs ! i) else Inl Undefined_behaviour)"

definition set_sub_res :: "'a list \<Rightarrow> nat \<Rightarrow> 'a \<Rightarrow> 'a list res" where
  "set_sub_res xs i v = (if i < length xs then Inr (xs[i := v]) else Inl Undefined_behaviour)"

lemma at_res_ok [simp]: "i < length xs \<Longrightarrow> at_res xs i = Inr (xs ! i)"
  by (simp add: at_res_def)

lemma set_at_res_ok [simp]: "i < length xs \<Longrightarrow> set_at_res xs i v = Inr (xs[i := v])"
  by (simp add: set_at_res_def)

lemma sub_res_ok [simp]: "i < length xs \<Longrightarrow> sub_res xs i = Inr (xs ! i)"
  by (simp add: sub_res_def)

lemma set_sub_res_ok [simp]: "i < length xs \<Longrightarrow> set_sub_res xs i v = Inr (xs[i := v])"
  by (simp add: set_sub_res_def)

text \<open>A sequence of assignments to an array, and the array they leave when they agree with it.\<close>

definition upds :: "(nat \<times> 'a) list \<Rightarrow> 'a list \<Rightarrow> 'a list" where
  "upds ps xs = fold (\<lambda>(k, v) xs. xs[k := v]) ps xs"

lemma upds_simps [simp]:
  "upds [] xs = xs"
  "upds ((k, v) # ps) xs = upds ps (xs[k := v])"
  by (simp_all add: upds_def)

lemma upds_append [simp]: "upds (ps @ qs) xs = upds qs (upds ps xs)"
  by (simp add: upds_def)

lemma length_upds [simp]: "length (upds ps xs) = length xs"
  by (induction ps arbitrary: xs) auto

lemma upds_nth:
  assumes "\<forall>(k, v) \<in> set ps. k < length xs \<and> ys ! k = v" and "i < length xs"
  shows "upds ps xs ! i = (if i \<in> fst ` set ps then ys ! i else xs ! i)"
  using assms
proof (induction ps arbitrary: xs)
  case (Cons p ps)
  obtain k v where "p = (k, v)" by (cases p)
  with Cons.prems Cons.IH [of "xs[k := v]"] show ?case by (auto simp: nth_list_update)
qed simp

lemma upds_eqI:
  assumes "length xs = length ys" and "\<forall>(k, v) \<in> set ps. k < length ys \<and> ys ! k = v"
    and "\<And>k. k < length ys \<Longrightarrow> k \<in> fst ` set ps"
  shows "upds ps xs = ys"
  by (rule nth_equalityI) (use assms upds_nth [of ps xs ys] in auto)

lemma fold_upds: "fold (\<lambda>i xs. upds (f i) xs) is xs = upds (concat (map f is)) xs"
  by (induction "is" arbitrary: xs) auto

section \<open>Lists written by counted loops\<close>

lemma fold_res_set_sub:
  assumes "\<And>i. i \<in> set is \<Longrightarrow> f i = Inr (g i)" and "\<And>i. i \<in> set is \<Longrightarrow> h i < length xs"
  shows "fold_res (\<lambda>i xs. bind_res (f i) (set_sub_res xs (h i))) is xs =
    Inr (fold (\<lambda>i xs. xs[h i := g i]) is xs)"
  using assms by (induction "is" arbitrary: xs) auto

lemma fold_res_set_at:
  assumes "\<And>i. i \<in> set is \<Longrightarrow> f i = Inr (g i)" and "\<And>i. i \<in> set is \<Longrightarrow> h i < length xs"
  shows "fold_res (\<lambda>i xs. bind_res (f i) (set_at_res xs (h i))) is xs =
    Inr (fold (\<lambda>i xs. xs[h i := g i]) is xs)"
  using assms by (induction "is" arbitrary: xs) auto


text \<open>A loop that assigns \<open>g i\<close> at position \<open>h i\<close>: what is at a position afterwards.\<close>

lemma length_fold_update [simp]:
  "length (fold (\<lambda>i xs. xs[h i := g i]) is xs) = length xs"
  by (induction "is" arbitrary: xs) auto

lemma nth_fold_update_other:
  "k \<notin> h ` set is \<Longrightarrow> fold (\<lambda>i xs. xs[h i := g i]) is xs ! k = xs ! k"
  by (induction "is" arbitrary: xs) auto

lemma nth_fold_update_hit:
  assumes "i \<in> set is" and "inj_on h (set is)" and "h i < length xs"
  shows "fold (\<lambda>i xs. xs[h i := g i]) is xs ! h i = g i"
  using assms
proof (induction "is" arbitrary: xs)
  case Nil
  then show ?case by simp
next
  case (Cons j js)
  show ?case
  proof (cases "i \<in> set js")
    case True
    with Cons show ?thesis by simp
  next
    case False
    with Cons.prems have "i = j" and "h i \<notin> h ` set js" by auto
    with Cons.prems show ?thesis by (simp add: nth_fold_update_other)
  qed
qed

lemma map_nth_eqI:
  "length xs = n \<Longrightarrow> (\<And>i. i < n \<Longrightarrow> xs ! i = f i) \<Longrightarrow> xs = map f [0..<n]"
  by (simp add: list_eq_iff_nth_eq)

lemma nth_eqI4:
  "length xs = 4 \<Longrightarrow> xs = [xs ! 0, xs ! 1, xs ! 2, xs ! 3]"
  by (rule nth_equalityI) (auto simp: less_Suc_eq numeral_eq_Suc)

lemma drop_eq_Cons_nth: "i < length xs \<Longrightarrow> drop i xs = xs ! i # drop (Suc i) xs"
  by (rule Cons_nth_drop_Suc [symmetric])

lemma takeWhile_eq_all: "(\<And>x. x \<in> set xs \<Longrightarrow> P x) \<Longrightarrow> takeWhile P xs = xs"
  by (simp add: takeWhile_eq_all_conv)

section \<open>Bytes\<close>

text \<open>A fact about a byte, checked on all 256 of them.\<close>

lemma all_byte:
  assumes "list_all (\<lambda>n. P (word_of_nat n :: byte)) [0..<256]"
  shows "P b"
proof -
  have "unat b \<in> set [0..<256]" using unsigned_less [of b] by simp
  with assms have "P (word_of_nat (unat b))" by (metis list_all_iff)
  then show "P b" by simp
qed

lemma uint_of_unat: "uint w = int (unat w)"
  by simp

lemma unat_byte_less [simp]: "unat (b :: byte) < 256"
  using unsigned_less [of b] by simp

section \<open>Numbers as text\<close>

text \<open>\<open>operator<<\<close> and \<open>std::to_string\<close> of a number: its decimal digits.\<close>

fun show_nat :: "nat \<Rightarrow> string" where
  "show_nat n = (if n < 10 then [''0123456789'' ! n] else show_nat (n div 10) @ [''0123456789'' ! (n mod 10)])"

declare show_nat.simps [simp del]

end
