(* ===== verification/Jack_Ring.thy ===== *)
theory Jack_Ring
  imports Prelude
begin

text \<open>
  The interface of libjack's byte ring buffer (\<open>jack/ringbuffer.h\<close>) as the drivers use it.
  The library is not part of the repository, so its operations are a parameter of every
  definition that calls them: a record of functions over an abstract ring type \<open>'rb\<close>.  What
  the drivers rely on is the locale \<open>jack_ring\<close>, whose assumptions are the documented
  contract of the header: a first-in first-out byte queue whose readable bytes are presented
  as one or two contiguous segments.

  The second half gives one concrete ring (a circular byte array with a read and a write
  index), shows that it meets the contract, and is what concrete examples evaluate.
\<close>

section \<open>The operations\<close>

text \<open>
  \<open>jack_ringbuffer_data_t\<close>: a base pointer and a length.  Reading the base pointer at an
  index gives \<open>None\<close> when the index is outside the memory of the ring.
\<close>

record rb_segment =
  seg_buf :: "nat \<Rightarrow> byte option"
  seg_len :: nat

record 'rb jack_rb =
  rb_create :: "nat \<Rightarrow> 'rb option"
  rb_read_space :: "'rb \<Rightarrow> nat"
  rb_write_space :: "'rb \<Rightarrow> nat"
  rb_write :: "'rb \<Rightarrow> byte list \<Rightarrow> 'rb \<times> nat"
  rb_read :: "'rb \<Rightarrow> nat \<Rightarrow> 'rb \<times> byte list"
  rb_get_read_vector :: "'rb \<Rightarrow> rb_segment \<times> rb_segment"
  rb_read_advance :: "'rb \<Rightarrow> nat \<Rightarrow> 'rb"

definition seg_bytes :: "rb_segment \<Rightarrow> byte option list" where
  "seg_bytes s = map (seg_buf s) [0..<seg_len s]"

lemma length_seg_bytes [simp]: "length (seg_bytes s) = seg_len s"
  by (simp add: seg_bytes_def)

lemma nth_seg_bytes [simp]: "i < seg_len s \<Longrightarrow> seg_bytes s ! i = seg_buf s i"
  by (simp add: seg_bytes_def)

section \<open>The contract\<close>

locale jack_ring =
  fixes ops :: "'rb jack_rb"
    and rinv :: "'rb \<Rightarrow> bool"
    and content :: "'rb \<Rightarrow> byte list"
  assumes create_law: "rb_create ops n = Some rb \<Longrightarrow> rinv rb \<and> content rb = []"
    and read_space_law: "rinv rb \<Longrightarrow> rb_read_space ops rb = length (content rb)"
    and write_law: "rinv rb \<Longrightarrow> rb_write ops rb bs = (rb', n) \<Longrightarrow>
      rinv rb' \<and> n = min (length bs) (rb_write_space ops rb) \<and>
      content rb' = content rb @ take n bs \<and>
      rb_write_space ops rb' = rb_write_space ops rb - n"
    and read_law: "rinv rb \<Longrightarrow> rb_read ops rb n = (rb', bs) \<Longrightarrow>
      rinv rb' \<and> bs = take n (content rb) \<and> content rb' = drop n (content rb) \<and>
      rb_write_space ops rb' = rb_write_space ops rb + length bs"
    and vector_law: "rinv rb \<Longrightarrow> rb_get_read_vector ops rb = (s0, s1) \<Longrightarrow>
      seg_bytes s0 @ seg_bytes s1 = map Some (content rb)"
    and vector_first_law: "rinv rb \<Longrightarrow> rb_get_read_vector ops rb = (s0, s1) \<Longrightarrow>
      seg_len s0 = 0 \<Longrightarrow> seg_len s1 = 0"
    and advance_law: "rinv rb \<Longrightarrow> n \<le> length (content rb) \<Longrightarrow>
      rinv (rb_read_advance ops rb n) \<and>
      content (rb_read_advance ops rb n) = drop n (content rb) \<and>
      rb_write_space ops (rb_read_advance ops rb n) = rb_write_space ops rb + n"
begin

lemma vector_length:
  assumes "rinv rb" and "rb_get_read_vector ops rb = (s0, s1)"
  shows "seg_len s0 + seg_len s1 = length (content rb)"
proof -
  have "length (seg_bytes s0 @ seg_bytes s1) = length (map Some (content rb))"
    using vector_law [OF assms] by simp
  then show ?thesis by simp
qed

lemma vector_nth_first:
  assumes "rinv rb" and "rb_get_read_vector ops rb = (s0, s1)" and "i < seg_len s0"
  shows "seg_buf s0 i = Some (content rb ! i)"
proof -
  have "seg_buf s0 i = (seg_bytes s0 @ seg_bytes s1) ! i"
    using assms(3) by (simp add: nth_append)
  also have "\<dots> = Some (content rb ! i)"
    using vector_law [OF assms(1,2)] vector_length [OF assms(1,2)] assms(3) by simp
  finally show ?thesis .
qed

lemma vector_nth_second:
  assumes "rinv rb" and "rb_get_read_vector ops rb = (s0, s1)" and "i < seg_len s1"
  shows "seg_buf s1 i = Some (content rb ! (seg_len s0 + i))"
proof -
  have "seg_buf s1 i = (seg_bytes s0 @ seg_bytes s1) ! (seg_len s0 + i)"
    using assms(3) by (simp add: nth_append)
  also have "\<dots> = Some (content rb ! (seg_len s0 + i))"
    using vector_law [OF assms(1,2)] vector_length [OF assms(1,2)] assms(3) by simp
  finally show ?thesis .
qed

lemma write_fits:
  assumes "rinv rb" and "length bs \<le> rb_write_space ops rb" and "rb_write ops rb bs = (rb', n)"
  shows "rinv rb' \<and> n = length bs \<and> content rb' = content rb @ bs \<and>
    rb_write_space ops rb' = rb_write_space ops rb - length bs"
  using write_law [OF assms(1,3)] assms(2) by simp

end

section \<open>A concrete ring\<close>

record ring =
  mem :: "byte list"
  rd :: nat
  wr :: nat

function pow2_from :: "nat \<Rightarrow> nat \<Rightarrow> nat" where
  "pow2_from p n = (if 0 < p \<and> p < n then pow2_from (2 * p) n else p)"
  by pat_completeness auto
termination
  by (relation "measure (\<lambda>(p, n). n - p)") auto

declare pow2_from.simps [simp del]

definition ring_create :: "nat \<Rightarrow> ring option" where
  "ring_create n = Some \<lparr>mem = replicate (pow2_from 2 n) 0, rd = 0, wr = 0\<rparr>"

definition ring_read_space :: "ring \<Rightarrow> nat" where
  "ring_read_space r = (wr r + length (mem r) - rd r) mod length (mem r)"

definition ring_write_space :: "ring \<Rightarrow> nat" where
  "ring_write_space r = length (mem r) - 1 - ring_read_space r"

definition ring_write :: "ring \<Rightarrow> byte list \<Rightarrow> ring \<times> nat" where
  "ring_write r bs =
     (let n = min (length bs) (ring_write_space r); sz = length (mem r)
      in (r\<lparr>mem := fold (\<lambda>i m. m[(wr r + i) mod sz := bs ! i]) [0..<n] (mem r),
            wr := (wr r + n) mod sz\<rparr>, n))"

definition ring_content :: "ring \<Rightarrow> byte list" where
  "ring_content r =
     map (\<lambda>i. mem r ! ((rd r + i) mod length (mem r))) [0..<ring_read_space r]"

definition ring_read_advance :: "ring \<Rightarrow> nat \<Rightarrow> ring" where
  "ring_read_advance r n = r\<lparr>rd := (rd r + n) mod length (mem r)\<rparr>"

definition ring_read :: "ring \<Rightarrow> nat \<Rightarrow> ring \<times> byte list" where
  "ring_read r n =
     (let k = min n (ring_read_space r)
      in (ring_read_advance r k, take k (ring_content r)))"

definition ring_segment :: "ring \<Rightarrow> nat \<Rightarrow> nat \<Rightarrow> rb_segment" where
  "ring_segment r base len =
     \<lparr>seg_buf = (\<lambda>i. if base + i < length (mem r) then Some (mem r ! (base + i)) else None),
      seg_len = len\<rparr>"

definition ring_read_vector :: "ring \<Rightarrow> rb_segment \<times> rb_segment" where
  "ring_read_vector r =
     (let end = rd r + ring_read_space r; sz = length (mem r)
      in if sz < end then (ring_segment r (rd r) (sz - rd r), ring_segment r 0 (end - sz))
         else (ring_segment r (rd r) (ring_read_space r), ring_segment r 0 0))"

definition ring_ops :: "ring jack_rb" where
  "ring_ops = \<lparr>rb_create = ring_create, rb_read_space = ring_read_space,
     rb_write_space = ring_write_space, rb_write = ring_write, rb_read = ring_read,
     rb_get_read_vector = ring_read_vector, rb_read_advance = ring_read_advance\<rparr>"

definition ring_ok :: "ring \<Rightarrow> bool" where
  "ring_ok r \<longleftrightarrow> 0 < length (mem r) \<and> rd r < length (mem r) \<and> wr r < length (mem r)"

lemma pow2_from_pos: "0 < p \<Longrightarrow> 0 < pow2_from p n"
proof (induction p n rule: pow2_from.induct)
  case (1 p n)
  then show ?case by (subst pow2_from.simps) simp
qed

lemma ring_read_space_less: "ring_ok r \<Longrightarrow> ring_read_space r < length (mem r)"
  by (simp add: ring_ok_def ring_read_space_def)

lemma mod_offset:
  fixes r w n :: nat
  assumes "r < n" and "w < n"
  shows "(r + (w + n - r) mod n) mod n = w"
proof -
  have "(r + (w + n - r)) mod n = w" using assms by simp
  then show ?thesis by (simp only: mod_add_right_eq)
qed

lemma mod_space:
  fixes r k n :: nat
  assumes "r < n" and "k < n"
  shows "((r + k) mod n + n - r) mod n = k"
proof (cases "r + k < n")
  case True
  then have "(r + k) mod n + n - r = k + n" by simp
  with assms(2) show ?thesis by simp
next
  case False
  then have le: "n \<le> r + k" and lt: "r + k - n < n" using assms by linarith+
  have "(r + k) mod n = (r + k - n) mod n" by (rule le_mod_geq [OF le])
  also have "\<dots> = r + k - n" by (rule mod_less [OF lt])
  finally have "(r + k) mod n = r + k - n" .
  with False have "(r + k) mod n + n - r = k" by simp
  with assms(2) show ?thesis by simp
qed

lemma ring_wr_eq:
  assumes "ring_ok r"
  shows "wr r = (rd r + ring_read_space r) mod length (mem r)"
  using assms unfolding ring_ok_def ring_read_space_def by (intro mod_offset [symmetric]) simp_all

lemma ring_space_of_wr:
  assumes "rd r < length (mem r)" and "k < length (mem r)"
    and "wr r = (rd r + k) mod length (mem r)"
  shows "ring_read_space r = k"
  unfolding ring_read_space_def assms(3) by (rule mod_space [OF assms(1,2)])

lemma mod_add_inj:
  fixes a i j n :: nat
  assumes "(a + i) mod n = (a + j) mod n" and "i < n" and "j < n"
  shows "i = j"
proof -
  have "(int a + int i) mod int n = (int a + int j) mod int n"
    using assms(1) by (metis of_nat_add of_nat_mod)
  then have "int n dvd (int a + int i) - (int a + int j)"
    by (simp only: mod_eq_dvd_iff)
  then have d: "int n dvd int i - int j" by simp
  have less: "\<bar>int i - int j\<bar> < \<bar>int n\<bar>" using assms(2,3) by linarith
  have "int i - int j = 0"
  proof (rule ccontr)
    assume "int i - int j \<noteq> 0"
    then have "\<bar>int n\<bar> \<le> \<bar>int i - int j\<bar>" using d by (rule dvd_imp_le_int)
    with less show False by linarith
  qed
  then show ?thesis by simp
qed

lemma ring_content_length [simp]: "length (ring_content r) = ring_read_space r"
  by (simp add: ring_content_def)

lemma ring_content_nth:
  "i < ring_read_space r \<Longrightarrow> ring_content r ! i = mem r ! ((rd r + i) mod length (mem r))"
  by (simp add: ring_content_def)

lemma ring_write_space_bound:
  "ring_ok r \<Longrightarrow> n \<le> ring_write_space r \<Longrightarrow> ring_read_space r + n < length (mem r)"
  using ring_read_space_less [of r] by (simp add: ring_write_space_def)

lemma ring_create_spec:
  "ring_create n = Some r \<Longrightarrow> ring_ok r \<and> ring_content r = []"
  using pow2_from_pos [of 2 n]
  by (auto simp: ring_create_def ring_ok_def ring_content_def ring_read_space_def)

lemma ring_write_mem:
  fixes r bs n
  defines "sz \<equiv> length (mem r)"
  defines "m \<equiv> fold (\<lambda>i m. m[(wr r + i) mod sz := bs ! i]) [0..<n] (mem r)"
  assumes ok: "ring_ok r" and n: "n \<le> ring_write_space r"
  shows "i < n \<Longrightarrow> m ! ((rd r + (ring_read_space r + i)) mod sz) = bs ! i" (is "_ \<Longrightarrow> ?new")
    and "i < ring_read_space r \<Longrightarrow> m ! ((rd r + i) mod sz) = mem r ! ((rd r + i) mod sz)"
proof -
  have bound: "ring_read_space r + n < sz"
    using ring_write_space_bound [OF ok n] by (simp add: sz_def)
  have pos: "0 < sz" using ok by (simp add: ring_ok_def sz_def)
  have idx: "(wr r + j) mod sz = (rd r + (ring_read_space r + j)) mod sz" for j
    using ring_wr_eq [OF ok] by (simp add: sz_def mod_add_left_eq add.assoc)
  have inj: "inj_on (\<lambda>j. (wr r + j) mod sz) (set [0..<n])"
    by (rule inj_onI, rule mod_add_inj [where a = "wr r" and n = sz]) (use bound in simp_all)
  {
    assume "i < n"
    then have "m ! ((wr r + i) mod sz) = bs ! i"
      unfolding m_def using inj pos
      by (intro nth_fold_update_hit [where h = "\<lambda>j. (wr r + j) mod sz"]) (simp_all add: sz_def)
    then show ?new by (simp add: idx)
  }
  {
    assume i: "i < ring_read_space r"
    have "(rd r + i) mod sz \<notin> (\<lambda>j. (wr r + j) mod sz) ` set [0..<n]"
    proof
      assume "(rd r + i) mod sz \<in> (\<lambda>j. (wr r + j) mod sz) ` set [0..<n]"
      then obtain j where j: "j < n"
        and e: "(rd r + i) mod sz = (rd r + (ring_read_space r + j)) mod sz"
        by (auto simp: idx)
      have "i = ring_read_space r + j"
        by (rule mod_add_inj [OF e]) (use i j bound in simp_all)
      with i show False by simp
    qed
    then show "m ! ((rd r + i) mod sz) = mem r ! ((rd r + i) mod sz)"
      unfolding m_def by (rule nth_fold_update_other)
  }
qed

lemma ring_write_spec:
  assumes ok: "ring_ok r" and w: "ring_write r bs = (r', n)"
  shows "ring_ok r' \<and> n = min (length bs) (ring_write_space r) \<and>
    ring_content r' = ring_content r @ take n bs \<and>
    ring_write_space r' = ring_write_space r - n"
proof -
  let ?sz = "length (mem r)"
  let ?m = "fold (\<lambda>i m. m[(wr r + i) mod ?sz := bs ! i]) [0..<n] (mem r)"
  have n: "n = min (length bs) (ring_write_space r)"
    and r': "r' = r\<lparr>mem := ?m, wr := (wr r + n) mod ?sz\<rparr>"
    using w by (auto simp: ring_write_def Let_def)
  have le: "n \<le> ring_write_space r" using n by simp
  have pos: "0 < ?sz" "rd r < ?sz" using ok by (simp_all add: ring_ok_def)
  have space: "ring_read_space r' = ring_read_space r + n"
    by (rule ring_space_of_wr)
       (use r' pos ring_write_space_bound [OF ok le] ring_wr_eq [OF ok]
         in \<open>simp_all add: mod_add_left_eq add.assoc\<close>)
  have "ring_content r' = ring_content r @ take n bs"
  proof (rule nth_equalityI)
    show "length (ring_content r') = length (ring_content r @ take n bs)"
      using n by (simp add: space)
  next
    fix i
    assume "i < length (ring_content r')"
    then have i: "i < ring_read_space r + n" by (simp add: space)
    have at: "ring_content r' ! i = ?m ! ((rd r + i) mod ?sz)"
      using ring_content_nth [of i r'] i unfolding space by (simp add: r')
    show "ring_content r' ! i = (ring_content r @ take n bs) ! i"
    proof (cases "i < ring_read_space r")
      case True
      with at ring_write_mem(2) [OF ok le True, of bs] show ?thesis
        by (simp add: nth_append ring_content_def)
    next
      case False
      then obtain j where j: "i = ring_read_space r + j" by (metis le_Suc_ex not_less)
      with i have "j < n" by simp
      with at ring_write_mem(1) [OF ok le \<open>j < n\<close>, of bs] j show ?thesis
        by (simp add: nth_append)
    qed
  qed
  moreover have "ring_write_space r' = ring_write_space r - n"
    unfolding ring_write_space_def space by (simp add: r')
  moreover have "ring_ok r'" using pos by (simp add: ring_ok_def r')
  ultimately show ?thesis using n by blast
qed

lemma ring_advance_spec:
  assumes ok: "ring_ok r" and n: "n \<le> ring_read_space r"
  shows "ring_ok (ring_read_advance r n) \<and>
    ring_content (ring_read_advance r n) = drop n (ring_content r) \<and>
    ring_write_space (ring_read_advance r n) = ring_write_space r + n"
proof -
  let ?sz = "length (mem r)" and ?r = "ring_read_advance r n"
  have pos: "0 < ?sz" using ok by (simp add: ring_ok_def)
  have less: "ring_read_space r < ?sz" by (rule ring_read_space_less [OF ok])
  have "(rd r + ring_read_space r) mod ?sz = (rd r + n + (ring_read_space r - n)) mod ?sz"
    using n by simp
  also have "\<dots> = ((rd r + n) mod ?sz + (ring_read_space r - n)) mod ?sz"
    by (simp only: mod_add_left_eq)
  finally have wr: "wr ?r = (rd ?r + (ring_read_space r - n)) mod length (mem ?r)"
    using ring_wr_eq [OF ok] by (simp add: ring_read_advance_def)
  have space: "ring_read_space ?r = ring_read_space r - n"
    by (rule ring_space_of_wr [OF _ _ wr])
       (use pos less n in \<open>simp_all add: ring_read_advance_def\<close>)
  have "ring_content ?r = drop n (ring_content r)"
  proof (rule nth_equalityI)
    fix i
    assume "i < length (ring_content ?r)"
    then have i: "i < ring_read_space ?r" and j: "n + i < ring_read_space r"
      using n by (simp_all add: space)
    show "ring_content ?r ! i = drop n (ring_content r) ! i"
      using ring_content_nth [OF i] ring_content_nth [OF j] j
      by (simp add: ring_read_advance_def mod_add_left_eq add.assoc)
  qed (simp add: space)
  moreover have "ring_write_space ?r = ring_write_space r + n"
    using n less unfolding ring_write_space_def space by (simp add: ring_read_advance_def)
  moreover have "ring_ok ?r"
    using ok pos by (simp add: ring_ok_def ring_read_advance_def)
  ultimately show ?thesis by blast
qed

lemma ring_read_spec:
  assumes ok: "ring_ok r" and rdr: "ring_read r n = (r', bs)"
  shows "ring_ok r' \<and> bs = take n (ring_content r) \<and> ring_content r' = drop n (ring_content r) \<and>
    ring_write_space r' = ring_write_space r + length bs"
proof -
  let ?k = "min n (ring_read_space r)"
  have r': "r' = ring_read_advance r ?k" and bs: "bs = take ?k (ring_content r)"
    using rdr by (auto simp: ring_read_def Let_def)
  have "take ?k (ring_content r) = take n (ring_content r)"
    and "drop ?k (ring_content r) = drop n (ring_content r)"
    by (auto simp: min_def)
  with ring_advance_spec [OF ok, of ?k] show ?thesis
    unfolding r' bs by simp
qed

lemma ring_vector_spec:
  assumes ok: "ring_ok r" and v: "ring_read_vector r = (s0, s1)"
  shows "seg_bytes s0 @ seg_bytes s1 = map Some (ring_content r)"
    and "seg_len s0 = 0 \<Longrightarrow> seg_len s1 = 0"
proof -
  let ?sz = "length (mem r)" and ?k = "ring_read_space r"
  have lt: "?k < ?sz" "rd r < ?sz"
    using ok ring_read_space_less [OF ok] by (simp_all add: ring_ok_def)
  have low: "seg_bytes (ring_segment r (rd r) l) =
      map (\<lambda>i. Some (mem r ! ((rd r + i) mod ?sz))) [0..<l]" if "rd r + l \<le> ?sz" for l
    using that by (auto simp: seg_bytes_def ring_segment_def)
  have high: "seg_bytes (ring_segment r 0 (rd r + ?k - ?sz)) =
      map (\<lambda>i. Some (mem r ! ((rd r + i) mod ?sz))) [?sz - rd r..<?k]" if "?sz < rd r + ?k"
  proof (rule nth_equalityI)
    fix i
    assume "i < length (seg_bytes (ring_segment r 0 (rd r + ?k - ?sz)))"
    then have i: "i < rd r + ?k - ?sz" by (simp add: ring_segment_def)
    then have "i < ?sz" "?sz - rd r + i < ?k" using lt by linarith+
    moreover have "rd r + (?sz - rd r + i) = ?sz + i" using lt by simp
    moreover have "[?sz - rd r..<?k] ! i = ?sz - rd r + i"
      by (rule nth_upt) fact
    ultimately show "seg_bytes (ring_segment r 0 (rd r + ?k - ?sz)) ! i =
        map (\<lambda>i. Some (mem r ! ((rd r + i) mod ?sz))) [?sz - rd r..<?k] ! i"
      using i by (simp add: seg_bytes_def ring_segment_def)
  qed (use that lt in \<open>simp add: ring_segment_def\<close>)
  have split: "[0..<?sz - rd r] @ [?sz - rd r..<?k] = [0..<?k]" if "?sz < rd r + ?k"
    using that lt upt_add_eq_append [of 0 "?sz - rd r" "?k - (?sz - rd r)"] by simp
  have empty: "seg_bytes (ring_segment r 0 0) = []"
    by (simp add: seg_bytes_def ring_segment_def)
  show "seg_bytes s0 @ seg_bytes s1 = map Some (ring_content r)"
  proof (cases "?sz < rd r + ?k")
    case True
    then have "s0 = ring_segment r (rd r) (?sz - rd r)" "s1 = ring_segment r 0 (rd r + ?k - ?sz)"
      using v by (auto simp: ring_read_vector_def Let_def)
    then show ?thesis
      using low [of "?sz - rd r"] high [OF True] lt
      by (simp add: ring_content_def flip: map_append split [OF True])
  next
    case False
    then have "s0 = ring_segment r (rd r) ?k" "s1 = ring_segment r 0 0"
      using v by (auto simp: ring_read_vector_def Let_def)
    then show ?thesis
      using low [of ?k] False by (simp add: ring_content_def empty comp_def)
  qed
  show "seg_len s0 = 0 \<Longrightarrow> seg_len s1 = 0"
    using v lt by (auto simp: ring_read_vector_def Let_def ring_segment_def split: if_splits)
qed

lemma ring_ops_simps [simp]:
  "rb_create ring_ops = ring_create" "rb_read_space ring_ops = ring_read_space"
  "rb_write_space ring_ops = ring_write_space" "rb_write ring_ops = ring_write"
  "rb_read ring_ops = ring_read" "rb_get_read_vector ring_ops = ring_read_vector"
  "rb_read_advance ring_ops = ring_read_advance"
  by (simp_all add: ring_ops_def)

interpretation ref_ring: jack_ring ring_ops ring_ok ring_content
proof (unfold_locales, goal_cases)
  case (1 n r)
  then show ?case by (simp add: ring_create_spec)
next
  case (3 r bs r' n)
  then show ?case using ring_write_spec [of r bs r' n] by simp
next
  case (4 r n r' bs)
  then show ?case using ring_read_spec [of r n r' bs] by simp
next
  case (5 r s0 s1)
  then show ?case using ring_vector_spec(1) [of r s0 s1] by simp
next
  case (6 r s0 s1)
  then show ?case using ring_vector_spec(2) [of r s0 s1] by simp
next
  case (7 r n)
  then show ?case using ring_advance_spec [of r n] by simp
qed simp

end
