(* ===== verification/Byte_Iterator.thy ===== *)
theory Byte_Iterator
  imports Prelude
begin

text \<open>
  \<open>MidiEvent::parse\<close> is a template over an iterator type: it compares iterators, reads the
  byte an iterator points to, advances it and asks for a distance.  \<open>byte_iter\<close> collects
  these operations and \<open>byte_iterator\<close> is what the parser relies on: an iterator with an end
  stands for the bytes between them.
\<close>

record 'it byte_iter =
  it_eq :: "'it \<Rightarrow> 'it \<Rightarrow> bool"
  it_deref :: "'it \<Rightarrow> byte res"
  it_inc :: "'it \<Rightarrow> 'it"
  it_distance :: "'it \<Rightarrow> 'it \<Rightarrow> nat res"

locale byte_iterator =
  fixes iops :: "'it byte_iter"
    and rest :: "'it \<Rightarrow> 'it \<Rightarrow> byte list"
    and valid :: "'it \<Rightarrow> 'it \<Rightarrow> bool"
  assumes eq_end: "valid it e \<Longrightarrow> it_eq iops it e \<longleftrightarrow> rest it e = []"
    and deref_law: "valid it e \<Longrightarrow> rest it e = b # bs \<Longrightarrow> it_deref iops it = Inr b"
    and inc_law: "valid it e \<Longrightarrow> rest it e = b # bs \<Longrightarrow>
      valid (it_inc iops it) e \<and> rest (it_inc iops it) e = bs"
    and end_law: "valid it e \<Longrightarrow> valid e e \<and> rest e e = []"
    and distance_law: "valid it e \<Longrightarrow> it_distance iops it e = Inr (length (rest it e))"

end
