(* ===== verification/Ring_Iterator.thy ===== *)
theory Ring_Iterator
  imports Jack_Ring Byte_Iterator
begin

text \<open>
  \<open>RingbufferReadIterator\<close> of \<open>driver/src/io/RingbufferIterator.hpp\<close> and \<open>.cpp\<close>: a
  snapshot of a ring's read vector and an offset into it.  The address of the ring is kept
  because iterators of different rings compare and subtract differently; address 0 is the
  null pointer.

  What an iterator shows is \<open>iter_observed\<close>.  It is what the ring holds as long as the
  readable bytes are contiguous (\<open>seg_len (it_seg1 it) = 0\<close>); past the end of the first
  segment the code indexes the second segment with the offset into the whole vector.
  Offsets are natural numbers: a \<open>size_t\<close> offset would have to pass \<open>2 ^ 64\<close> to differ.
\<close>

record ring_iter =
  it_ringbuf :: nat
  it_seg0 :: rb_segment
  it_seg1 :: rb_segment
  it_offset :: nat

definition iter_total :: "ring_iter \<Rightarrow> nat" where
  "iter_total it = seg_len (it_seg0 it) + seg_len (it_seg1 it)"

definition update_read_data :: "'rb jack_rb \<Rightarrow> 'rb \<Rightarrow> ring_iter \<Rightarrow> ring_iter" where
  "update_read_data ops r it =
     (case rb_get_read_vector ops r of (s0, s1) \<Rightarrow> it\<lparr>it_seg0 := s0, it_seg1 := s1\<rparr>)"

definition null_segment :: rb_segment where
  "null_segment = \<lparr>seg_buf = (\<lambda>_. None), seg_len = 0\<rparr>"

text \<open>The constructor for a begin iterator, and the one for an end iterator.\<close>

definition iter_begin :: "'rb jack_rb \<Rightarrow> nat \<Rightarrow> 'rb \<Rightarrow> ring_iter res" where
  "iter_begin ops ptr r = bind_res (assert_res (ptr \<noteq> 0)) (\<lambda>_.
     Inr (update_read_data ops r
       \<lparr>it_ringbuf = ptr, it_seg0 = null_segment, it_seg1 = null_segment, it_offset = 0\<rparr>))"

definition iter_end :: "'rb jack_rb \<Rightarrow> nat \<Rightarrow> 'rb \<Rightarrow> ring_iter res" where
  "iter_end ops ptr r = bind_res (assert_res (ptr \<noteq> 0)) (\<lambda>_.
     let it = update_read_data ops r
       \<lparr>it_ringbuf = ptr, it_seg0 = null_segment, it_seg1 = null_segment, it_offset = 0\<rparr>
     in Inr (it\<lparr>it_offset := iter_total it\<rparr>))"

definition iter_is_readable :: "ring_iter \<Rightarrow> bool" where
  "iter_is_readable it \<longleftrightarrow> it_offset it < iter_total it"

definition iter_to_bool :: "ring_iter \<Rightarrow> bool" where
  "iter_to_bool it = iter_is_readable it"

definition iter_is_end :: "ring_iter \<Rightarrow> bool" where
  "iter_is_end it \<longleftrightarrow> \<not> iter_is_readable it"

definition iter_is_end_iterator :: "ring_iter \<Rightarrow> bool" where
  "iter_is_end_iterator it \<longleftrightarrow> iter_total it < it_offset it + 1"

definition iter_inc :: "ring_iter \<Rightarrow> ring_iter" where
  "iter_inc it = it\<lparr>it_offset := it_offset it + 1\<rparr>"

definition iter_add :: "ring_iter \<Rightarrow> nat \<Rightarrow> ring_iter" where
  "iter_add it n = it\<lparr>it_offset := it_offset it + n\<rparr>"

definition iter_minus :: "ring_iter \<Rightarrow> ring_iter \<Rightarrow> nat res" where
  "iter_minus l r =
     (if it_ringbuf l \<noteq> it_ringbuf r then Inl Invalid_argument
      else if it_offset l < it_offset r then Inr (it_offset r - it_offset l)
      else Inr (it_offset l - it_offset r))"

definition iter_eq :: "ring_iter \<Rightarrow> ring_iter \<Rightarrow> bool" where
  "iter_eq l r =
     (if iter_is_end l \<and> iter_is_end r then True
      else it_ringbuf l = it_ringbuf r \<and> it_offset l = it_offset r)"

text \<open>Reading through a segment's base pointer, without a check of its length.\<close>

definition seg_at :: "rb_segment \<Rightarrow> nat \<Rightarrow> byte res" where
  "seg_at s i = (case seg_buf s i of None \<Rightarrow> Inl Undefined_behaviour | Some b \<Rightarrow> Inr b)"

definition iter_deref :: "ring_iter \<Rightarrow> byte res" where
  "iter_deref it = bind_res (assert_res (it_ringbuf it \<noteq> 0)) (\<lambda>_.
     if \<not> iter_is_readable it then Inl Out_of_range
     else if it_offset it < seg_len (it_seg0 it) then seg_at (it_seg0 it) (it_offset it)
     else bind_res (assert_res (0 < seg_len (it_seg1 it))) (\<lambda>_.
       seg_at (it_seg1 it) (it_offset it)))"

definition iter_advance_read_ptr :: "'rb jack_rb \<Rightarrow> ring_iter \<Rightarrow> 'rb \<Rightarrow> 'rb" where
  "iter_advance_read_ptr ops it r = rb_read_advance ops r (it_offset it)"

definition ring_iter_ops :: "ring_iter byte_iter" where
  "ring_iter_ops = \<lparr>it_eq = iter_eq, it_deref = iter_deref, it_inc = iter_inc,
     it_distance = (\<lambda>a b. iter_minus b a)\<rparr>"

lemma ring_iter_ops_simps [simp]:
  "it_eq ring_iter_ops = iter_eq" "it_deref ring_iter_ops = iter_deref"
  "it_inc ring_iter_ops = iter_inc" "it_distance ring_iter_ops = (\<lambda>a b. iter_minus b a)"
  by (simp_all add: ring_iter_ops_def)

section \<open>What an iterator shows\<close>

definition iter_observed :: "ring_iter \<Rightarrow> byte option list" where
  "iter_observed it = map (\<lambda>i. if i < seg_len (it_seg0 it) then seg_buf (it_seg0 it) i
     else seg_buf (it_seg1 it) i) [0..<iter_total it]"

definition iter_rest :: "ring_iter \<Rightarrow> ring_iter \<Rightarrow> byte list" where
  "iter_rest it e = drop (it_offset it) (map the (iter_observed it))"

definition iter_valid :: "ring_iter \<Rightarrow> ring_iter \<Rightarrow> bool" where
  "iter_valid it e \<longleftrightarrow> it_ringbuf it \<noteq> 0 \<and> None \<notin> set (iter_observed it) \<and>
     it_offset it \<le> iter_total it \<and> e = it\<lparr>it_offset := iter_total it\<rparr>"

lemma iter_observed_offset [simp]: "iter_observed (it\<lparr>it_offset := n\<rparr>) = iter_observed it"
  by (simp add: iter_observed_def iter_total_def)

lemma iter_total_offset [simp]: "iter_total (it\<lparr>it_offset := n\<rparr>) = iter_total it"
  by (simp add: iter_total_def)

lemma length_iter_observed [simp]: "length (iter_observed it) = iter_total it"
  by (simp add: iter_observed_def)

lemma length_iter_rest [simp]: "length (iter_rest it e) = iter_total it - it_offset it"
  by (simp add: iter_rest_def)

lemma iter_rest_Nil_iff: "iter_rest it e = [] \<longleftrightarrow> iter_total it \<le> it_offset it"
  by (simp add: iter_rest_def)

lemma iter_rest_ConsD:
  assumes "iter_valid it e" and "iter_rest it e = b # bs"
  shows "it_offset it < iter_total it" and "iter_observed it ! it_offset it = Some b"
    and "drop (Suc (it_offset it)) (map the (iter_observed it)) = bs"
proof -
  let ?xs = "map the (iter_observed it)"
  have "it_offset it < length ?xs"
    using assms(2) by (metis drop_all iter_rest_def list.distinct(1) not_less)
  then show less: "it_offset it < iter_total it" by simp
  have *: "?xs ! it_offset it = b" "drop (Suc (it_offset it)) ?xs = bs"
    using assms(2) drop_eq_Cons_nth [of "it_offset it" ?xs] less by (simp_all add: iter_rest_def)
  then show "drop (Suc (it_offset it)) (map the (iter_observed it)) = bs" by simp
  have "iter_observed it ! it_offset it \<in> set (iter_observed it)" using less by simp
  then have "iter_observed it ! it_offset it \<noteq> None"
    using assms(1) unfolding iter_valid_def by metis
  with * less show "iter_observed it ! it_offset it = Some b" by auto
qed

lemma iter_deref_observed:
  assumes "it_ringbuf it \<noteq> 0" and "it_offset it < iter_total it"
  shows "iter_deref it = (case iter_observed it ! it_offset it of
    None \<Rightarrow> Inl Undefined_behaviour | Some b \<Rightarrow> Inr b)"
  using assms
  by (auto simp: iter_deref_def iter_is_readable_def iter_observed_def iter_total_def seg_at_def)

interpretation ring_it: byte_iterator ring_iter_ops iter_rest iter_valid
proof (unfold_locales, goal_cases)
  case (1 it e)
  then show ?case
    by (auto simp: iter_valid_def iter_eq_def iter_is_end_def iter_is_readable_def iter_rest_Nil_iff)
next
  case (2 it e b bs)
  then show ?case
    using iter_rest_ConsD [OF 2] by (simp add: iter_deref_observed iter_valid_def)
next
  case (3 it e b bs)
  then show ?case
    using iter_rest_ConsD [OF 3] by (auto simp: iter_valid_def iter_inc_def iter_rest_def)
next
  case (4 it e)
  then show ?case by (simp add: iter_valid_def iter_rest_Nil_iff)
next
  case (5 it e)
  then show ?case by (auto simp: iter_valid_def iter_minus_def)
qed

section \<open>Iterators over a ring that keeps its contract\<close>

context jack_ring
begin

lemma iter_begin_eq:
  assumes "rb_get_read_vector ops r = (s0, s1)" and "ptr \<noteq> 0"
  shows "iter_begin ops ptr r =
    Inr \<lparr>it_ringbuf = ptr, it_seg0 = s0, it_seg1 = s1, it_offset = 0\<rparr>"
  using assms by (simp add: iter_begin_def update_read_data_def)

lemma iter_end_eq:
  assumes "rb_get_read_vector ops r = (s0, s1)" and "ptr \<noteq> 0"
  shows "iter_end ops ptr r =
    Inr \<lparr>it_ringbuf = ptr, it_seg0 = s0, it_seg1 = s1, it_offset = seg_len s0 + seg_len s1\<rparr>"
  using assms by (simp add: iter_end_def update_read_data_def iter_total_def)

lemma observed_contiguous:
  assumes "rinv r" and "rb_get_read_vector ops r = (s0, s1)" and "seg_len s1 = 0"
  shows "iter_observed \<lparr>it_ringbuf = ptr, it_seg0 = s0, it_seg1 = s1, it_offset = n\<rparr> =
    map Some (content r)"
proof -
  have "seg_len s0 = length (content r)"
    using vector_length [OF assms(1,2)] assms(3) by simp
  then show ?thesis
    using vector_nth_first [OF assms(1,2)] assms(3)
    by (auto simp: iter_observed_def iter_total_def intro!: nth_equalityI)
qed

lemma iters_contiguous:
  assumes r: "rinv r" and v: "rb_get_read_vector ops r = (s0, s1)"
    and s1: "seg_len s1 = 0" and ptr: "ptr \<noteq> 0"
  shows "\<exists>it e. iter_begin ops ptr r = Inr it \<and> iter_end ops ptr r = Inr e \<and>
    iter_valid it e \<and> iter_rest it e = content r \<and> it_offset it = 0 \<and>
    it_offset e = length (content r) \<and> it_ringbuf it = ptr"
proof -
  let ?it = "\<lparr>it_ringbuf = ptr, it_seg0 = s0, it_seg1 = s1, it_offset = 0\<rparr>"
  let ?e = "\<lparr>it_ringbuf = ptr, it_seg0 = s0, it_seg1 = s1, it_offset = seg_len s0 + seg_len s1\<rparr>"
  note obs = observed_contiguous [OF r v s1]
  have "iter_valid ?it ?e" using ptr by (auto simp: iter_valid_def obs iter_total_def)
  moreover have "iter_rest ?it ?e = content r" by (simp add: iter_rest_def obs comp_def)
  ultimately show ?thesis
    using iter_begin_eq [OF v ptr] iter_end_eq [OF v ptr] vector_length [OF r v] by fastforce
qed

end

section \<open>Properties\<close>

text \<open>Dereferencing an iterator at offset \<open>n\<close> yields the \<open>n\<close>-th readable byte while it lies in the
  first segment, throws at the end, and in between reads the second segment at \<open>n\<close> itself, not
  at \<open>n\<close> minus the length of the first.\<close>

theorem iter_deref_value:
  assumes "jack_ring ops rinv content" "rinv r" "rb_get_read_vector ops r = (s0, s1)" "ptr \<noteq> 0"
  shows "bind_res (iter_begin ops ptr r) (\<lambda>it. iter_deref (iter_add it n)) =
    (if n < seg_len s0 then Inr (content r ! n)
     else if n < length (content r) then seg_at s1 n else Inl Out_of_range)"
proof -
  note b = jack_ring.iter_begin_eq [OF assms(1, 3, 4)]
  have total: "seg_len s0 + seg_len s1 = length (content r)"
    by (rule jack_ring.vector_length [OF assms(1-3)])
  show ?thesis
    using jack_ring.vector_nth_first [OF assms(1-3), of n] total assms(4)
    by (auto simp: b iter_deref_def iter_add_def iter_is_readable_def iter_total_def seg_at_def)
qed

definition wrapped_ring :: ring where
  "wrapped_ring = \<lparr>mem = [3, 4, 0, 0, 0, 0, 1, 2], rd = 6, wr = 2\<rparr>"

lemma wrapped_ring_ok: "ring_ok wrapped_ring"
  by (simp add: ring_ok_def wrapped_ring_def)

lemma iter_deref_value_witness:
  "bind_res (iter_begin ring_ops 1 wrapped_ring) (\<lambda>it. iter_deref (iter_add it 1)) = Inr 2"
proof -
  obtain s0 s1 where v: "rb_get_read_vector ring_ops wrapped_ring = (s0, s1)" by fastforce
  then have "seg_len s0 = 2"
    by (auto simp: ring_read_vector_def wrapped_ring_def ring_read_space_def ring_segment_def)
  moreover have "ring_content wrapped_ring ! 1 = 2" by code_simp
  ultimately show ?thesis
    using iter_deref_value [OF ref_ring.jack_ring_axioms wrapped_ring_ok v, of 1 1] by simp
qed

text \<open>So an iterator over a buffer whose readable part wraps around does not see its bytes: over a
  ring of eight bytes holding 1, 2, 3, 4 with the wrap after the 2, it yields 1, 2, 0, 0.\<close>

theorem iter_wrapped_misreads:
  "ring_content wrapped_ring = [1, 2, 3, 4] \<and>
   map (\<lambda>n. bind_res (iter_begin ring_ops 1 wrapped_ring) (\<lambda>it. iter_deref (iter_add it n))) [0, 1, 2, 3] =
     [Inr 1, Inr 2, Inr 0, Inr 0]"
  by code_simp

text \<open>Advancing the read pointer by an iterator removes from the ring exactly the bytes the iterator
  has passed, and gives their room back to the writer.\<close>

theorem iter_advance_consumes:
  assumes "jack_ring ops rinv content" "rinv r" "it_offset it \<le> length (content r)"
  shows "rinv (iter_advance_read_ptr ops it r) \<and>
    content (iter_advance_read_ptr ops it r) = drop (it_offset it) (content r) \<and>
    rb_write_space ops (iter_advance_read_ptr ops it r) = rb_write_space ops r + it_offset it"
  unfolding iter_advance_read_ptr_def by (rule jack_ring.advance_law [OF assms])

lemma iter_advance_consumes_witness:
  "ring_content (iter_advance_read_ptr ring_ops
     \<lparr>it_ringbuf = 1, it_seg0 = null_segment, it_seg1 = null_segment, it_offset = 3\<rparr> wrapped_ring) = [4]"
proof -
  have c: "ring_content wrapped_ring = [1, 2, 3, 4]" by code_simp
  show ?thesis
    using iter_advance_consumes [OF ref_ring.jack_ring_axioms wrapped_ring_ok,
      of "\<lparr>it_ringbuf = 1, it_seg0 = null_segment, it_seg1 = null_segment, it_offset = 3\<rparr>"]
    by (simp add: c)
qed

end
