(* ===== verification/Midi_Event.thy ===== *)
theory Midi_Event
  imports Byte_Iterator "HOL-Library.Monad_Syntax"
begin

text \<open>
  \<open>MidiEvent\<close> of \<open>driver/src/io/MidiEvent.hpp\<close> and \<open>.cpp\<close>: the event type, its construction,
  its three-byte encoding, the parser (a template over byte iterators), note names, equality
  and printing.  The anonymous union is its two raw bytes; the named views of the union
  (\<open>note\<close>, \<open>controller\<close>, ...) read the same two bytes.

  \<open>parse_bytes\<close> is the parser as a function of the bytes between two iterators; lemma
  \<open>parse_correct\<close> of the locale \<open>byte_iterator\<close> shows that the loops compute it.
\<close>

section \<open>Events\<close>

datatype midi_type =
    NOTE_OFF | NOTE_ON | POLYPHONIC_AFTERTOUCH | CONTROL_CHANGE
  | PROGRAM_CHANGE | MONOPHONIC_AFTERTOUCH | PITCH_BEND | SYSTEM_MESSAGE

fun type_code :: "midi_type \<Rightarrow> byte" where
  "type_code NOTE_OFF = 0x80"
| "type_code NOTE_ON = 0x90"
| "type_code POLYPHONIC_AFTERTOUCH = 0xa0"
| "type_code CONTROL_CHANGE = 0xb0"
| "type_code PROGRAM_CHANGE = 0xc0"
| "type_code MONOPHONIC_AFTERTOUCH = 0xd0"
| "type_code PITCH_BEND = 0xe0"
| "type_code SYSTEM_MESSAGE = 0xf0"

record midi_event =
  ev_type :: midi_type
  ev_channel :: byte
  ev_raw0 :: byte
  ev_raw1 :: byte

definition STATUS_BYTE_MASK :: byte where "STATUS_BYTE_MASK = 0x80"
definition TYPE_MASK :: byte where "TYPE_MASK = 0xf0"
definition CHANNEL_MASK :: byte where "CHANNEL_MASK = 0x0f"

lemmas midi_masks = STATUS_BYTE_MASK_def TYPE_MASK_def CHANNEL_MASK_def

definition is_status_byte :: "byte \<Rightarrow> bool" where
  "is_status_byte b \<longleftrightarrow> b AND STATUS_BYTE_MASK \<noteq> 0"

text \<open>
  \<open>static_cast<Type>(status & TYPE_MASK)\<close>.  On a status byte the masked value is one of the
  eight codes (lemma \<open>type_code_of_status\<close>), the last branch being the code \<open>0xf0\<close>.
\<close>

definition type_of_code :: "byte \<Rightarrow> midi_type" where
  "type_of_code c =
     (if c = 0x80 then NOTE_OFF else if c = 0x90 then NOTE_ON
      else if c = 0xa0 then POLYPHONIC_AFTERTOUCH else if c = 0xb0 then CONTROL_CHANGE
      else if c = 0xc0 then PROGRAM_CHANGE else if c = 0xd0 then MONOPHONIC_AFTERTOUCH
      else if c = 0xe0 then PITCH_BEND else SYSTEM_MESSAGE)"

definition default_event :: midi_event where
  "default_event = \<lparr>ev_type = NOTE_OFF, ev_channel = 0, ev_raw0 = 0, ev_raw1 = 0\<rparr>"

definition make_event :: "midi_type \<Rightarrow> byte \<Rightarrow> byte \<Rightarrow> byte \<Rightarrow> midi_event" where
  "make_event t ch d1 d2 = \<lparr>ev_type = t, ev_channel = ch, ev_raw0 = d1, ev_raw1 = d2\<rparr>"

lemma make_event_simps [simp]:
  "ev_type (make_event t ch d1 d2) = t" "ev_channel (make_event t ch d1 d2) = ch"
  "ev_raw0 (make_event t ch d1 d2) = d1" "ev_raw1 (make_event t ch d1 d2) = d2"
  by (simp_all add: make_event_def)

definition event_eq :: "midi_event \<Rightarrow> midi_event \<Rightarrow> bool" where
  "event_eq l r \<longleftrightarrow> ev_type l = ev_type r \<and> ev_channel l = ev_channel r \<and>
     ev_raw0 l = ev_raw0 r \<and> ev_raw1 l = ev_raw1 r"

definition to_bytes :: "midi_event \<Rightarrow> byte list res" where
  "to_bytes e = bind_res (assert_res (ev_type e \<noteq> SYSTEM_MESSAGE)) (\<lambda>_.
     Inr [type_code (ev_type e) OR ev_channel e, ev_raw0 e, ev_raw1 e])"

section \<open>Note names\<close>

text \<open>
  Names are C strings: \<open>char\<close> is a signed byte, so \<open>name[0] % 8\<close> is the truncating remainder
  of a signed value, converted to \<open>byte\<close>.
\<close>

definition char_byte :: "char \<Rightarrow> byte" where
  "char_byte c = of_char c"

definition c_rem :: "int \<Rightarrow> int \<Rightarrow> int" where
  "c_rem a b = (if a < 0 then - (- a mod b) else a mod b)"

definition NOTE_NAME_VALUE :: "byte list" where
  "NOTE_NAME_VALUE = [0, 9, 11, 0, 2, 4, 5, 7]"

definition NOTE_VALUE_MODULUS :: int where "NOTE_VALUE_MODULUS = 8"
definition NOTES_PER_OCTAVE :: int where "NOTES_PER_OCTAVE = 12"
definition MIDI_OCTAVE_OFFSET :: int where "MIDI_OCTAVE_OFFSET = 12"

lemmas note_constants =
  NOTE_NAME_VALUE_def NOTE_VALUE_MODULUS_def NOTES_PER_OCTAVE_def MIDI_OCTAVE_OFFSET_def

definition note_from_name :: "string \<Rightarrow> byte res" where
  "note_from_name name =
     bind_res (assert_res (2 \<le> length name \<and> length name \<le> 3)) (\<lambda>_.
     let column = (word_of_int (c_rem (sint (char_byte (name ! 0))) NOTE_VALUE_MODULUS) :: byte)
     in bind_res (assert_res (unat column \<le> length NOTE_NAME_VALUE)) (\<lambda>_.
     bind_res (sub_res NOTE_NAME_VALUE (unat column)) (\<lambda>base.
     let note_val = (word_of_int (uint base +
           (if name ! 1 = CHR ''b'' then -1 else if name ! 1 = CHR ''#'' then 1 else 0)) :: byte);
         octave_char = (if length name = 2 then char_byte (name ! 1) else char_byte (name ! 2))
     in bind_res (assert_res (octave_char AND 0x30 = 0x30)) (\<lambda>_.
     let octave = octave_char AND 0x0f
     in Inr (word_of_int (uint octave * NOTES_PER_OCTAVE + uint note_val + MIDI_OCTAVE_OFFSET))))))"

definition note_off :: "string \<Rightarrow> byte \<Rightarrow> byte \<Rightarrow> midi_event res" where
  "note_off name velocity channel =
     bind_res (note_from_name name) (\<lambda>n. Inr (make_event NOTE_OFF channel n velocity))"

definition note_on :: "string \<Rightarrow> byte \<Rightarrow> byte \<Rightarrow> midi_event res" where
  "note_on name velocity channel =
     bind_res (note_from_name name) (\<lambda>n. Inr (make_event NOTE_ON channel n velocity))"

definition control_change :: "byte \<Rightarrow> byte \<Rightarrow> byte \<Rightarrow> midi_event" where
  "control_change controller val channel = make_event CONTROL_CHANGE channel controller val"

section \<open>Printing\<close>

fun type_name :: "midi_type \<Rightarrow> string" where
  "type_name NOTE_OFF = ''Note Off''"
| "type_name NOTE_ON = ''Note On''"
| "type_name POLYPHONIC_AFTERTOUCH = ''PAftertouch''"
| "type_name CONTROL_CHANGE = ''CC''"
| "type_name PROGRAM_CHANGE = ''PC''"
| "type_name MONOPHONIC_AFTERTOUCH = ''MAftertouch''"
| "type_name PITCH_BEND = ''Pitch Bend''"
| "type_name SYSTEM_MESSAGE = ''SysMsg''"

definition hex_digit :: "nat \<Rightarrow> char" where
  "hex_digit n = ''0123456789abcdef'' ! n"

text \<open>\<open>std::hex\<close> of a byte: no leading zero.\<close>

definition show_hex :: "byte \<Rightarrow> string" where
  "show_hex b = (if unat b < 16 then [hex_digit (unat b)]
     else [hex_digit (unat b div 16), hex_digit (unat b mod 16)])"

definition show_event :: "midi_event \<Rightarrow> string" where
  "show_event e = ''MIDI['' @ type_name (ev_type e) @ '' '' @ show_hex (ev_channel e) @ '':'' @
     '' '' @ show_hex (ev_raw0 e) @ ''/'' @ show_hex (ev_raw1 e) @ '']''"

section \<open>The parser\<close>

text \<open>The three loops over data bytes that are skipped.\<close>

partial_function (option) skip_to_status :: "'it byte_iter \<Rightarrow> 'it \<Rightarrow> 'it \<Rightarrow> 'it res option" where
  "skip_to_status iops e it =
     (if it_eq iops it e then Some (Inr it)
      else case it_deref iops it of
        Inl x \<Rightarrow> Some (Inl x)
      | Inr b \<Rightarrow> if is_status_byte b then Some (Inr it)
                else skip_to_status iops e (it_inc iops it))"

fun set_raw :: "nat \<Rightarrow> byte \<Rightarrow> midi_event \<Rightarrow> midi_event" where
  "set_raw 0 b ev = ev\<lparr>ev_raw0 := b\<rparr>"
| "set_raw (Suc _) b ev = ev\<lparr>ev_raw1 := b\<rparr>"

text \<open>The loop over the data bytes that are kept; the list holds the positions left in \<open>raw\<close>.\<close>

fun read_data :: "'it byte_iter \<Rightarrow> 'it \<Rightarrow> nat list \<Rightarrow> 'it \<Rightarrow> midi_event \<Rightarrow> ('it \<times> midi_event) res" where
  "read_data iops e [] it ev = Inr (it, ev)"
| "read_data iops e (j # js) it ev =
     (if it_eq iops it e then Inr (it, ev)
      else case it_deref iops it of
        Inl x \<Rightarrow> Inl x
      | Inr b \<Rightarrow> if is_status_byte b then Inr (it, ev)
                else read_data iops e js (it_inc iops it) (set_raw j b ev))"

text \<open>\<open>None\<close> is a parse that does not return.\<close>

definition parse :: "'it byte_iter \<Rightarrow> 'it \<Rightarrow> 'it \<Rightarrow> (midi_event \<times> 'it) res option" where
  "parse iops it e = Option.bind (skip_to_status iops e it) (\<lambda>r1. case r1 of
     Inl x \<Rightarrow> Some (Inl x)
   | Inr it1 \<Rightarrow>
       if it_eq iops it1 e then Some (Inr (default_event, e))
       else case bind_res (it_distance iops it1 e) (\<lambda>d. assert_res (d \<noteq> 0)) of
         Inl x \<Rightarrow> Some (Inl x)
       | Inr _ \<Rightarrow> (case it_deref iops it1 of
           Inl x \<Rightarrow> Some (Inl x)
         | Inr status \<Rightarrow>
             if \<not> is_status_byte status then Some (Inl Assert_failed)
             else let ev = default_event\<lparr>ev_type := type_of_code (status AND TYPE_MASK),
                                         ev_channel := status AND CHANNEL_MASK\<rparr>;
                      it2 = it_inc iops it1
             in Option.bind
                  (if ev_type ev = SYSTEM_MESSAGE
                   then map_option (\<lambda>r. bind_res r (\<lambda>it3. Inr (it3, ev))) (skip_to_status iops e it2)
                   else Some (read_data iops e [0, 1] it2 ev))
                  (\<lambda>r3. case r3 of
                     Inl x \<Rightarrow> Some (Inl x)
                   | Inr (it3, ev3) \<Rightarrow>
                       map_option (\<lambda>r. bind_res r (\<lambda>it4. Inr (ev3, it4)))
                         (skip_to_status iops e it3))))"

section \<open>The parser on byte lists\<close>

abbreviation data_byte :: "byte \<Rightarrow> bool" where
  "data_byte b \<equiv> \<not> is_status_byte b"

definition status_event :: "byte \<Rightarrow> byte list \<Rightarrow> midi_event" where
  "status_event s ds =
     (let t = type_of_code (s AND TYPE_MASK); ch = s AND CHANNEL_MASK
      in if t = SYSTEM_MESSAGE then make_event t ch 0 0
         else case ds of
           [] \<Rightarrow> make_event t ch 0 0
         | [a] \<Rightarrow> make_event t ch a 0
         | a # b # _ \<Rightarrow> make_event t ch a b)"

text \<open>One event and the bytes left: at the end or starting with the next status byte.\<close>

definition parse_bytes :: "byte list \<Rightarrow> midi_event \<times> byte list" where
  "parse_bytes bs = (case dropWhile data_byte bs of
      [] \<Rightarrow> (default_event, [])
    | s # r \<Rightarrow> (status_event s (takeWhile data_byte r), dropWhile data_byte r))"

lemma parse_bytes_suffix: "\<exists>t. bs = t @ snd (parse_bytes bs)"
proof (cases "dropWhile data_byte bs")
  case (Cons s r)
  have "bs = takeWhile data_byte bs @ s # takeWhile data_byte r @ dropWhile data_byte r"
    using takeWhile_dropWhile_id [of data_byte bs] Cons by (metis takeWhile_dropWhile_id)
  then have "bs = (takeWhile data_byte bs @ s # takeWhile data_byte r) @ snd (parse_bytes bs)"
    by (simp add: parse_bytes_def Cons)
  then show ?thesis by blast
next
  case Nil
  then have "snd (parse_bytes bs) = []" unfolding parse_bytes_def by (simp only: list.case snd_conv)
  then show ?thesis by simp
qed

lemma is_status_byte_iff: "is_status_byte b \<longleftrightarrow> 128 \<le> unat b"
  unfolding is_status_byte_def STATUS_BYTE_MASK_def
  by (rule all_byte [where b = b]) code_simp

context byte_iterator
begin

lemma skip_correct:
  "valid it e \<Longrightarrow> \<exists>it'. skip_to_status iops e it = Some (Inr it') \<and> valid it' e \<and>
     rest it' e = dropWhile data_byte (rest it e)"
proof (induction "rest it e" arbitrary: it)
  case Nil
  then show ?case
    by (metis Nil.hyps dropWhile.simps(1) eq_end skip_to_status.simps)
next
  case (Cons b bs)
  from Cons.hyps(2) have c: "rest it e = b # bs" by simp
  with Cons.prems have step: "\<not> it_eq iops it e" "it_deref iops it = Inr b"
      "valid (it_inc iops it) e" "rest (it_inc iops it) e = bs"
    using eq_end [of it e] deref_law [of it e b bs] inc_law [of it e b bs] by simp_all
  show ?case
  proof (cases "is_status_byte b")
    case True
    with Cons.prems step c show ?thesis
      by (subst skip_to_status.simps) simp
  next
    case False
    with Cons.hyps(1) [OF step(4) [symmetric] step(3)] step c show ?thesis
      by (subst skip_to_status.simps) simp
  qed
qed

lemma read_data_step:
  assumes "valid it e"
  shows "rest it e = [] \<Longrightarrow> read_data iops e (j # js) it ev = Inr (it, ev)"
    and "rest it e = b # bs \<Longrightarrow> is_status_byte b \<Longrightarrow> read_data iops e (j # js) it ev = Inr (it, ev)"
    and "rest it e = b # bs \<Longrightarrow> data_byte b \<Longrightarrow>
      read_data iops e (j # js) it ev = read_data iops e js (it_inc iops it) (set_raw j b ev)"
  using eq_end [OF assms] deref_law [OF assms] by simp_all

text \<open>The event with its raw bytes filled from the data bytes that follow the status.\<close>

lemma read_data_correct:
  assumes v: "valid it e"
  shows "\<exists>it'. valid it' e \<and> dropWhile data_byte (rest it' e) = dropWhile data_byte (rest it e) \<and>
    read_data iops e [0, 1] it ev = Inr (it',
      case takeWhile data_byte (rest it e) of
        [] \<Rightarrow> ev | [a] \<Rightarrow> ev\<lparr>ev_raw0 := a\<rparr> | a # b # _ \<Rightarrow> ev\<lparr>ev_raw0 := a, ev_raw1 := b\<rparr>)"
proof (cases "rest it e")
  case Nil
  then show ?thesis using v eq_end [OF v] by auto
next
  case (Cons a as)
  note s1 = read_data_step [OF v] and i1 = inc_law [OF v Cons]
  show ?thesis
  proof (cases "is_status_byte a")
    case True
    with Cons v s1(2) [OF Cons True] show ?thesis by auto
  next
    case a: False
    let ?it1 = "it_inc iops it"
    have v1: "valid ?it1 e" and r1: "rest ?it1 e = as" using i1 by simp_all
    note s2 = read_data_step [OF v1] and first = s1(3) [OF Cons a]
    show ?thesis
    proof (cases as)
      case Nil
      with a Cons v1 r1 first s2(1) show ?thesis by auto
    next
      case (Cons b bs)
      with r1 have r1': "rest ?it1 e = b # bs" by simp
      note i2 = inc_law [OF v1 r1']
      show ?thesis
      proof (cases "is_status_byte b")
        case True
        with a Cons \<open>rest it e = a # as\<close> v1 r1' first s2(2) [OF r1' True] show ?thesis by auto
      next
        case False
        with a Cons \<open>rest it e = a # as\<close> i2 first s2(3) [OF r1' False] show ?thesis
          by (intro exI [of _ "it_inc iops ?it1"]) simp
      qed
    qed
  qed
qed

lemma parse_correct:
  assumes v: "valid it e"
  shows "\<exists>it'. parse iops it e = Some (Inr (fst (parse_bytes (rest it e)), it')) \<and>
    valid it' e \<and> rest it' e = snd (parse_bytes (rest it e))"
proof -
  obtain it1 where it1: "skip_to_status iops e it = Some (Inr it1)" "valid it1 e"
      "rest it1 e = dropWhile data_byte (rest it e)"
    using skip_correct [OF v] by blast
  show ?thesis
  proof (cases "rest it1 e")
    case Nil
    with it1 v show ?thesis
      using eq_end [OF it1(2)] end_law [OF v] by (auto simp: parse_def parse_bytes_def)
  next
    case (Cons s r)
    have s: "is_status_byte s"
      using Cons it1(3) by (metis hd_dropWhile list.discI list.sel(1))
    let ?it2 = "it_inc iops it1"
    let ?ev = "default_event\<lparr>ev_type := type_of_code (s AND TYPE_MASK), ev_channel := s AND CHANNEL_MASK\<rparr>"
    have it2: "valid ?it2 e" "rest ?it2 e = r" using inc_law [OF it1(2) Cons] by simp_all
    have head: "\<not> it_eq iops it1 e" "it_deref iops it1 = Inr s"
        "it_distance iops it1 e = Inr (Suc (length r))"
      using eq_end [OF it1(2)] deref_law [OF it1(2) Cons] distance_law [OF it1(2)] Cons by simp_all
    have spec: "parse_bytes (rest it e) = (status_event s (takeWhile data_byte r), dropWhile data_byte r)"
    proof -
      have "dropWhile data_byte (rest it e) = s # r" using it1(3) Cons by metis
      then show ?thesis by (simp add: parse_bytes_def)
    qed
    obtain it3 where sys: "skip_to_status iops e ?it2 = Some (Inr it3)" "valid it3 e"
        "rest it3 e = dropWhile data_byte r"
      using skip_correct [OF it2(1)] it2(2) by auto
    obtain it4 ev where dat: "read_data iops e [0, 1] ?it2 ?ev = Inr (it4, ev)" "valid it4 e"
        "dropWhile data_byte (rest it4 e) = dropWhile data_byte r"
      and ev: "ev = (case takeWhile data_byte r of [] \<Rightarrow> ?ev | [a] \<Rightarrow> ?ev\<lparr>ev_raw0 := a\<rparr>
        | a # b # _ \<Rightarrow> ?ev\<lparr>ev_raw0 := a, ev_raw1 := b\<rparr>)"
      using read_data_correct [OF it2(1), of ?ev] it2(2) by auto
    show ?thesis
    proof (cases "type_of_code (s AND TYPE_MASK) = SYSTEM_MESSAGE")
      case True
      obtain it5 where "skip_to_status iops e it3 = Some (Inr it5)" "valid it5 e"
          "rest it5 e = dropWhile data_byte r"
        using skip_correct [OF sys(2)] sys(3) by (auto simp: dropWhile_idem)
      with it1(1) s head sys True spec show ?thesis
        by (simp add: parse_def status_event_def default_event_def make_event_def)
    next
      case False
      obtain it5 where it5: "skip_to_status iops e it4 = Some (Inr it5)" "valid it5 e"
          "rest it5 e = dropWhile data_byte r"
        using skip_correct [OF dat(2)] dat(3) by auto
      have "ev = status_event s (takeWhile data_byte r)"
        using ev False
        by (simp add: status_event_def default_event_def make_event_def split: list.splits)
      with it5 it1(1) s head dat(1) False spec show ?thesis by (simp add: parse_def)
    qed
  qed
qed

end

section \<open>Encoding and decoding\<close>

lemma type_code_of_status:
  "is_status_byte b \<Longrightarrow> type_code (type_of_code (b AND TYPE_MASK)) = b AND TYPE_MASK"
  by (rule all_byte [where b = b and P = "\<lambda>b. is_status_byte b \<longrightarrow>
        type_code (type_of_code (b AND TYPE_MASK)) = b AND TYPE_MASK", THEN mp]) code_simp

text \<open>An event that fits the wire: channel in four bits, data in seven.\<close>

definition wire_event :: "midi_event \<Rightarrow> bool" where
  "wire_event e \<longleftrightarrow> ev_type e \<noteq> SYSTEM_MESSAGE \<and> unat (ev_channel e) < 16 \<and>
     unat (ev_raw0 e) < 128 \<and> unat (ev_raw1 e) < 128"

definition event_bytes :: "midi_event \<Rightarrow> byte list" where
  "event_bytes e = [type_code (ev_type e) OR ev_channel e, ev_raw0 e, ev_raw1 e]"

lemma to_bytes_wire: "ev_type e \<noteq> SYSTEM_MESSAGE \<Longrightarrow> to_bytes e = Inr (event_bytes e)"
  by (simp add: to_bytes_def event_bytes_def)

lemma status_of_event:
  assumes "unat ch < 16"
  shows "is_status_byte (type_code t OR ch)"
    and "type_of_code ((type_code t OR ch) AND TYPE_MASK) = t"
    and "(type_code t OR ch) AND CHANNEL_MASK = ch"
proof -
  have "\<forall>t \<in> set [NOTE_OFF, NOTE_ON, POLYPHONIC_AFTERTOUCH, CONTROL_CHANGE, PROGRAM_CHANGE,
      MONOPHONIC_AFTERTOUCH, PITCH_BEND, SYSTEM_MESSAGE]. \<forall>n \<in> set [0..<16].
      is_status_byte (type_code t OR word_of_nat n) \<and>
      type_of_code ((type_code t OR word_of_nat n) AND TYPE_MASK) = t \<and>
      (type_code t OR word_of_nat n) AND CHANNEL_MASK = word_of_nat n"
    by code_simp
  moreover have "t \<in> set [NOTE_OFF, NOTE_ON, POLYPHONIC_AFTERTOUCH, CONTROL_CHANGE, PROGRAM_CHANGE,
      MONOPHONIC_AFTERTOUCH, PITCH_BEND, SYSTEM_MESSAGE]" by (cases t) simp_all
  moreover have "unat ch \<in> set [0..<16]" using assms by simp
  ultimately have "is_status_byte (type_code t OR word_of_nat (unat ch)) \<and>
      type_of_code ((type_code t OR word_of_nat (unat ch)) AND TYPE_MASK) = t \<and>
      (type_code t OR word_of_nat (unat ch)) AND CHANNEL_MASK = word_of_nat (unat ch)"
    by blast
  then show "is_status_byte (type_code t OR ch)"
    and "type_of_code ((type_code t OR ch) AND TYPE_MASK) = t"
    and "(type_code t OR ch) AND CHANNEL_MASK = ch" by simp_all
qed

lemma parse_event_bytes:
  assumes w: "wire_event e" and rest: "rest = [] \<or> is_status_byte (hd rest)"
  shows "parse_bytes (event_bytes e @ rest) = (e, rest)"
proof -
  have "data_byte (ev_raw0 e)" "data_byte (ev_raw1 e)"
    using w by (simp_all add: wire_event_def is_status_byte_iff)
  moreover have "takeWhile data_byte rest = []" "dropWhile data_byte rest = rest"
    using rest by (cases rest; simp)+
  ultimately show ?thesis
    using w status_of_event [of "ev_channel e" "ev_type e"]
    by (simp add: parse_bytes_def event_bytes_def wire_event_def status_event_def make_event_def)
qed

section \<open>Note names\<close>

definition semitone :: "char \<Rightarrow> int" where
  "semitone c =
     (if c = CHR ''C'' \<or> c = CHR ''c'' then 0 else if c = CHR ''D'' \<or> c = CHR ''d'' then 2
      else if c = CHR ''E'' \<or> c = CHR ''e'' then 4 else if c = CHR ''F'' \<or> c = CHR ''f'' then 5
      else if c = CHR ''G'' \<or> c = CHR ''g'' then 7 else if c = CHR ''A'' \<or> c = CHR ''a'' then 9
      else 11)"

definition accidental_value :: "string \<Rightarrow> int" where
  "accidental_value a = (if a = ''b'' then -1 else if a = ''#'' then 1 else 0)"

definition note_letters :: string where "note_letters = ''ABCDEFGabcdefg''"
definition accidentals :: "string list" where "accidentals = ['''', ''#'', ''b'']"
definition octave_digits :: string where "octave_digits = ''0123456789''"

section \<open>Properties\<close>

text \<open>A note name, a letter in either case, an optional sharp or flat and an octave digit, stands
  for the MIDI note twelve times the octave plus one, plus the letter's semitone, plus or minus
  one for the accidental.\<close>

theorem note_from_name_value:
  "\<forall>c \<in> set note_letters. \<forall>a \<in> set accidentals. \<forall>n \<in> set [0..<10].
     note_from_name (c # a @ [octave_digits ! n]) =
       Inr (word_of_int (12 * (int n + 1) + semitone c + accidental_value a))"
  by code_simp

lemma note_from_name_value_witness: "note_from_name ''C#3'' = Inr 49"
proof -
  have "CHR ''C'' \<in> set note_letters" "''#'' \<in> set accidentals" "3 \<in> set [0..<10]"
    by (simp_all add: note_letters_def accidentals_def)
  with note_from_name_value
  have "note_from_name (CHR ''C'' # ''#'' @ [octave_digits ! 3]) =
      Inr (word_of_int (12 * (int 3 + 1) + semitone CHR ''C'' + accidental_value ''#''))" by blast
  then show ?thesis by (simp add: octave_digits_def semitone_def accidental_value_def)
qed

text \<open>C33: Parsing ends, over any iterator that keeps the contract of an input iterator, and its result
  depends only on the bytes: data bytes before the first status byte are skipped, the event is
  built from the status and at most two data bytes, further data bytes are dropped, and what
  remains starts with a status byte or is empty.  Without a status byte the result is the default
  event.\<close>

theorem parse_total:
  assumes "byte_iterator iops rest valid" "valid it e"
  shows "\<exists>it'. parse iops it e = Some (Inr (fst (parse_bytes (rest it e)), it')) \<and>
    valid it' e \<and> rest it' e = snd (parse_bytes (rest it e)) \<and>
    (rest it' e = [] \<or> is_status_byte (hd (rest it' e)))"
proof -
  have "snd (parse_bytes bs) = [] \<or> is_status_byte (hd (snd (parse_bytes bs)))" for bs
    using hd_dropWhile [of data_byte] by (auto simp: parse_bytes_def split: list.splits)
  then show ?thesis using byte_iterator.parse_correct [OF assms] by metis
qed

definition list_iter :: "byte list byte_iter" where
  "list_iter = \<lparr>it_eq = (=), it_deref = (\<lambda>bs. case bs of [] \<Rightarrow> Inl Undefined_behaviour | b # _ \<Rightarrow> Inr b),
     it_inc = tl, it_distance = (\<lambda>a b. Inr (length a - length b))\<rparr>"

interpretation list_it: byte_iterator list_iter "\<lambda>it e. it" "\<lambda>it e. e = []"
  by unfold_locales (auto simp: list_iter_def)

lemma parse_total_witness:
  "\<exists>it'. parse list_iter [1, 0x90, 60, 100, 7, 0x80] [] = Some (Inr (make_event NOTE_ON 0 60 100, it')) \<and> it' = [0x80]"
proof -
  have p: "parse_bytes [1, 0x90, 60, 100, 7, 0x80] = (make_event NOTE_ON 0 60 100, [0x80])"
    by code_simp
  show ?thesis using parse_total [OF list_it.byte_iterator_axioms, of "[]" "[1, 0x90, 60, 100, 7, 0x80]"]
    by (simp add: p)
qed



end
