(* ===== verification/Midi_Stream.thy ===== *)
theory Midi_Stream
  imports Ring_Iterator Midi_Event
begin

text \<open>
  \<open>MidiStream\<close> of \<open>driver/src/io/MidiStream.hpp\<close> and \<open>.cpp\<close>: a byte ring with a write
  notification, and the input iterator that parses MIDI events out of it.  The locale facts of
  the parser are used at the interpretation \<open>ring_it\<close> of \<open>byte_iterator\<close> on ring
  iterators.
\<close>

section \<open>The stream and its iterator\<close>

text \<open>The callback gets the stream; what it can change there is the ring.\<close>

record 'rb midi_stream =
  ms_addr :: nat
  ms_buf :: 'rb
  ms_callback :: "('rb \<Rightarrow> 'rb) option"

record stream_iter =
  si_buf_iter :: ring_iter
  si_end_iter :: ring_iter
  si_next_buf_iter :: ring_iter

definition stream_new :: "'rb jack_rb \<Rightarrow> nat \<Rightarrow> nat \<Rightarrow> 'rb midi_stream res" where
  "stream_new ops addr n = (case rb_create ops n of
      None \<Rightarrow> Inl Bad_alloc
    | Some r \<Rightarrow> Inr \<lparr>ms_addr = addr, ms_buf = r, ms_callback = None\<rparr>)"

definition set_write_notification_callback ::
    "'rb midi_stream \<Rightarrow> ('rb \<Rightarrow> 'rb) option \<Rightarrow> 'rb midi_stream" where
  "set_write_notification_callback ms cb = ms\<lparr>ms_callback := cb\<rparr>"

definition stream_write :: "'rb jack_rb \<Rightarrow> 'rb midi_stream \<Rightarrow> byte list \<Rightarrow> 'rb midi_stream \<times> nat" where
  "stream_write ops ms bs = (case rb_write ops (ms_buf ms) bs of (r, written) \<Rightarrow>
     (case ms_callback ms of
        Some cb \<Rightarrow> if 0 < written then (ms\<lparr>ms_buf := cb r\<rparr>, written) else (ms\<lparr>ms_buf := r\<rparr>, written)
      | None \<Rightarrow> (ms\<lparr>ms_buf := r\<rparr>, written)))"

definition stream_begin :: "'rb jack_rb \<Rightarrow> 'rb midi_stream \<Rightarrow> stream_iter res" where
  "stream_begin ops ms =
     bind_res (iter_begin ops (ms_addr ms) (ms_buf ms)) (\<lambda>b.
     bind_res (iter_end ops (ms_addr ms) (ms_buf ms)) (\<lambda>e.
     Inr \<lparr>si_buf_iter = b, si_end_iter = e, si_next_buf_iter = e\<rparr>))"

definition stream_end :: "'rb jack_rb \<Rightarrow> 'rb midi_stream \<Rightarrow> stream_iter res" where
  "stream_end ops ms =
     bind_res (iter_end ops (ms_addr ms) (ms_buf ms)) (\<lambda>e.
     Inr \<lparr>si_buf_iter = e, si_end_iter = e, si_next_buf_iter = e\<rparr>)"

definition stream_deref :: "stream_iter \<Rightarrow> (midi_event \<times> stream_iter) res option" where
  "stream_deref si =
     map_option (\<lambda>r. bind_res r (\<lambda>(ev, nxt). Inr (ev, si\<lparr>si_next_buf_iter := nxt\<rparr>)))
       (parse ring_iter_ops (si_buf_iter si) (si_end_iter si))"

definition stream_inc :: "stream_iter \<Rightarrow> stream_iter res option" where
  "stream_inc si =
     map_option (\<lambda>r. bind_res r (\<lambda>si1.
         Inr (si1\<lparr>si_buf_iter := si_next_buf_iter si1, si_next_buf_iter := si_end_iter si1\<rparr>)))
       (if iter_eq (si_next_buf_iter si) (si_end_iter si)
        then map_option (\<lambda>r. bind_res r (\<lambda>(_, si1). Inr si1)) (stream_deref si)
        else Some (Inr si))"

definition stream_is_end :: "stream_iter \<Rightarrow> bool" where
  "stream_is_end si \<longleftrightarrow> iter_eq (si_buf_iter si) (si_end_iter si)"

definition stream_iter_eq :: "stream_iter \<Rightarrow> stream_iter \<Rightarrow> bool" where
  "stream_iter_eq l r \<longleftrightarrow> iter_eq (si_buf_iter l) (si_buf_iter r)"

definition stream_advance_read_ptr :: "'rb jack_rb \<Rightarrow> stream_iter \<Rightarrow> 'rb midi_stream \<Rightarrow> 'rb midi_stream" where
  "stream_advance_read_ptr ops si ms =
     ms\<lparr>ms_buf := iter_advance_read_ptr ops (si_buf_iter si) (ms_buf ms)\<rparr>"

text \<open>The range-based \<open>for\<close> over a stream: the events its body sees.\<close>

partial_function (option) stream_collect ::
    "stream_iter \<Rightarrow> stream_iter \<Rightarrow> midi_event list \<Rightarrow> midi_event list res option" where
  "stream_collect it e acc =
     (if stream_iter_eq it e then Some (Inr acc)
      else Option.bind (stream_deref it) (\<lambda>r. case r of
        Inl x \<Rightarrow> Some (Inl x)
      | Inr (ev, it1) \<Rightarrow> Option.bind (stream_inc it1) (\<lambda>r2. case r2 of
          Inl x \<Rightarrow> Some (Inl x)
        | Inr it2 \<Rightarrow> stream_collect it2 e (acc @ [ev]))))"

definition stream_events :: "'rb jack_rb \<Rightarrow> 'rb midi_stream \<Rightarrow> midi_event list res option" where
  "stream_events ops ms =
     (case bind_res (stream_begin ops ms) (\<lambda>b. bind_res (stream_end ops ms) (\<lambda>e. Inr (b, e))) of
        Inl x \<Rightarrow> Some (Inl x)
      | Inr (b, e) \<Rightarrow> stream_collect b e [])"

section \<open>All events of a byte list\<close>

lemma parse_bytes_shorter: "bs \<noteq> [] \<Longrightarrow> length (snd (parse_bytes bs)) < length bs"
proof -
  assume "bs \<noteq> []"
  have drop: "length (dropWhile data_byte xs) \<le> length xs" for xs
    by (simp add: length_dropWhile_le)
  show ?thesis
  proof (cases "dropWhile data_byte bs")
    case Nil
    have "parse_bytes bs = (default_event, [])" unfolding parse_bytes_def Nil by simp
    with \<open>bs \<noteq> []\<close> show ?thesis by simp
  next
    case (Cons s r)
    then have "Suc (length r) \<le> length bs" using drop [of bs] by simp
    with drop [of r] Cons show ?thesis by (simp add: parse_bytes_def)
  qed
qed

function parse_all :: "byte list \<Rightarrow> midi_event list" where
  "parse_all bs =
     (if bs = [] then [] else fst (parse_bytes bs) # parse_all (snd (parse_bytes bs)))"
  by pat_completeness auto
termination
  by (relation "measure length") (auto simp: parse_bytes_shorter)

declare parse_all.simps [simp del]

lemma parse_all_Nil [simp]: "parse_all [] = []"
  by (simp add: parse_all.simps)

lemma parse_all_Cons: "bs \<noteq> [] \<Longrightarrow> parse_all bs = fst (parse_bytes bs) # parse_all (snd (parse_bytes bs))"
  by (simp add: parse_all.simps [of bs])

lemma parse_all_events:
  assumes "\<And>e. e \<in> set es \<Longrightarrow> wire_event e"
  shows "parse_all (concat (map event_bytes es)) = es"
  using assms
proof (induction es)
  case Nil
  then show ?case by simp
next
  case (Cons e es)
  have "concat (map event_bytes es) = [] \<or> is_status_byte (hd (concat (map event_bytes es)))"
    using Cons.prems status_of_event(1)
    by (cases es) (auto simp: event_bytes_def wire_event_def)
  then have p: "parse_bytes (event_bytes e @ concat (map event_bytes es)) = (e, concat (map event_bytes es))"
    using Cons.prems by (simp add: parse_event_bytes)
  have "event_bytes e @ concat (map event_bytes es) \<noteq> []" by (simp add: event_bytes_def)
  from parse_all_Cons [OF this] p Cons show ?case by simp
qed

text \<open>Data bytes before the first status byte and after the last message are skipped.\<close>

lemma parse_bytes_skip:
  assumes "\<forall>b \<in> set pre. data_byte b"
  shows "parse_bytes (pre @ bs) = parse_bytes bs"
  using assms by (simp add: parse_bytes_def dropWhile_append2)

lemma parse_all_skip:
  assumes "\<forall>b \<in> set pre. data_byte b" and "bs \<noteq> []"
  shows "parse_all (pre @ bs) = parse_all bs"
  using assms parse_all_Cons [of "pre @ bs"] parse_all_Cons [of bs]
  by (simp add: parse_bytes_skip)

section \<open>The iterator delivers them\<close>

lemmas ring_parse_correct = byte_iterator.parse_correct [OF ring_it.byte_iterator_axioms]

definition stream_iter_ok :: "stream_iter \<Rightarrow> bool" where
  "stream_iter_ok si \<longleftrightarrow> iter_valid (si_buf_iter si) (si_end_iter si)"

definition si_rest :: "stream_iter \<Rightarrow> byte list" where
  "si_rest si = iter_rest (si_buf_iter si) (si_end_iter si)"

lemma stream_deref_correct:
  assumes "stream_iter_ok si"
  shows "\<exists>nxt. stream_deref si = Some (Inr (fst (parse_bytes (si_rest si)), si\<lparr>si_next_buf_iter := nxt\<rparr>)) \<and>
    iter_valid nxt (si_end_iter si) \<and> iter_rest nxt (si_end_iter si) = snd (parse_bytes (si_rest si))"
  using ring_parse_correct [of "si_buf_iter si" "si_end_iter si"] assms
  by (auto simp: stream_deref_def stream_iter_ok_def si_rest_def)

text \<open>Incrementing after a read: when the next position is the end, the event is parsed again.\<close>

lemma stream_inc_correct:
  assumes ok: "stream_iter_ok si"
    and d: "stream_deref si = Some (Inr (ev, si1))"
  shows "\<exists>si2. stream_inc si1 = Some (Inr si2) \<and> stream_iter_ok si2 \<and>
    si_rest si2 = snd (parse_bytes (si_rest si)) \<and> si_end_iter si2 = si_end_iter si"
proof -
  obtain nxt where nxt: "si1 = si\<lparr>si_next_buf_iter := nxt\<rparr>" "iter_valid nxt (si_end_iter si)"
      "iter_rest nxt (si_end_iter si) = snd (parse_bytes (si_rest si))"
    using stream_deref_correct [OF ok] d by auto
  have "stream_iter_ok si1" "si_rest si1 = si_rest si"
    using ok nxt(1) by (simp_all add: stream_iter_ok_def si_rest_def)
  then obtain nxt' where again: "stream_deref si1 =
        Some (Inr (fst (parse_bytes (si_rest si)), si1\<lparr>si_next_buf_iter := nxt'\<rparr>))"
      "iter_valid nxt' (si_end_iter si)" "iter_rest nxt' (si_end_iter si) = snd (parse_bytes (si_rest si))"
    using stream_deref_correct [of si1] nxt(1) by auto
  show ?thesis
  proof (cases "iter_eq nxt (si_end_iter si)")
    case True
    with again nxt(1) show ?thesis
      by (auto simp: stream_inc_def stream_iter_ok_def si_rest_def)
  next
    case False
    with nxt show ?thesis by (auto simp: stream_inc_def stream_iter_ok_def si_rest_def)
  qed
qed

lemma stream_collect_correct:
  assumes "stream_iter_ok si" and "si_buf_iter e = si_end_iter si"
  shows "stream_collect si e acc = Some (Inr (acc @ parse_all (si_rest si)))"
  using assms
proof (induction "si_rest si" arbitrary: si acc rule: parse_all.induct)
  case (1 si)
  have eq: "stream_iter_eq si e \<longleftrightarrow> si_rest si = []"
    using "1.prems" ring_it.eq_end [of "si_buf_iter si" "si_end_iter si"]
    by (simp add: stream_iter_eq_def stream_iter_ok_def si_rest_def)
  show ?case
  proof (cases "si_rest si = []")
    case True
    with eq show ?thesis by (subst stream_collect.simps) simp
  next
    case False
    obtain nxt where d: "stream_deref si =
        Some (Inr (fst (parse_bytes (si_rest si)), si\<lparr>si_next_buf_iter := nxt\<rparr>))"
      using stream_deref_correct [OF "1.prems"(1)] by blast
    then obtain si2 where si2: "stream_inc (si\<lparr>si_next_buf_iter := nxt\<rparr>) = Some (Inr si2)"
        "stream_iter_ok si2" "si_rest si2 = snd (parse_bytes (si_rest si))"
        "si_end_iter si2 = si_end_iter si"
      using stream_inc_correct [OF "1.prems"(1)] by blast
    have "stream_collect si2 e (acc @ [fst (parse_bytes (si_rest si))]) =
        Some (Inr ((acc @ [fst (parse_bytes (si_rest si))]) @ parse_all (si_rest si2)))"
      using "1.hyps" [OF False si2(3) [symmetric] si2(2)] "1.prems"(2) si2(4) by simp
    then show ?thesis
      using False eq d si2 parse_all_Cons [OF False] by (subst stream_collect.simps) simp
  qed
qed

context jack_ring
begin

lemma stream_events_contiguous:
  assumes "rinv (ms_buf ms)" and "rb_get_read_vector ops (ms_buf ms) = (s0, s1)"
    and "seg_len s1 = 0" and "ms_addr ms \<noteq> 0"
  shows "stream_events ops ms = Some (Inr (parse_all (content (ms_buf ms))))"
proof -
  obtain it e where ie: "iter_begin ops (ms_addr ms) (ms_buf ms) = Inr it"
      "iter_end ops (ms_addr ms) (ms_buf ms) = Inr e" "iter_valid it e"
      "iter_rest it e = content (ms_buf ms)"
    using iters_contiguous [OF assms] by blast
  then show ?thesis
    using stream_collect_correct [of "\<lparr>si_buf_iter = it, si_end_iter = e, si_next_buf_iter = e\<rparr>"
      "\<lparr>si_buf_iter = e, si_end_iter = e, si_next_buf_iter = e\<rparr>" "[]"]
    by (simp add: stream_events_def stream_begin_def stream_end_def stream_iter_ok_def si_rest_def)
qed

end

section \<open>Properties\<close>

text \<open>C34: Channel messages written to a stream come back from iterating over it, in order and
  unchanged, as long as the readable bytes lie in one segment of the ring; the iteration ends.\<close>

theorem stream_roundtrip:
  assumes "jack_ring ops rinv content" "rinv (ms_buf ms)" "content (ms_buf ms) = []" "ms_addr ms \<noteq> 0"
    and "\<forall>e \<in> set es. wire_event e" "3 * length es \<le> rb_write_space ops (ms_buf ms)" "ms_callback ms = None"
    and "stream_write ops ms (concat (map event_bytes es)) = (ms', n)"
    and "rb_get_read_vector ops (ms_buf ms') = (s0, s1)" "seg_len s1 = 0"
  shows "n = 3 * length es \<and> stream_events ops ms' = Some (Inr es)"
proof -
  have len: "length (concat (map event_bytes es)) = 3 * length es"
    by (induction es) (simp_all add: event_bytes_def)
  obtain r where w: "rb_write ops (ms_buf ms) (concat (map event_bytes es)) = (r, n)" and ms': "ms' = ms\<lparr>ms_buf := r\<rparr>"
    using assms(7, 8) by (auto simp: stream_write_def split: prod.splits)
  have r: "rinv r" "n = 3 * length es" "content r = concat (map event_bytes es)"
    using jack_ring.write_fits [OF assms(1, 2) _ w] assms(3, 6) len by auto
  have "stream_events ops ms' = Some (Inr (parse_all (content (ms_buf ms'))))"
    by (rule jack_ring.stream_events_contiguous [OF assms(1) _ assms(9, 10)]) (simp_all add: ms' r assms(4))
  then show ?thesis using parse_all_events [of es] assms(5) r by (simp add: ms')
qed

lemma stream_roundtrip_witness:
  "\<exists>ms' n. stream_write ring_ops \<lparr>ms_addr = 1, ms_buf = \<lparr>mem = replicate 8 0, rd = 0, wr = 0\<rparr>, ms_callback = None\<rparr>
      (concat (map event_bytes [make_event NOTE_ON 0 60 100, make_event NOTE_OFF 0 60 0])) = (ms', n) \<and>
    stream_events ring_ops ms' = Some (Inr [make_event NOTE_ON 0 60 100, make_event NOTE_OFF 0 60 0])"
proof -
  let ?ms = "\<lparr>ms_addr = 1, ms_buf = \<lparr>mem = replicate 8 0, rd = 0, wr = 0\<rparr>, ms_callback = None\<rparr> :: ring midi_stream"
  let ?es = "[make_event NOTE_ON 0 60 100, make_event NOTE_OFF 0 60 0]"
  let ?r = "\<lparr>mem = [0x90, 60, 100, 0x80, 60, 0, 0, 0], rd = 0, wr = 6\<rparr>"
  have ok: "ring_ok (ms_buf ?ms)" "ring_content (ms_buf ?ms) = []" "ms_addr ?ms \<noteq> 0"
      "\<forall>e \<in> set ?es. wire_event e" "3 * length ?es \<le> rb_write_space ring_ops (ms_buf ?ms)" "ms_callback ?ms = None"
    by (code_simp, code_simp, simp, code_simp, code_simp, simp)
  have w: "ring_write (ms_buf ?ms) (concat (map event_bytes ?es)) = (?r, 6)" by code_simp
  then have w: "stream_write ring_ops ?ms (concat (map event_bytes ?es)) = (?ms\<lparr>ms_buf := ?r\<rparr>, 6)"
    by (simp add: stream_write_def)
  have v: "rb_get_read_vector ring_ops (ms_buf (?ms\<lparr>ms_buf := ?r\<rparr>)) = (ring_segment ?r 0 6, ring_segment ?r 0 0)"
    "seg_len (ring_segment ?r 0 0) = 0"
    by (simp_all add: ring_read_vector_def ring_read_space_def ring_segment_def)
  from stream_roundtrip [OF ref_ring.jack_ring_axioms ok w v] w show ?thesis by blast
qed

text \<open>A write to a stream stores as many bytes as fit, in order, reports that number, and calls
  the notification exactly when it is not zero.\<close>

theorem stream_write_notifies:
  assumes "jack_ring ops rinv content" "rinv (ms_buf ms)" "stream_write ops ms bs = (ms', n)"
  shows "n = min (length bs) (rb_write_space ops (ms_buf ms)) \<and>
    (\<exists>r. rinv r \<and> content r = content (ms_buf ms) @ take n bs \<and>
      ms' = ms\<lparr>ms_buf := (case ms_callback ms of Some cb \<Rightarrow> if n = 0 then r else cb r | None \<Rightarrow> r)\<rparr>)"
proof -
  obtain r m where w: "rb_write ops (ms_buf ms) bs = (r, m)" by fastforce
  note law = jack_ring.write_law [OF assms(1, 2) w]
  have "n = m" "ms' = ms\<lparr>ms_buf := (case ms_callback ms of Some cb \<Rightarrow> if n = 0 then r else cb r | None \<Rightarrow> r)\<rparr>"
    using assms(3) by (auto simp: stream_write_def w split: option.splits if_splits)
  with law show ?thesis by blast
qed

lemma stream_write_notifies_witness:
  "\<exists>ms'. stream_write ring_ops \<lparr>ms_addr = 1, ms_buf = \<lparr>mem = replicate 4 0, rd = 0, wr = 0\<rparr>,
      ms_callback = Some (\<lambda>r. r\<lparr>rd := wr r\<rparr>)\<rparr> [1, 2, 3, 4, 5] = (ms', 3)"
proof -
  let ?ms = "\<lparr>ms_addr = 1, ms_buf = \<lparr>mem = replicate 4 0, rd = 0, wr = 0\<rparr>,
      ms_callback = Some (\<lambda>r. r\<lparr>rd := wr r\<rparr>)\<rparr> :: ring midi_stream"
  obtain ms' n where w: "stream_write ring_ops ?ms [1, 2, 3, 4, 5] = (ms', n)" by fastforce
  have "ring_ok (ms_buf ?ms)" "rb_write_space ring_ops (ms_buf ?ms) = 3" by code_simp+
  with stream_write_notifies [OF ref_ring.jack_ring_axioms _ w] w show ?thesis by simp
qed

end
