(* ===== verification/F1_Data.thy ===== *)
theory F1_Data
  imports Prelude
begin

text \<open>
  The data of \<open>F1Device\<close> (\<open>driver/src/tkf1/F1Device.hpp\<close>): constants, input state, input
  events, output state and the pure static functions (colors, matrix positions, button names,
  seven-segment digits).  \<open>std::bitset\<close> and \<open>std::array\<close> are lists of the array's length
  (predicates \<open>wf_input\<close>, \<open>wf_output\<close>).
\<close>

section \<open>Constants\<close>

definition OUTPUT_REPORT_ID :: byte where "OUTPUT_REPORT_ID = 0x80"
definition INPUT_REPORT_ID :: byte where "INPUT_REPORT_ID = 0x01"
definition OUTPUT_REPORT_SIZE :: nat where "OUTPUT_REPORT_SIZE = 81"
definition INPUT_REPORT_SIZE :: nat where "INPUT_REPORT_SIZE = 22"
definition MATRIX_BUTTONS_NUM :: nat where "MATRIX_BUTTONS_NUM = 16"
definition SPECIAL_BUTTONS_NUM :: nat where "SPECIAL_BUTTONS_NUM = 9"
definition STOP_BUTTONS_NUM :: nat where "STOP_BUTTONS_NUM = 4"
definition KNOBS_NUM :: nat where "KNOBS_NUM = 4"
definition FADERS_NUM :: nat where "FADERS_NUM = 4"
definition SEGMENTS_PER_DISPLAY :: nat where "SEGMENTS_PER_DISPLAY = 8"
definition KNOBS_MAX :: u16 where "KNOBS_MAX = 0xfff"
definition FADERS_MAX :: u16 where "FADERS_MAX = 0xfff"
definition MAX_SEGMENT_NUM :: byte where "MAX_SEGMENT_NUM = 100"
definition MAX_BRIGHTNESS :: byte where "MAX_BRIGHTNESS = 128"
definition DARK :: byte where "DARK = 0"
definition FULL_BRIGHTNESS :: byte where "FULL_BRIGHTNESS = 0x7f"
definition HID_VENDOR_ID :: u16 where "HID_VENDOR_ID = 0x17cc"
definition HID_PRODUCT_ID :: u16 where "HID_PRODUCT_ID = 0x1120"

lemmas f1_sizes =
  OUTPUT_REPORT_SIZE_def INPUT_REPORT_SIZE_def MATRIX_BUTTONS_NUM_def SPECIAL_BUTTONS_NUM_def
  STOP_BUTTONS_NUM_def KNOBS_NUM_def FADERS_NUM_def SEGMENTS_PER_DISPLAY_def

section \<open>Colors\<close>

text \<open>\<open>ButtonColor\<close>: the device order, blue, red, green.\<close>

type_synonym button_color = "byte \<times> byte \<times> byte"

definition color2rgb :: "button_color \<Rightarrow> byte \<times> byte \<times> byte" where
  "color2rgb c = (case c of (b, r, g) \<Rightarrow> (r, g, b))"

definition rgb2color :: "byte \<Rightarrow> byte \<Rightarrow> byte \<Rightarrow> button_color" where
  "rgb2color r g b = (b, r, g)"

definition BLACK :: button_color where "BLACK = (DARK, DARK, DARK)"
definition WHITE :: button_color where "WHITE = (FULL_BRIGHTNESS, FULL_BRIGHTNESS, FULL_BRIGHTNESS)"

section \<open>Seven-segment characters\<close>

text \<open>
  \<open>SegmentChar\<close> has an eight-bit underlying type and enumerators that share a value
  (\<open>D0\<close> and \<open>O\<close>, \<open>D5\<close> and \<open>S\<close>): a character is its byte.
\<close>

type_synonym segment_char = byte

definition SEG_NONE :: segment_char where "SEG_NONE = 0b00000000"
definition SEG_UNDERLINE :: segment_char where "SEG_UNDERLINE = 0b10000000"
definition SEG_MIDLINE :: segment_char where "SEG_MIDLINE = 0b00000010"
definition SEG_TOPLINE :: segment_char where "SEG_TOPLINE = 0b00010000"
definition SEG_D0 :: segment_char where "SEG_D0 = 0b11111100"
definition SEG_D1 :: segment_char where "SEG_D1 = 0b00001100"
definition SEG_D2 :: segment_char where "SEG_D2 = 0b11011010"
definition SEG_D3 :: segment_char where "SEG_D3 = 0b10011110"
definition SEG_D4 :: segment_char where "SEG_D4 = 0b00101110"
definition SEG_D5 :: segment_char where "SEG_D5 = 0b10110110"
definition SEG_D6 :: segment_char where "SEG_D6 = 0b11110110"
definition SEG_D7 :: segment_char where "SEG_D7 = 0b00011100"
definition SEG_D8 :: segment_char where "SEG_D8 = 0b11111110"
definition SEG_D9 :: segment_char where "SEG_D9 = 0b00111110"

definition SEG_A :: segment_char where "SEG_A = 0b01111110"
definition SEG_C :: segment_char where "SEG_C = 0b11110000"
definition SEG_E :: segment_char where "SEG_E = 0b11110010"
definition SEG_F :: segment_char where "SEG_F = 0b01110010"
definition SEG_H :: segment_char where "SEG_H = 0b01101110"
definition SEG_L :: segment_char where "SEG_L = 0b11100000"
definition SEG_O :: segment_char where "SEG_O = 0b11111100"
definition SEG_P :: segment_char where "SEG_P = 0b11111010"
definition SEG_S :: segment_char where "SEG_S = 0b10110110"
definition SEG_U :: segment_char where "SEG_U = 0b11101100"

lemmas seg_digits = SEG_D0_def SEG_D1_def SEG_D2_def SEG_D3_def SEG_D4_def SEG_D5_def
  SEG_D6_def SEG_D7_def SEG_D8_def SEG_D9_def

definition digit_to_segment :: "byte \<Rightarrow> segment_char res" where
  "digit_to_segment digit =
     (if digit = 0 then Inr SEG_D0 else if digit = 1 then Inr SEG_D1
      else if digit = 2 then Inr SEG_D2 else if digit = 3 then Inr SEG_D3
      else if digit = 4 then Inr SEG_D4 else if digit = 5 then Inr SEG_D5
      else if digit = 6 then Inr SEG_D6 else if digit = 7 then Inr SEG_D7
      else if digit = 8 then Inr SEG_D8 else if digit = 9 then Inr SEG_D9
      else Inl Assert_failed)"

definition num_to_segments :: "byte \<Rightarrow> (segment_char \<times> segment_char) res" where
  "num_to_segments num =
     (if MAX_SEGMENT_NUM \<le> num then Inl Out_of_range
      else let hi_digit = num div 10; lo_digit = num - hi_digit * 10
           in bind_res (digit_to_segment hi_digit) (\<lambda>hi.
              bind_res (digit_to_segment lo_digit) (\<lambda>lo. Inr (hi, lo))))"

section \<open>Positions and names\<close>

definition matrix_pos :: "byte \<Rightarrow> byte \<Rightarrow> byte" where
  "matrix_pos x y = y * 4 + x"

text \<open>\<open>SpecialButtons\<close>: the positions of the special buttons.\<close>

definition BTN_WHEEL :: byte where "BTN_WHEEL = 0"
definition BTN_BROWSE :: byte where "BTN_BROWSE = 1"
definition BTN_SIZE :: byte where "BTN_SIZE = 2"
definition BTN_TYPE :: byte where "BTN_TYPE = 3"
definition BTN_REVERSE :: byte where "BTN_REVERSE = 4"
definition BTN_SHIFT :: byte where "BTN_SHIFT = 5"
definition BTN_CAPTURE :: byte where "BTN_CAPTURE = 6"
definition BTN_QUANT :: byte where "BTN_QUANT = 7"
definition BTN_SYNC :: byte where "BTN_SYNC = 8"

lemmas special_buttons [simp] = BTN_WHEEL_def BTN_BROWSE_def BTN_SIZE_def BTN_TYPE_def BTN_REVERSE_def
  BTN_SHIFT_def BTN_CAPTURE_def BTN_QUANT_def BTN_SYNC_def

definition special_btn_name :: "byte \<Rightarrow> string" where
  "special_btn_name idx =
     (if idx = BTN_WHEEL then ''WHEEL'' else if idx = BTN_BROWSE then ''BROWSE''
      else if idx = BTN_SIZE then ''SIZE'' else if idx = BTN_TYPE then ''TYPE''
      else if idx = BTN_REVERSE then ''REVERSE'' else if idx = BTN_SHIFT then ''SHIFT''
      else if idx = BTN_CAPTURE then ''CAPTURE'' else if idx = BTN_QUANT then ''QUANT''
      else if idx = BTN_SYNC then ''SYNC'' else ''UNKNOWN'')"

section \<open>Input\<close>

record input_state =
  in_report_id :: byte
  in_matrix :: "bool list"
  in_special :: "bool list"
  in_stop :: "bool list"
  in_wheel :: byte
  in_knobs :: "u16 list"
  in_faders :: "u16 list"

datatype event_type = BUTTON | ENCODER
datatype input_type = MATRIX | STOP | SPECIAL | KNOB | FADER | WHEEL

record button_event =
  btn_index :: byte
  btn_press :: bool

record encoder_event =
  enc_index :: byte
  enc_value :: u16

text \<open>The direction is an \<open>int8_t\<close>: its value is \<open>sint\<close> of the byte.\<close>

record wheel_event =
  whl_direction :: byte
  whl_value :: byte

datatype event_data =
  Button_data button_event | Encoder_data encoder_event | Wheel_data wheel_event

record input_event =
  ie_event_type :: event_type
  ie_input_type :: input_type
  ie_data :: event_data

definition wf_input :: "input_state \<Rightarrow> bool" where
  "wf_input s \<longleftrightarrow> length (in_matrix s) = 16 \<and> length (in_special s) = 9 \<and>
     length (in_stop s) = 4 \<and> length (in_knobs s) = 4 \<and> length (in_faders s) = 4"

section \<open>Output\<close>

record output_state =
  os_report_id :: byte
  os_matrix :: "button_color list"
  os_stop :: "byte list"
  os_special :: "byte list"
  os_left_char :: segment_char
  os_right_char :: segment_char
  os_left_dot :: byte
  os_right_dot :: byte
  os_left_brightness :: byte
  os_right_brightness :: byte

definition default_output :: output_state where
  "default_output = \<lparr>os_report_id = OUTPUT_REPORT_ID, os_matrix = replicate 16 BLACK,
     os_stop = replicate 4 DARK, os_special = replicate 9 DARK,
     os_left_char = SEG_NONE, os_right_char = SEG_NONE, os_left_dot = DARK, os_right_dot = DARK,
     os_left_brightness = DARK, os_right_brightness = DARK\<rparr>"

definition wf_output :: "output_state \<Rightarrow> bool" where
  "wf_output s \<longleftrightarrow> length (os_matrix s) = 16 \<and> length (os_stop s) = 4 \<and> length (os_special s) = 9"

text \<open>Every brightness below \<open>MAX_BRIGHTNESS\<close>, as the output report requires.\<close>

definition dim_color :: "button_color \<Rightarrow> bool" where
  "dim_color c \<longleftrightarrow> (case c of (b, r, g) \<Rightarrow>
     b < MAX_BRIGHTNESS \<and> r < MAX_BRIGHTNESS \<and> g < MAX_BRIGHTNESS)"

definition dim_output :: "output_state \<Rightarrow> bool" where
  "dim_output s \<longleftrightarrow> list_all dim_color (os_matrix s) \<and>
     list_all (\<lambda>b. b < MAX_BRIGHTNESS) (os_stop s) \<and>
     list_all (\<lambda>b. b < MAX_BRIGHTNESS) (tl (os_special s)) \<and>
     os_left_dot s < MAX_BRIGHTNESS \<and> os_right_dot s < MAX_BRIGHTNESS \<and>
     os_left_brightness s < MAX_BRIGHTNESS \<and> os_right_brightness s < MAX_BRIGHTNESS"

lemma wf_default_output [simp]: "wf_output default_output"
  by (simp add: wf_output_def default_output_def)

lemma dim_default_output [simp]: "dim_output default_output"
  by (simp add: dim_output_def default_output_def dim_color_def BLACK_def DARK_def
      MAX_BRIGHTNESS_def list_all_iff)

lemma rgb2color_color2rgb: "color2rgb (rgb2color r g b) = (r, g, b)"
  by (simp add: color2rgb_def rgb2color_def)

lemma dim_rgb2color:
  "dim_color (rgb2color r g b) \<longleftrightarrow>
     r < MAX_BRIGHTNESS \<and> g < MAX_BRIGHTNESS \<and> b < MAX_BRIGHTNESS"
  by (auto simp: dim_color_def rgb2color_def)

end
