(* ===== verification/Hid_Device.thy ===== *)
theory Hid_Device
  imports Prelude
begin

text \<open>
  \<open>FileDescriptor\<close> (\<open>driver/src/io/FileDescriptor.hpp\<close>) and \<open>HidDevice\<close>
  (\<open>driver/src/io/HidDevice.hpp\<close>, \<open>.cpp\<close>) over a world of system calls.  The kernel is a
  parameter: \<open>posix\<close> collects the calls the code makes, each a function from the world to the
  new world and the value the call returns; \<open>sys_errno\<close> reads \<open>errno\<close>.
\<close>

section \<open>System calls\<close>

record hidraw_devinfo =
  di_bustype :: "32 word"
  di_vendor :: u16
  di_product :: u16

record 'w posix =
  sys_open :: "'w \<Rightarrow> string \<Rightarrow> 'w \<times> int"
  sys_close :: "'w \<Rightarrow> int \<Rightarrow> 'w \<times> int"
  sys_ioctl_rawinfo :: "'w \<Rightarrow> int \<Rightarrow> 'w \<times> int \<times> hidraw_devinfo"
  sys_write :: "'w \<Rightarrow> int \<Rightarrow> byte list \<Rightarrow> 'w \<times> int"
  sys_read :: "'w \<Rightarrow> int \<Rightarrow> nat \<Rightarrow> 'w \<times> int \<times> byte list"
  sys_errno :: "'w \<Rightarrow> int"

definition EPERM :: int where "EPERM = 1"
definition EACCES :: int where "EACCES = 13"

section \<open>File descriptors\<close>

text \<open>
  A wrapper is its descriptor number (the close function is \<open>sys_close\<close>).  A move leaves
  \<open>-1\<close> behind.  Move assignment overwrites the number the target held.
\<close>

record file_descriptor =
  fd :: int

definition fd_new :: "int \<Rightarrow> file_descriptor" where
  "fd_new n = \<lparr>fd = n\<rparr>"

definition fd_move :: "file_descriptor \<Rightarrow> file_descriptor \<times> file_descriptor" where
  "fd_move other = (\<lparr>fd = fd other\<rparr>, other\<lparr>fd := -1\<rparr>)"

definition fd_move_assign ::
    "file_descriptor \<Rightarrow> file_descriptor \<Rightarrow> file_descriptor \<times> file_descriptor" where
  "fd_move_assign this other = (this\<lparr>fd := fd other\<rparr>, other\<lparr>fd := -1\<rparr>)"

definition fd_close :: "'w posix \<Rightarrow> 'w \<Rightarrow> file_descriptor \<Rightarrow> 'w \<times> file_descriptor \<times> unit res" where
  "fd_close os w f =
     (if 0 \<le> fd f then
        (case sys_close os w (fd f) of (w', r) \<Rightarrow>
           if r < 0 then (w', f, Inl (System_error (sys_errno os w')))
           else (w', f\<lparr>fd := -1\<rparr>, Inr ()))
      else (w, f, Inr ()))"

definition fd_bool :: "file_descriptor \<Rightarrow> bool" where
  "fd_bool f \<longleftrightarrow> 0 \<le> fd f"

definition fd_get :: "file_descriptor \<Rightarrow> int" where
  "fd_get f = fd f"

text \<open>The destructor calls \<open>close\<close>; the object is gone afterwards.\<close>

definition fd_destroy :: "'w posix \<Rightarrow> 'w \<Rightarrow> file_descriptor \<Rightarrow> 'w \<times> unit res" where
  "fd_destroy os w f = (case fd_close os w f of (w', _, r) \<Rightarrow> (w', r))"

section \<open>HID devices\<close>

definition throw_strerror :: "'a res" where
  "throw_strerror = Inl Hid_error"

text \<open>
  The constructor.  When it throws, the descriptor member is destroyed, which closes nothing
  because the number is negative.
\<close>

definition hid_open :: "'w posix \<Rightarrow> 'w \<Rightarrow> string \<Rightarrow> 'w \<times> file_descriptor res" where
  "hid_open os w path = (case sys_open os w path of (w', n) \<Rightarrow>
     let f = fd_new n in
     if \<not> fd_bool f then
       (w', if sys_errno os w' = EPERM \<or> sys_errno os w' = EACCES
            then Inl Hid_permission_denied else throw_strerror)
     else (w', Inr f))"

definition hid_devinfo :: "'w posix \<Rightarrow> 'w \<Rightarrow> file_descriptor \<Rightarrow> 'w \<times> hidraw_devinfo res" where
  "hid_devinfo os w f =
     (if \<not> fd_bool f then (w, Inl Assert_failed)
      else case sys_ioctl_rawinfo os w (fd_get f) of (w', r, info) \<Rightarrow>
        (w', if r < 0 then throw_strerror else Inr info))"

definition hid_write :: "'w posix \<Rightarrow> 'w \<Rightarrow> file_descriptor \<Rightarrow> byte list \<Rightarrow> 'w \<times> unit res" where
  "hid_write os w f bs = (case sys_write os w (fd_get f) bs of (w', written) \<Rightarrow>
     (w', if written < int (length bs) then throw_strerror else Inr ()))"

text \<open>
  \<open>HidDevice::read\<close> into a caller's buffer: the new contents of the buffer (the bytes the
  call delivered overwrite its front) and how the call ended.
\<close>

definition hid_read :: "'w posix \<Rightarrow> 'w \<Rightarrow> file_descriptor \<Rightarrow> byte list \<Rightarrow> 'w \<times> byte list \<times> unit res" where
  "hid_read os w f buffer =
     (case sys_read os w (fd_get f) (length buffer) of (w', n, bs) \<Rightarrow>
        (w', take (length buffer) bs @ drop (length bs) buffer,
         if n < int (length buffer) then throw_strerror else Inr ()))"

lemma length_hid_read_buffer [simp]:
  "length (take (length buffer) bs @ drop (length bs) buffer) = length buffer"
  by simp

lemma hid_read_length:
  "hid_read os w f buffer = (w', buffer', r) \<Longrightarrow> length buffer' = length buffer"
  by (auto simp: hid_read_def split: prod.splits)

lemma hid_read_fails: "hid_read os w f buffer = (w', report, Inl e) \<Longrightarrow> e = Hid_error"
  by (auto simp: hid_read_def throw_strerror_def split: prod.splits if_splits)

lemma hid_write_fails: "hid_write os w f bs = (w', Inl e) \<Longrightarrow> e = Hid_error"
  by (auto simp: hid_write_def throw_strerror_def split: prod.splits if_splits)

section \<open>A device in memory\<close>

text \<open>
  System calls on a device held in memory, at which the witnesses evaluate: one hidraw node
  (descriptor 3) with the reports still to be read, the reports written, and the
  descriptors closed.
\<close>

record mem_dev =
  md_rx :: "byte list list"
  md_tx :: "byte list list"
  md_closed :: "int list"
  md_info :: hidraw_devinfo

definition mem_os :: "mem_dev posix" where
  "mem_os = \<lparr>
     sys_open = (\<lambda>w path. (w, if path = ''/dev/hidraw0'' then 3 else -1)),
     sys_close = (\<lambda>w n. (w\<lparr>md_closed := md_closed w @ [n]\<rparr>, if n = 3 then 0 else -1)),
     sys_ioctl_rawinfo = (\<lambda>w n. (w, if n = 3 then 0 else -1, md_info w)),
     sys_write = (\<lambda>w n bs. (w\<lparr>md_tx := md_tx w @ [bs]\<rparr>, int (length bs))),
     sys_read = (\<lambda>w n len. case md_rx w of [] \<Rightarrow> (w, -1, [])
        | bs # rest \<Rightarrow> (w\<lparr>md_rx := rest\<rparr>, int (length (take len bs)), take len bs)),
     sys_errno = (\<lambda>w. 2)\<rparr>"

section \<open>Properties\<close>

text \<open>A descriptor has one owner: after a move only the target closes it, it is closed once, and
  closing again, also by the destructor, does nothing.\<close>

theorem fd_closed_once:
  assumes "0 \<le> fd f" "sys_close os w (fd f) = (w', r)" "0 \<le> r" "fd_move f = (g, moved)"
  shows "fd_destroy os w moved = (w, Inr ()) \<and>
    fd_close os w g = (w', g\<lparr>fd := -1\<rparr>, Inr ()) \<and>
    fd_close os v (g\<lparr>fd := -1\<rparr>) = (v, g\<lparr>fd := -1\<rparr>, Inr ()) \<and>
    fd_destroy os v (g\<lparr>fd := -1\<rparr>) = (v, Inr ()) \<and> \<not> fd_bool (g\<lparr>fd := -1\<rparr>)"
  using assms by (auto simp: fd_move_def fd_destroy_def fd_close_def fd_bool_def)

lemma fd_closed_once_witness:
  "md_closed (fst (fd_close mem_os
     \<lparr>md_rx = [], md_tx = [], md_closed = [], md_info = \<lparr>di_bustype = 3, di_vendor = 0, di_product = 0\<rparr>\<rparr>
     (fst (fd_move (fd_new 3))))) = [3]"
  using fd_closed_once [of "fd_new 3" mem_os
      "\<lparr>md_rx = [], md_tx = [], md_closed = [], md_info = \<lparr>di_bustype = 3, di_vendor = 0, di_product = 0\<rparr>\<rparr>"]
  by (simp add: fd_new_def fd_move_def mem_os_def)

text \<open>Assigning over an open descriptor loses it: the old number is not closed by the assignment and
  no object holds it afterwards.\<close>

theorem fd_move_assign_leaks:
  assumes "0 \<le> fd this" "fd this \<noteq> fd other" "fd_move_assign this other = (this', other')"
  shows "fd this' = fd other \<and> fd other' = -1 \<and> fd this' \<noteq> fd this \<and> fd other' \<noteq> fd this"
  using assms by (auto simp: fd_move_assign_def)

lemma fd_move_assign_leaks_witness:
  "fd (fst (fd_move_assign (fd_new 3) (fd_new 4))) \<noteq> 3"
  using fd_move_assign_leaks [of "fd_new 3" "fd_new 4"] by (simp add: fd_new_def fd_move_assign_def)

text \<open>Opening, writing and reading report every failure of the kernel: a missing permission and
  other errors of \<open>open\<close> by their own exceptions, a short write or read, an error included, by
  \<open>HidDeviceError\<close>; a full transfer succeeds, and a read fills the whole buffer.\<close>

theorem hid_errors_reported:
  "snd (hid_open os w path) = (case sys_open os w path of (w', n) \<Rightarrow>
     if 0 \<le> n then Inr (fd_new n)
     else if sys_errno os w' \<in> {1, 13} then Inl Hid_permission_denied else Inl Hid_error) \<and>
   snd (hid_write os w f bs) = (if snd (sys_write os w (fd f) bs) \<ge> int (length bs) then Inr () else Inl Hid_error) \<and>
   (case sys_read os w (fd f) (length buffer) of (w', n, got) \<Rightarrow>
     n = int (length got) \<longrightarrow> length got \<le> length buffer \<longrightarrow>
     hid_read os w f buffer = (w', got @ drop (length got) buffer,
       if length got = length buffer then Inr () else Inl Hid_error))"
  by (auto simp: hid_open_def hid_write_def hid_read_def fd_new_def fd_bool_def fd_get_def EPERM_def
      EACCES_def throw_strerror_def Let_def split: prod.splits)

lemma hid_errors_reported_witness:
  "hid_read mem_os \<lparr>md_rx = [[7]], md_tx = [], md_closed = [], md_info = \<lparr>di_bustype = 3, di_vendor = 0, di_product = 0\<rparr>\<rparr>
     (fd_new 3) [0, 0] = (\<lparr>md_rx = [], md_tx = [], md_closed = [], md_info = \<lparr>di_bustype = 3, di_vendor = 0, di_product = 0\<rparr>\<rparr>, [7, 0], Inl Hid_error)"
  using hid_errors_reported [where os = mem_os and f = "fd_new 3" and buffer = "[0, 0]" and
     w = "\<lparr>md_rx = [[7]], md_tx = [], md_closed = [], md_info = \<lparr>di_bustype = 3, di_vendor = 0, di_product = 0\<rparr>\<rparr>",
     THEN conjunct2, THEN conjunct2]
  by (simp add: mem_os_def fd_new_def)

end
