(* ===== verification/F1_Device.thy ===== *)
theory F1_Device
  imports F1_Data Hid_Device
begin

text \<open>
  \<open>F1Device\<close> (\<open>driver/src/tkf1/F1Device.hpp\<close>, \<open>.cpp\<close>): the private implementation object, the
  decoder of input reports, the encoder of output reports, the generator of input events, and
  the public operations over the system calls of \<open>Hid_Device\<close>.
\<close>

section \<open>State\<close>

record f1_impl =
  f1_dev :: file_descriptor
  f1_in :: input_state
  f1_old :: input_state
  f1_out :: output_state
  f1_in_report :: "byte list"
  f1_out_report :: "byte list"
  f1_events :: "input_event list"

definition wf_f1 :: "f1_impl \<Rightarrow> bool" where
  "wf_f1 p \<longleftrightarrow> wf_input (f1_in p) \<and> wf_input (f1_old p) \<and> wf_output (f1_out p) \<and>
     length (f1_in_report p) = 22 \<and> length (f1_out_report p) = 81"

definition is_f1_device :: "hidraw_devinfo \<Rightarrow> bool" where
  "is_f1_device dev \<longleftrightarrow> di_product dev = HID_PRODUCT_ID \<and> di_vendor dev = HID_VENDOR_ID"

section \<open>Decoding an input report\<close>

text \<open>\<open>((1U << n) & in_report.at(pos)) != 0U\<close>\<close>

definition report_bit :: "byte list \<Rightarrow> nat \<Rightarrow> nat \<Rightarrow> bool res" where
  "report_bit report pos n =
     bind_res (at_res report pos) (\<lambda>b. Inr ((push_bit n (1 :: 32 word) AND ucast b) \<noteq> 0))"

definition report_knob :: "byte list \<Rightarrow> nat \<Rightarrow> u16 res" where
  "report_knob report i =
     bind_res (at_res report (6 + i * 2)) (\<lambda>lo.
     bind_res (at_res report (7 + i * 2)) (\<lambda>hi.
       Inr (ucast lo OR ucast (push_bit 8 (ucast hi :: 32 word)))))"

definition report_fader :: "byte list \<Rightarrow> nat \<Rightarrow> u16 res" where
  "report_fader report i =
     bind_res (at_res report (14 + i * 2)) (\<lambda>lo.
     bind_res (at_res report (15 + i * 2)) (\<lambda>hi.
       Inr (ucast ((ucast lo :: 32 word) OR push_bit 8 (ucast (hi AND 0xff))))))"

text \<open>The body of \<open>update_in_state\<close> after the report id has been accepted.\<close>

definition decode_report :: "byte list \<Rightarrow> input_state \<Rightarrow> input_state res" where
  "decode_report report s =
     bind_res (at_res report 0) (\<lambda>rid.
     bind_res (fold_res (\<lambda>i. fold_res (\<lambda>j xs. bind_res (report_bit report (i + 1) (7 - j))
         (set_sub_res xs (j + 8 * i))) [0..<8]) [0..<2] (in_matrix s)) (\<lambda>matrix.
     bind_res (fold_res (\<lambda>i xs. bind_res (report_bit report 3 i) (set_sub_res xs (i - 2)))
         [2..<8] (in_special s)) (\<lambda>special1.
     bind_res (fold_res (\<lambda>i xs. bind_res (report_bit report 4 i) (set_sub_res xs (i + 5)))
         [1..<4] special1) (\<lambda>special2.
     bind_res (fold_res (\<lambda>i xs. bind_res (report_bit report 4 (4 + (3 - i))) (set_sub_res xs i))
         [0..<4] (in_stop s)) (\<lambda>stop.
     bind_res (at_res report 5) (\<lambda>wheel.
     bind_res (fold_res (\<lambda>i xs. bind_res (report_knob report i) (set_at_res xs i))
         [0..<4] (in_knobs s)) (\<lambda>knobs.
     bind_res (fold_res (\<lambda>i xs. bind_res (report_fader report i) (set_at_res xs i))
         [0..<4] (in_faders s)) (\<lambda>faders.
       Inr (s\<lparr>in_report_id := rid, in_matrix := matrix, in_special := special2,
              in_stop := stop, in_wheel := wheel, in_knobs := knobs, in_faders := faders\<rparr>)))))))))"

definition update_in_state :: "f1_impl \<Rightarrow> f1_impl res" where
  "update_in_state p =
     (let p = p\<lparr>f1_old := f1_in p\<rparr> in
      bind_res (at_res (f1_in_report p) 0) (\<lambda>rid.
        if rid \<noteq> INPUT_REPORT_ID then Inr p
        else bind_res (decode_report (f1_in_report p) (f1_in p)) (\<lambda>s. Inr (p\<lparr>f1_in := s\<rparr>))))"

section \<open>Encoding an output report\<close>

definition OFF_MATRIX :: nat where "OFF_MATRIX = 0x19"
definition OFF_SPECIAL :: nat where "OFF_SPECIAL = 0x10"
definition OFF_STOP1 :: nat where "OFF_STOP1 = 0x49"
definition OFF_STOP2 :: nat where "OFF_STOP2 = 0x4a"
definition OFF_SEGMENT_RIGHT :: nat where "OFF_SEGMENT_RIGHT = 0x01"
definition OFF_SEGMENT_LEFT :: nat where "OFF_SEGMENT_LEFT = 0x09"

lemmas out_offsets = OFF_MATRIX_def OFF_SPECIAL_def OFF_STOP1_def OFF_STOP2_def
  OFF_SEGMENT_RIGHT_def OFF_SEGMENT_LEFT_def

text \<open>\<open>static_cast<std::uint8_t>((segment & (1U << i)) >> i) * brightness\<close>\<close>

definition segment_level :: "segment_char \<Rightarrow> nat \<Rightarrow> byte \<Rightarrow> byte" where
  "segment_level seg i brightness =
     ucast (drop_bit i ((ucast seg :: 32 word) AND push_bit i 1)) * brightness"

definition encode_matrix :: "output_state \<Rightarrow> nat \<Rightarrow> byte list \<Rightarrow> byte list res" where
  "encode_matrix st i rep =
     bind_res (at_res (os_matrix st) i) (\<lambda>(b, r, g).
     bind_res (assert_res (r < MAX_BRIGHTNESS)) (\<lambda>_.
     bind_res (assert_res (g < MAX_BRIGHTNESS)) (\<lambda>_.
     bind_res (assert_res (b < MAX_BRIGHTNESS)) (\<lambda>_.
     bind_res (set_at_res rep (i * 3 + OFF_MATRIX) b) (\<lambda>rep.
     bind_res (set_at_res rep (i * 3 + 1 + OFF_MATRIX) r) (\<lambda>rep.
       set_at_res rep (i * 3 + 2 + OFF_MATRIX) g))))))"

definition encode_stop :: "output_state \<Rightarrow> nat \<Rightarrow> byte list \<Rightarrow> byte list res" where
  "encode_stop st i rep =
     bind_res (at_res (os_stop st) (3 - i)) (\<lambda>brightness.
     bind_res (assert_res (brightness < MAX_BRIGHTNESS)) (\<lambda>_.
     bind_res (set_at_res rep (i * 2 + OFF_STOP1) brightness) (\<lambda>rep.
       set_at_res rep (i * 2 + OFF_STOP2) brightness)))"

definition encode_special :: "output_state \<Rightarrow> nat \<Rightarrow> byte list \<Rightarrow> byte list res" where
  "encode_special st i rep =
     bind_res (at_res (os_special st) i) (\<lambda>brightness.
     bind_res (assert_res (brightness < MAX_BRIGHTNESS)) (\<lambda>_.
       set_at_res rep (i + OFF_SPECIAL) brightness))"

definition encode_segment :: "output_state \<Rightarrow> nat \<Rightarrow> byte list \<Rightarrow> byte list res" where
  "encode_segment st i rep =
     (let left = segment_level (os_left_char st) i (os_left_brightness st);
          right = segment_level (os_right_char st) i (os_right_brightness st)
      in bind_res (set_at_res rep (OFF_SEGMENT_LEFT + i) left) (\<lambda>rep.
           set_at_res rep (OFF_SEGMENT_RIGHT + i) right))"

definition encode_report :: "output_state \<Rightarrow> byte list \<Rightarrow> byte list res" where
  "encode_report st rep =
     bind_res (set_at_res rep 0 (os_report_id st)) (\<lambda>rep.
     bind_res (fold_res (encode_matrix st) [0..<MATRIX_BUTTONS_NUM] rep) (\<lambda>rep.
     bind_res (fold_res (encode_stop st) [0..<STOP_BUTTONS_NUM] rep) (\<lambda>rep.
     bind_res (fold_res (encode_special st) [1..<SPECIAL_BUTTONS_NUM] rep) (\<lambda>rep.
     bind_res (assert_res (os_left_brightness st < MAX_BRIGHTNESS)) (\<lambda>_.
     bind_res (assert_res (os_right_brightness st < MAX_BRIGHTNESS)) (\<lambda>_.
     bind_res (fold_res (encode_segment st) [1..<SEGMENTS_PER_DISPLAY] rep) (\<lambda>rep.
     bind_res (assert_res (os_left_dot st < MAX_BRIGHTNESS)) (\<lambda>_.
     bind_res (assert_res (os_right_dot st < MAX_BRIGHTNESS)) (\<lambda>_.
     bind_res (set_at_res rep OFF_SEGMENT_LEFT (os_left_dot st)) (\<lambda>rep.
       set_at_res rep OFF_SEGMENT_RIGHT (os_right_dot st)))))))))))"

definition update_out_report :: "f1_impl \<Rightarrow> f1_impl res" where
  "update_out_report p =
     bind_res (encode_report (f1_out p) (f1_out_report p)) (\<lambda>rep. Inr (p\<lparr>f1_out_report := rep\<rparr>))"

section \<open>Generating input events\<close>

text \<open>
  One counted loop per control group.  The arrays have the loop's length, so no subscript is
  out of range.
\<close>

definition button_changes :: "input_type \<Rightarrow> nat \<Rightarrow> bool list \<Rightarrow> bool list \<Rightarrow> input_event list" where
  "button_changes ty n new old = concat (map (\<lambda>i. if new ! i \<noteq> old ! i
     then [\<lparr>ie_event_type = BUTTON, ie_input_type = ty,
            ie_data = Button_data \<lparr>btn_index = word_of_nat i, btn_press = new ! i\<rparr>\<rparr>]
     else []) [0..<n])"

definition encoder_changes :: "input_type \<Rightarrow> nat \<Rightarrow> u16 list \<Rightarrow> u16 list \<Rightarrow> input_event list" where
  "encoder_changes ty n new old = concat (map (\<lambda>i. if new ! i \<noteq> old ! i
     then [\<lparr>ie_event_type = ENCODER, ie_input_type = ty,
            ie_data = Encoder_data \<lparr>enc_index = word_of_nat i, enc_value = new ! i\<rparr>\<rparr>]
     else []) [0..<n])"

definition wheel_changes :: "byte \<Rightarrow> byte \<Rightarrow> input_event list" where
  "wheel_changes new old = (if new \<noteq> old then
     (let diff = ucast (ucast new - ucast old :: 32 word) :: 16 word
      in [\<lparr>ie_event_type = ENCODER, ie_input_type = WHEEL,
           ie_data = Wheel_data \<lparr>whl_direction = ucast diff, whl_value = new\<rparr>\<rparr>])
     else [])"

definition input_changes :: "input_state \<Rightarrow> input_state \<Rightarrow> input_event list" where
  "input_changes new old =
     button_changes MATRIX MATRIX_BUTTONS_NUM (in_matrix new) (in_matrix old) @
     button_changes SPECIAL SPECIAL_BUTTONS_NUM (in_special new) (in_special old) @
     button_changes STOP STOP_BUTTONS_NUM (in_stop new) (in_stop old) @
     encoder_changes FADER FADERS_NUM (in_faders new) (in_faders old) @
     encoder_changes KNOB KNOBS_NUM (in_knobs new) (in_knobs old) @
     wheel_changes (in_wheel new) (in_wheel old)"

definition generate_input_events :: "f1_impl \<Rightarrow> f1_impl" where
  "generate_input_events p = p\<lparr>f1_events := input_changes (f1_in p) (f1_old p)\<rparr>"

section \<open>Public operations\<close>

text \<open>
  The two input states of a new object are default-initialised: their scalars are
  indeterminate, so they are the argument \<open>indet\<close>.
\<close>

definition f1_new :: "input_state \<Rightarrow> input_state \<Rightarrow> file_descriptor \<Rightarrow> f1_impl res" where
  "f1_new indet indet_old dev =
     update_out_report \<lparr>f1_dev = dev, f1_in = indet, f1_old = indet_old, f1_out = default_output,
       f1_in_report = replicate INPUT_REPORT_SIZE 0, f1_out_report = replicate OUTPUT_REPORT_SIZE 0,
       f1_events = []\<rparr>"

definition f1_read :: "'w posix \<Rightarrow> 'w \<Rightarrow> f1_impl \<Rightarrow> 'w \<times> f1_impl \<times> input_state res" where
  "f1_read os w p =
     (case hid_read os w (f1_dev p) (f1_in_report p) of (w', report, r) \<Rightarrow>
        let p1 = p\<lparr>f1_in_report := report\<rparr> in
        case bind_res r (\<lambda>_. update_in_state p1) of
          Inl e \<Rightarrow> (w', p1, Inl e)
        | Inr p2 \<Rightarrow> (w', p2, Inr (f1_in p2)))"

definition f1_write :: "'w posix \<Rightarrow> 'w \<Rightarrow> f1_impl \<Rightarrow> 'w \<times> f1_impl \<times> unit res" where
  "f1_write os w p =
     (case update_out_report p of
        Inl e \<Rightarrow> (w, p, Inl e)
      | Inr p1 \<Rightarrow> (case hid_write os w (f1_dev p1) (f1_out_report p1) of (w', r) \<Rightarrow> (w', p1, r)))"

text \<open>The handler is any operation on the device and the rest of the program's state.\<close>

definition f1_read_events ::
    "'w posix \<Rightarrow> (input_event \<Rightarrow> 'w \<times> f1_impl \<times> 's \<Rightarrow> ('w \<times> f1_impl \<times> 's) res) \<Rightarrow>
     'w \<Rightarrow> f1_impl \<Rightarrow> 's \<Rightarrow> ('w \<times> f1_impl \<times> 's) res" where
  "f1_read_events os hdl w p s =
     (case f1_read os w p of
        (w', p1, Inl e) \<Rightarrow> Inl e
      | (w', p1, Inr _) \<Rightarrow>
          let p2 = generate_input_events p1 in fold_res hdl (f1_events p2) (w', p2, s))"

section \<open>Bits of a report\<close>

lemma bit_mask_test:
  fixes b :: byte
  assumes "n < 32"
  shows "(push_bit n (1 :: 32 word) AND ucast b) \<noteq> 0 \<longleftrightarrow> bit b n"
proof -
  have "bit (ucast b :: 32 word) n \<longleftrightarrow> ucast b AND push_bit n 1 \<noteq> (0 :: 32 word)"
    by (rule bit_iff_and_push_bit_not_eq_0)
  moreover have "bit (ucast b :: 32 word) n \<longleftrightarrow> bit b n"
    using assms by (auto simp: bit_ucast_iff)
  ultimately show ?thesis by (simp only: and.commute)
qed

lemma report_bit_ok:
  "pos < length r \<Longrightarrow> n < 32 \<Longrightarrow> report_bit r pos n = Inr (bit (r ! pos) n)"
  unfolding report_bit_def by (simp only: bit_mask_test at_res_ok bind_res_simps)

definition le16 :: "byte \<Rightarrow> byte \<Rightarrow> u16" where
  "le16 lo hi = word_of_nat (unat lo + 256 * unat hi)"

lemma le16_or: "ucast lo OR push_bit 8 (ucast (hi :: byte)) = le16 lo hi"
proof -
  have "(ucast (lo :: byte) :: u16) AND push_bit 8 (ucast hi) = 0"
    by (rule bit_word_eqI) (auto simp: bit_simps dest: bit_imp_le_length)
  then have "ucast lo OR push_bit 8 (ucast hi) = (ucast lo + push_bit 8 (ucast hi) :: u16)"
    by (rule disjunctive_add_eq_or [symmetric])
  also have "\<dots> = le16 lo hi"
    by (simp add: le16_def push_bit_eq_mult mult.commute)
  finally show ?thesis .
qed

lemma le16_knob: "ucast lo OR ucast (push_bit 8 (ucast (hi :: byte) :: 32 word)) = le16 lo hi"
proof -
  have "ucast (push_bit 8 (ucast hi :: 32 word)) = (push_bit 8 (ucast hi) :: u16)"
    by (rule bit_word_eqI) (auto simp: bit_simps)
  then show ?thesis by (simp add: le16_or)
qed

lemma le16_fader: "(ucast ((ucast (lo :: byte) :: 32 word) OR push_bit 8 (ucast (hi AND 0xff :: byte))) :: u16) = le16 lo hi"
proof -
  have m: "hi AND 0xff = (hi :: byte)" by (rule all_byte [where b=hi]) code_simp
  have "(ucast ((ucast lo :: 32 word) OR push_bit 8 (ucast hi)) :: u16) = ucast lo OR push_bit 8 (ucast hi)"
    by (rule bit_word_eqI) (auto simp: bit_simps)
  then show ?thesis by (simp add: m le16_or)
qed

lemma segment_level_eq:
  assumes "i < 8"
  shows "segment_level seg i br = (if bit seg i then br else 0)"
proof -
  have "drop_bit i ((ucast seg :: 32 word) AND push_bit i 1) = (if bit seg i then 1 else 0)"
    by (rule bit_word_eqI) (use assms in \<open>auto simp: bit_simps intro!: gr0I\<close>)
  then show ?thesis by (simp add: segment_level_def)
qed
lemma unat_le16: "unat (le16 lo hi) = unat lo + 256 * unat hi"
  using unat_byte_less [of lo] unat_byte_less [of hi]
  unfolding le16_def unsigned_of_nat take_bit_eq_mod by (simp del: unat_byte_less)

section \<open>The decoder is the documented table\<close>

definition decoded :: "byte list \<Rightarrow> input_state" where
  "decoded r = \<lparr>in_report_id = r ! 0,
     in_matrix = map (\<lambda>k. bit (r ! (1 + k div 8)) (7 - k mod 8)) [0..<16],
     in_special = map (bit (r ! 3)) [2, 3, 4, 5, 6, 7] @ map (bit (r ! 4)) [1, 2, 3],
     in_stop = map (bit (r ! 4)) [7, 6, 5, 4],
     in_wheel = r ! 5,
     in_knobs = map (\<lambda>i. le16 (r ! (6 + 2 * i)) (r ! (7 + 2 * i))) [0..<4],
     in_faders = map (\<lambda>i. le16 (r ! (14 + 2 * i)) (r ! (15 + 2 * i))) [0..<4]\<rparr>"

lemma report_knob_ok: "7 + i * 2 < length r \<Longrightarrow> report_knob r i = Inr (le16 (r ! (6 + 2 * i)) (r ! (7 + 2 * i)))"
  unfolding report_knob_def by (simp add: le16_knob mult.commute)
lemma report_fader_ok: "15 + i * 2 < length r \<Longrightarrow> report_fader r i = Inr (le16 (r ! (14 + 2 * i)) (r ! (15 + 2 * i)))"
  unfolding report_fader_def by (simp only: at_res_ok bind_res_simps le16_fader mult.commute[of i])

lemma decode_matrix:
  assumes "length r = 22" "length m = 16"
  shows "fold_res (\<lambda>i. fold_res (\<lambda>j xs. bind_res (report_bit r (i + 1) (7 - j))
         (set_sub_res xs (j + 8 * i))) [0..<8]) [0..<2] m =
     Inr (map (\<lambda>k. bit (r ! (1 + k div 8)) (7 - k mod 8)) [0..<16])"
proof -
  let ?h = "\<lambda>(i, j). j + 8 * i :: nat" and ?g = "\<lambda>(i, j). bit (r ! (i + 1)) (7 - j)"
  let ?is = "List.product [0..<2] [0..<8] :: (nat \<times> nat) list"
  have "fold_res (\<lambda>i. fold_res (\<lambda>j xs. bind_res (report_bit r (i + 1) (7 - j))
         (set_sub_res xs (j + 8 * i))) [0..<8]) [0..<2] m =
    fold_res (\<lambda>p xs. bind_res (case p of (i, j) \<Rightarrow> report_bit r (i + 1) (7 - j)) (set_sub_res xs (?h p))) ?is m"
    using fold_res_product [of "\<lambda>p xs. bind_res (case p of (i, j) \<Rightarrow> report_bit r (i + 1) (7 - j)) (set_sub_res xs (?h p))"]
    by simp
  also have "\<dots> = Inr (fold (\<lambda>p xs. xs[?h p := ?g p]) ?is m)"
    by (rule fold_res_set_sub) (use assms in \<open>auto simp: report_bit_ok\<close>)
  also have "fold (\<lambda>p xs. xs[?h p := ?g p]) ?is m = map (\<lambda>k. bit (r ! (1 + k div 8)) (7 - k mod 8)) [0..<16]"
  proof (rule map_nth_eqI)
    fix k :: nat assume k: "k < 16"
    have inj: "inj_on ?h (set ?is)" by (auto simp: inj_on_def) presburger+
    have "(k div 8, k mod 8) \<in> set ?is" using k by auto
    from nth_fold_update_hit [of "(k div 8, k mod 8)" ?is ?h m ?g, OF this inj]
    show "fold (\<lambda>p xs. xs[?h p := ?g p]) ?is m ! k = bit (r ! (1 + k div 8)) (7 - k mod 8)"
      using k assms by simp
  qed (simp add: assms)
  finally show ?thesis .
qed

lemma list4_cases:
  assumes "length xs = 4" obtains a b c d where "xs = [a, b, c, d]"
  using assms by (auto simp: numeral_eq_Suc length_Suc_conv)

lemma list9_cases:
  assumes "length xs = 9" obtains a b c d e f g h i where "xs = [a, b, c, d, e, f, g, h, i]"
  using assms by (auto simp: numeral_eq_Suc length_Suc_conv)

lemma upt_1_4: "[1..<4] = [1, 2, 3 :: nat]"
  by (simp add: upt_rec)

lemma upt_0_4: "[0..<4] = [0, 1, 2, 3 :: nat]"
  by (simp add: upt_rec)

lemma decode_special1:
  assumes "length r = 22" "length m = 9"
  shows "fold_res (\<lambda>i xs. bind_res (report_bit r 3 i) (set_sub_res xs (i - 2))) [2..<8] m =
    Inr (map (bit (r ! 3)) [2, 3, 4, 5, 6, 7] @ drop 6 m)"
  using assms
  by (elim list9_cases) (simp add: fold_res_set_sub [where g = "bit (r ! 3)"] report_bit_ok upt_rec_numeral)

lemma decode_special2:
  assumes "length r = 22" "length m = 9"
  shows "fold_res (\<lambda>i xs. bind_res (report_bit r 4 i) (set_sub_res xs (i + 5))) [1..<4] m =
    Inr (take 6 m @ map (bit (r ! 4)) [1, 2, 3])"
  using assms unfolding upt_1_4
  by (elim list9_cases) (simp add: report_bit_ok)

lemma decode_stop:
  assumes "length r = 22" "length m = 4"
  shows "fold_res (\<lambda>i xs. bind_res (report_bit r 4 (4 + (3 - i))) (set_sub_res xs i)) [0..<4] m =
    Inr (map (bit (r ! 4)) [7, 6, 5, 4])"
  using assms unfolding upt_0_4
  by (elim list4_cases) (simp add: report_bit_ok)

lemma decode_encoders:
  assumes "\<And>i. i < 4 \<Longrightarrow> f i = Inr (g i)" "length m = 4"
  shows "fold_res (\<lambda>i xs. bind_res (f i) (set_at_res xs i)) [0..<4] m = Inr (map g [0..<4])"
proof -
  have "fold_res (\<lambda>i xs. bind_res (f i) (set_at_res xs i)) [0..<4] m =
      Inr (fold (\<lambda>i xs. xs[i := g i]) [0..<4] m)"
    by (rule fold_res_set_at) (use assms in auto)
  also have "fold (\<lambda>i xs. xs[i := g i]) [0..<4] m = map g [0..<4]"
    using nth_fold_update_hit [of _ "[0..<4]" "\<lambda>i. i" m g] assms(2)
    by (intro map_nth_eqI) auto
  finally show ?thesis .
qed

lemma decode_report_eq:
  assumes "length r = 22" "wf_input s"
  shows "decode_report r s = Inr (decoded r)"
proof -
  have knobs: "fold_res (\<lambda>i xs. bind_res (report_knob r i) (set_at_res xs i)) [0..<4] (in_knobs s) =
      Inr (in_knobs (decoded r))"
    unfolding decoded_def input_state.simps
    by (rule decode_encoders) (use assms in \<open>auto simp: report_knob_ok wf_input_def\<close>)
  have faders: "fold_res (\<lambda>i xs. bind_res (report_fader r i) (set_at_res xs i)) [0..<4] (in_faders s) =
      Inr (in_faders (decoded r))"
    unfolding decoded_def input_state.simps
    by (rule decode_encoders) (use assms in \<open>auto simp: report_fader_ok wf_input_def\<close>)
  show ?thesis
    using assms unfolding decode_report_def
    by (simp only: at_res_ok decode_matrix decode_special1 decode_special2 decode_stop knobs faders
        wf_input_def bind_res_simps) (simp add: decoded_def decode_special2 [simplified])
qed
lemma wf_decoded [simp]: "wf_input (decoded r)"
  by (simp add: wf_input_def decoded_def)

lemma update_in_state_eq:
  assumes "wf_f1 p"
  shows "update_in_state p = Inr (if f1_in_report p ! 0 = INPUT_REPORT_ID
    then p\<lparr>f1_old := f1_in p, f1_in := decoded (f1_in_report p)\<rparr> else p\<lparr>f1_old := f1_in p\<rparr>)"
  using assms by (simp add: update_in_state_def wf_f1_def decode_report_eq)

section \<open>The encoder writes the documented layout\<close>

definition report_layout :: "output_state \<Rightarrow> byte list" where
  "report_layout st =
     [os_report_id st, os_right_dot st] @
     map (\<lambda>i. if bit (os_right_char st) i then os_right_brightness st else 0) [1..<8] @
     [os_left_dot st] @
     map (\<lambda>i. if bit (os_left_char st) i then os_left_brightness st else 0) [1..<8] @
     tl (os_special st) @
     concat (map (\<lambda>(b, r, g). [b, r, g]) (os_matrix st)) @
     concat (map (\<lambda>b. [b, b]) (rev (os_stop st)))"

lemma length_concat_const:
  "(\<And>x. x \<in> set xs \<Longrightarrow> length (f x) = n) \<Longrightarrow> length (concat (map f xs)) = n * length xs"
  by (induction xs) auto

lemma nth_concat_const:
  assumes "\<And>x. x \<in> set xs \<Longrightarrow> length (f x) = n" and "i < length xs" and "j < n"
  shows "concat (map f xs) ! (i * n + j) = f (xs ! i) ! j"
  using assms
proof (induction xs arbitrary: i)
  case (Cons x xs)
  then show ?case by (cases i) (auto simp: nth_append)
qed simp

lemma length_report_layout [simp]:
  "wf_output st \<Longrightarrow> length (report_layout st) = 81"
  by (simp add: report_layout_def wf_output_def length_concat_const [where n = 3]
      length_concat_const [where n = 2] split: prod.splits)

definition seg_writes :: "output_state \<Rightarrow> nat \<Rightarrow> (nat \<times> byte) list" where
  "seg_writes st i = [(9 + i, segment_level (os_left_char st) i (os_left_brightness st)),
     (1 + i, segment_level (os_right_char st) i (os_right_brightness st))]"
definition matrix_writes :: "output_state \<Rightarrow> nat \<Rightarrow> (nat \<times> byte) list" where
  "matrix_writes st i = (case os_matrix st ! i of (b, r, g) \<Rightarrow>
     [(i * 3 + 25, b), (i * 3 + 26, r), (i * 3 + 27, g)])"
definition stop_writes :: "output_state \<Rightarrow> nat \<Rightarrow> (nat \<times> byte) list" where
  "stop_writes st i = [(i * 2 + 73, os_stop st ! (3 - i)), (i * 2 + 74, os_stop st ! (3 - i))]"
definition report_writes :: "output_state \<Rightarrow> (nat \<times> byte) list" where
  "report_writes st = [(0, os_report_id st)] @ concat (map (matrix_writes st) [0..<16]) @
     concat (map (stop_writes st) [0..<4]) @ map (\<lambda>i. (i + 16, os_special st ! i)) [1..<9] @
     concat (map (seg_writes st) [1..<8]) @ [(9, os_left_dot st), (1, os_right_dot st)]"

lemma fold_res_upds:
  assumes "\<And>i rep. i \<in> set is \<Longrightarrow> length rep = 81 \<Longrightarrow>
      f i rep = (if ok i then Inr (upds (w i) rep) else Inl Assert_failed)" and "length rep = 81"
  shows "fold_res f is rep =
    (if \<forall>i \<in> set is. ok i then Inr (upds (concat (map w is)) rep) else Inl Assert_failed)"
  using assms by (induction "is" arbitrary: rep) (simp_all del: upds_simps(2))

lemma encode_matrix_eq:
  assumes "i < 16" "wf_output st" "length rep = 81"
  shows "encode_matrix st i rep =
    (if dim_color (os_matrix st ! i) then Inr (upds (matrix_writes st i) rep) else Inl Assert_failed)"
proof -
  obtain b r g where c: "os_matrix st ! i = (b, r, g)" by (cases "os_matrix st ! i") auto
  then show ?thesis
    using assms by (cases "r < MAX_BRIGHTNESS"; cases "g < MAX_BRIGHTNESS"; cases "b < MAX_BRIGHTNESS")
      (simp_all add: encode_matrix_def matrix_writes_def wf_output_def dim_color_def out_offsets add.commute)
qed

lemma encode_stop_eq:
  assumes "i < 4" "wf_output st" "length rep = 81"
  shows "encode_stop st i rep =
    (if os_stop st ! (3 - i) < MAX_BRIGHTNESS then Inr (upds (stop_writes st i) rep) else Inl Assert_failed)"
  using assms by (auto simp: encode_stop_def stop_writes_def wf_output_def out_offsets assert_res_def)

lemma encode_special_eq:
  assumes "1 \<le> i" "i < 9" "wf_output st" "length rep = 81"
  shows "encode_special st i rep =
    (if os_special st ! i < MAX_BRIGHTNESS then Inr (upds [(i + 16, os_special st ! i)] rep)
     else Inl Assert_failed)"
  using assms by (simp add: encode_special_def wf_output_def out_offsets assert_res_def)

lemma encode_segment_eq:
  assumes "i < 8" "length rep = 81"
  shows "encode_segment st i rep = (if True then Inr (upds (seg_writes st i) rep) else Inl Assert_failed)"
  using assms by (simp add: encode_segment_def seg_writes_def out_offsets)

lemma encode_loops:
  assumes "wf_output st" "length rep = 81"
  shows "fold_res (encode_matrix st) [0..<16] rep =
      (if list_all dim_color (os_matrix st)
       then Inr (upds (concat (map (matrix_writes st) [0..<16])) rep) else Inl Assert_failed)"
    and "fold_res (encode_stop st) [0..<4] rep =
      (if list_all (\<lambda>b. b < MAX_BRIGHTNESS) (os_stop st)
       then Inr (upds (concat (map (stop_writes st) [0..<4])) rep) else Inl Assert_failed)"
    and "fold_res (encode_special st) [1..<9] rep =
      (if list_all (\<lambda>b. b < MAX_BRIGHTNESS) (tl (os_special st))
       then Inr (upds (concat (map (\<lambda>i. [(i + 16, os_special st ! i)]) [1..<9])) rep)
       else Inl Assert_failed)"
    and "fold_res (encode_segment st) [1..<8] rep = Inr (upds (concat (map (seg_writes st) [1..<8])) rep)"
proof -
  note up = fold_res_upds [OF _ assms(2)]
  have m: "list_all dim_color (os_matrix st) \<longleftrightarrow> (\<forall>i \<in> set [0..<16]. dim_color (os_matrix st ! i))"
    using assms by (auto simp: list_all_length wf_output_def)
  have s: "list_all (\<lambda>b. b < MAX_BRIGHTNESS) (os_stop st) \<longleftrightarrow>
      (\<forall>i \<in> set [0..<4]. os_stop st ! (3 - i) < MAX_BRIGHTNESS)"
    using assms unfolding upt_0_4
    by (elim list4_cases [OF wf_output_def [THEN iffD1, THEN conjunct2, THEN conjunct1]]) auto
  have t: "list_all (\<lambda>b. b < MAX_BRIGHTNESS) (tl (os_special st)) \<longleftrightarrow>
      (\<forall>i \<in> set [1..<9]. os_special st ! i < MAX_BRIGHTNESS)" (is "?l \<longleftrightarrow> ?r")
  proof -
    have "?l \<longleftrightarrow> (\<forall>i < 8. os_special st ! Suc i < MAX_BRIGHTNESS)"
      using assms by (simp add: list_all_length nth_tl wf_output_def)
    also have "\<dots> \<longleftrightarrow> (\<forall>i \<in> Suc ` {0..<8}. os_special st ! i < MAX_BRIGHTNESS)"
      by (auto simp del: image_Suc_atLeastLessThan)
    also have "Suc ` {0..<8} = set [1..<9]" unfolding image_Suc_atLeastLessThan by simp
    finally show ?thesis .
  qed
  show "fold_res (encode_matrix st) [0..<16] rep =
      (if list_all dim_color (os_matrix st)
       then Inr (upds (concat (map (matrix_writes st) [0..<16])) rep) else Inl Assert_failed)"
    unfolding m by (rule up) (simp add: encode_matrix_eq assms)
  show "fold_res (encode_stop st) [0..<4] rep =
      (if list_all (\<lambda>b. b < MAX_BRIGHTNESS) (os_stop st)
       then Inr (upds (concat (map (stop_writes st) [0..<4])) rep) else Inl Assert_failed)"
    unfolding s by (rule up) (simp add: encode_stop_eq assms)
  show "fold_res (encode_special st) [1..<9] rep =
      (if list_all (\<lambda>b. b < MAX_BRIGHTNESS) (tl (os_special st))
       then Inr (upds (concat (map (\<lambda>i. [(i + 16, os_special st ! i)]) [1..<9])) rep)
       else Inl Assert_failed)"
    unfolding t by (rule up) (simp add: encode_special_eq assms del: upds_simps)
  show "fold_res (encode_segment st) [1..<8] rep = Inr (upds (concat (map (seg_writes st) [1..<8])) rep)"
    using up [of "[1..<8]" "encode_segment st" "\<lambda>_. True" "seg_writes st"]
    by (simp add: encode_segment_eq del: upds_simps)
qed

lemma encode_report_writes:
  assumes "wf_output st" "length rep = 81"
  shows "encode_report st rep =
    (if dim_output st then Inr (upds (report_writes st) rep) else Inl Assert_failed)"
proof (cases "list_all dim_color (os_matrix st) \<and> list_all (\<lambda>b. b < MAX_BRIGHTNESS) (os_stop st) \<and>
    list_all (\<lambda>b. b < MAX_BRIGHTNESS) (tl (os_special st))")
  case True
  then show ?thesis
    unfolding encode_report_def f1_sizes report_writes_def dim_output_def
    by (simp add: encode_loops assms out_offsets assert_res_def del: One_nat_def)
next
  case False
  then show ?thesis
    unfolding encode_report_def f1_sizes dim_output_def
    by (auto simp: encode_loops assms simp del: One_nat_def)
qed

lemma map_fst_matrix_writes: "map fst (matrix_writes st i) = [i * 3 + 25, i * 3 + 26, i * 3 + 27]"
  by (simp add: matrix_writes_def split: prod.splits)

lemma report_writes_cover:
  assumes "k < 81"
  shows "k \<in> fst ` set (report_writes st)"
proof -
  have "map fst (report_writes st) = [0] @ concat (map (\<lambda>i. [i * 3 + 25, i * 3 + 26, i * 3 + 27]) [0..<16]) @
     concat (map (\<lambda>i. [i * 2 + 73, i * 2 + 74]) [0..<4]) @ map (\<lambda>i. i + 16) [1..<9] @
     concat (map (\<lambda>i. [9 + i, 1 + i]) [1..<8]) @ [9, 1]"
    by (simp add: report_writes_def stop_writes_def seg_writes_def map_concat comp_def
        map_fst_matrix_writes)
  then have "fst ` set (report_writes st) = {0} \<union> (\<Union>i<16. {i * 3 + 25, i * 3 + 26, i * 3 + 27}) \<union>
     (\<Union>i<4. {i * 2 + 73, i * 2 + 74}) \<union> {17..<25} \<union> (\<Union>i \<in> {1..<8}. {9 + i, 1 + i}) \<union> {9, 1}"
    by (simp only: list.set_map [symmetric]) (auto simp: lessThan_atLeast0)
  moreover have "k \<in> {0} \<union> (\<Union>i<16. {i * 3 + 25, i * 3 + 26, i * 3 + 27}) \<union>
     (\<Union>i<4. {i * 2 + 73, i * 2 + 74}) \<union> {17..<25} \<union> (\<Union>i \<in> {1..<8}. {9 + i, 1 + i}) \<union> {9, 1}"
    using assms by (simp add: Bex_def) presburger
  ultimately show ?thesis by simp
qed

lemma layout_matrix:
  assumes "wf_output st" "i < 16" "os_matrix st ! i = (b, r, g)"
  shows "report_layout st ! (i * 3 + 25) = b" "report_layout st ! (i * 3 + 26) = r"
    "report_layout st ! (i * 3 + 27) = g"
proof -
  have pre: "report_layout st = pre @ concat (map (\<lambda>(b, r, g). [b, r, g]) (os_matrix st)) @ post
    \<and> length pre = 25 \<Longrightarrow> report_layout st ! (i * 3 + (25 + j)) = [b, r, g] ! j" if "j < 3" for j pre post
    using nth_concat_const [of "os_matrix st" "\<lambda>(b, r, g). [b, r, g]" 3 i j] assms that
    by (auto simp: nth_append length_concat_const [where n = 3] wf_output_def split: prod.splits)
  have "report_layout st = (take 25 (report_layout st)) @ concat (map (\<lambda>(b, r, g). [b, r, g]) (os_matrix st)) @
     concat (map (\<lambda>b. [b, b]) (rev (os_stop st))) \<and> length (take 25 (report_layout st)) = 25"
    using assms by (simp add: wf_output_def) (simp add: report_layout_def wf_output_def)
  note at = pre [OF _ this]
  show "report_layout st ! (i * 3 + 25) = b" "report_layout st ! (i * 3 + 26) = r"
    "report_layout st ! (i * 3 + 27) = g"
    using at [of 0] at [of 1] at [of 2] by simp_all
qed

lemma layout_stop:
  assumes "wf_output st" "i < 4"
  shows "report_layout st ! (i * 2 + 73) = os_stop st ! (3 - i)"
    "report_layout st ! (i * 2 + 74) = os_stop st ! (3 - i)"
proof -
  have stop: "concat (map (\<lambda>b. [b, b]) (rev (os_stop st))) ! (i * 2 + j) = os_stop st ! (3 - i)"
    if "j < 2" for j
    using nth_concat_const [of "rev (os_stop st)" "\<lambda>b. [b, b]" 2 i j] assms that
    by (auto simp: wf_output_def rev_nth less_2_cases_iff)
  have split: "report_layout st = take 73 (report_layout st) @ concat (map (\<lambda>b. [b, b]) (rev (os_stop st)))
      \<and> length (take 73 (report_layout st)) = 73"
    using assms
    by (simp add: wf_output_def)
       (simp add: report_layout_def wf_output_def length_concat_const [where n = 3] split: prod.splits)
  have "report_layout st ! (73 + n) = concat (map (\<lambda>b. [b, b]) (rev (os_stop st))) ! n" for n
    using split by (metis nth_append_length_plus)
  from this [of "i * 2 + 0"] this [of "i * 2 + 1"]
  show "report_layout st ! (i * 2 + 73) = os_stop st ! (3 - i)"
    "report_layout st ! (i * 2 + 74) = os_stop st ! (3 - i)"
    using stop [of 0] stop [of 1] by (simp_all add: add.commute add.left_commute)
qed

lemma layout_special:
  assumes "wf_output st" "1 \<le> i" "i < 9"
  shows "report_layout st ! (i + 16) = os_special st ! i"
  using assms by (cases i) (auto simp: report_layout_def wf_output_def nth_append nth_tl)

lemma layout_segments:
  assumes "wf_output st" "1 \<le> i" "i < 8"
  shows "report_layout st ! (9 + i) = segment_level (os_left_char st) i (os_left_brightness st)"
    "report_layout st ! (1 + i) = segment_level (os_right_char st) i (os_right_brightness st)"
  using assms by (cases i; simp add: report_layout_def nth_append segment_level_eq)+

lemma layout_scalars:
  "report_layout st ! 0 = os_report_id st" "report_layout st ! 1 = os_right_dot st"
  "report_layout st ! 9 = os_left_dot st"
  by (simp_all add: report_layout_def nth_append)

lemma report_writes_agree:
  assumes "wf_output st"
  shows "\<forall>(k, v) \<in> set (report_writes st). k < 81 \<and> report_layout st ! k = v"
  using assms
  by (auto simp: report_writes_def matrix_writes_def stop_writes_def seg_writes_def
      layout_stop layout_special layout_segments layout_scalars
      intro: layout_matrix [OF _ _ sym] simp del: One_nat_def split: prod.splits)

lemma encode_report_eq:
  assumes "wf_output st" "length rep = 81"
  shows "encode_report st rep = (if dim_output st then Inr (report_layout st) else Inl Assert_failed)"
proof -
  have "upds (report_writes st) rep = report_layout st"
    by (rule upds_eqI) (use assms report_writes_agree report_writes_cover in auto)
  then show ?thesis using assms by (simp add: encode_report_writes)
qed

section \<open>The events of a report carry its whole change\<close>

text \<open>What a consumer does that follows the input only through its events.\<close>

definition apply_event :: "input_event \<Rightarrow> input_state \<Rightarrow> input_state" where
  "apply_event ev s = (case ie_data ev of
     Button_data b \<Rightarrow> (case ie_input_type ev of
         MATRIX \<Rightarrow> s\<lparr>in_matrix := (in_matrix s)[unat (btn_index b) := btn_press b]\<rparr>
       | SPECIAL \<Rightarrow> s\<lparr>in_special := (in_special s)[unat (btn_index b) := btn_press b]\<rparr>
       | STOP \<Rightarrow> s\<lparr>in_stop := (in_stop s)[unat (btn_index b) := btn_press b]\<rparr>
       | _ \<Rightarrow> s)
   | Encoder_data e \<Rightarrow> (case ie_input_type ev of
         KNOB \<Rightarrow> s\<lparr>in_knobs := (in_knobs s)[unat (enc_index e) := enc_value e]\<rparr>
       | FADER \<Rightarrow> s\<lparr>in_faders := (in_faders s)[unat (enc_index e) := enc_value e]\<rparr>
       | _ \<Rightarrow> s)
   | Wheel_data w \<Rightarrow> s\<lparr>in_wheel := in_wheel s + whl_direction w\<rparr>)"

definition control_changes :: "(nat \<Rightarrow> 'a \<Rightarrow> input_event) \<Rightarrow> nat \<Rightarrow> 'a list \<Rightarrow> 'a list \<Rightarrow> input_event list" where
  "control_changes ev n new old = concat (map (\<lambda>i. if new ! i \<noteq> old ! i then [ev i (new ! i)] else []) [0..<n])"

lemma changes_control:
  "button_changes ty n new old = control_changes (\<lambda>i v. \<lparr>ie_event_type = BUTTON, ie_input_type = ty,
     ie_data = Button_data \<lparr>btn_index = word_of_nat i, btn_press = v\<rparr>\<rparr>) n new old"
  "encoder_changes ty n new' old' = control_changes (\<lambda>i v. \<lparr>ie_event_type = ENCODER, ie_input_type = ty,
     ie_data = Encoder_data \<lparr>enc_index = word_of_nat i, enc_value = v\<rparr>\<rparr>) n new' old'"
  by (simp_all add: button_changes_def encoder_changes_def control_changes_def)

lemma fold_control_changes:
  assumes "\<And>i v s. i < n \<Longrightarrow> apply_event (ev i v) s = upd (\<lambda>xs. xs[i := v]) s"
    and "\<And>f g s. upd f (upd g s) = upd (f \<circ> g) s" and "\<And>s. upd id s = s"
    and "length new = n" "length old = n"
  shows "fold apply_event (control_changes ev n new old) s =
    upd (\<lambda>xs. fold (\<lambda>i xs. if new ! i \<noteq> old ! i then xs[i := new ! i] else xs) [0..<n] xs) s"
proof -
  have "fold apply_event (control_changes ev k new old) s =
    upd (fold (\<lambda>i xs. if new ! i \<noteq> old ! i then xs[i := new ! i] else xs) [0..<k]) s" if "k \<le> n" for k
    using that
  proof (induction k)
    case 0
    then show ?case using assms(3) [of s] by (simp add: control_changes_def id_def)
  next
    case (Suc k)
    then show ?case
      by (auto simp: control_changes_def assms(1, 2) comp_def)
  qed
  from this [of n] show ?thesis by simp
qed

lemma fold_changed:
  assumes "length new = n" "length old = n"
  shows "fold (\<lambda>i xs. if new ! i \<noteq> old ! i then xs[i := new ! i] else xs) [0..<n] old = new"
proof -
  have "k \<le> n \<Longrightarrow> fold (\<lambda>i xs. if new ! i \<noteq> old ! i then xs[i := new ! i] else xs) [0..<k] old =
    take k new @ drop k old" for k
  proof (induction k)
    case (Suc k)
    then have "drop k old = old ! k # drop (Suc k) old" using assms by (simp add: drop_eq_Cons_nth)
    with Suc assms show ?case
      by (auto simp: take_Suc_conv_app_nth list_update_append)
  qed simp
  then show ?thesis using assms by simp
qed

lemma wheel_direction_eq:
  "ucast (ucast (ucast new - ucast old :: 32 word) :: 16 word) = new - (old :: byte)"
proof -
  have narrow: "(ucast (ucast (x :: 32 word) :: 16 word) :: byte) = ucast x" for x
    by (rule bit_word_eqI) (auto simp: bit_simps)
  have of_int: "(ucast (word_of_int k :: 32 word) :: byte) = word_of_int k" for k
    by (rule bit_word_eqI) (auto simp: bit_simps)
  have "(ucast new - ucast old :: 32 word) = word_of_int (uint new - uint old)" by simp
  then have "(ucast (ucast new - ucast old :: 32 word) :: byte) = word_of_int (uint new - uint old)"
    by (simp only: of_int)
  then show ?thesis unfolding narrow by simp
qed

lemma apply_wheel:
  "in_wheel s = old \<Longrightarrow> fold apply_event (wheel_changes new old) s = s\<lparr>in_wheel := new\<rparr>"
  by (simp add: wheel_changes_def apply_event_def Let_def wheel_direction_eq)

lemma replay_control:
  assumes "\<And>i v s. i < n \<Longrightarrow> apply_event (ev i v) s = upd (\<lambda>xs. xs[i := v]) s"
    and "\<And>f g s. upd f (upd g s) = upd (f \<circ> g) s" and "\<And>s. upd id s = s"
    and "\<And>f g. f (get s) = g (get s) \<Longrightarrow> upd f s = upd g s"
    and "length new = n" and "length (get s) = n"
  shows "fold apply_event (control_changes ev n new (get s)) s = upd (\<lambda>_. new) s"
proof -
  have "upd (\<lambda>xs. fold (\<lambda>i xs. if new ! i \<noteq> get s ! i then xs[i := new ! i] else xs) [0..<n] xs) s =
      upd (\<lambda>_. new) s"
    by (rule assms(4)) (simp add: fold_changed assms(5, 6))
  with fold_control_changes [of n ev upd new "get s" s, OF assms(1, 2, 3, 5, 6)] show ?thesis
    by simp
qed

lemma unat_index: "i < 256 \<Longrightarrow> unat (word_of_nat i :: byte) = i"
  by (simp add: unsigned_of_nat take_bit_eq_mod)

lemma apply_matrix:
  assumes "length new = 16" "length old = 16" "in_matrix s = old"
  shows "fold apply_event (button_changes MATRIX 16 new old) s = s\<lparr>in_matrix := new\<rparr>"
  unfolding changes_control assms(3) [symmetric]
  by (rule replay_control [where upd = in_matrix_update])
     (use assms in \<open>auto simp: apply_event_def unat_index intro: input_state.fold_congs\<close>)

lemma apply_special:
  assumes "length new = 9" "length old = 9" "in_special s = old"
  shows "fold apply_event (button_changes SPECIAL 9 new old) s = s\<lparr>in_special := new\<rparr>"
  unfolding changes_control assms(3) [symmetric]
  by (rule replay_control [where upd = in_special_update])
     (use assms in \<open>auto simp: apply_event_def unat_index intro: input_state.fold_congs\<close>)

lemma apply_stop:
  assumes "length new = 4" "length old = 4" "in_stop s = old"
  shows "fold apply_event (button_changes STOP 4 new old) s = s\<lparr>in_stop := new\<rparr>"
  unfolding changes_control assms(3) [symmetric]
  by (rule replay_control [where upd = in_stop_update])
     (use assms in \<open>auto simp: apply_event_def unat_index intro: input_state.fold_congs\<close>)

lemma apply_faders:
  assumes "length new = 4" "length old = 4" "in_faders s = old"
  shows "fold apply_event (encoder_changes FADER 4 new old) s = s\<lparr>in_faders := new\<rparr>"
  unfolding changes_control assms(3) [symmetric]
  by (rule replay_control [where upd = in_faders_update])
     (use assms in \<open>auto simp: apply_event_def unat_index intro: input_state.fold_congs\<close>)

lemma apply_knobs:
  assumes "length new = 4" "length old = 4" "in_knobs s = old"
  shows "fold apply_event (encoder_changes KNOB 4 new old) s = s\<lparr>in_knobs := new\<rparr>"
  unfolding changes_control assms(3) [symmetric]
  by (rule replay_control [where upd = in_knobs_update])
     (use assms in \<open>auto simp: apply_event_def unat_index intro: input_state.fold_congs\<close>)

lemmas apply_changes = apply_matrix apply_special apply_stop apply_faders apply_knobs apply_wheel

lemma replay_input_changes:
  assumes "wf_input new" "wf_input old"
  shows "fold apply_event (input_changes new old) old = new\<lparr>in_report_id := in_report_id old\<rparr>"
  using assms unfolding input_changes_def f1_sizes wf_input_def fold_append comp_def
  by (simp add: apply_changes)

lemma input_changes_empty_iff:
  assumes "wf_input new" "wf_input old"
  shows "input_changes new old = [] \<longleftrightarrow> new\<lparr>in_report_id := in_report_id old\<rparr> = old"
proof
  assume "input_changes new old = []"
  with replay_input_changes [OF assms] show "new\<lparr>in_report_id := in_report_id old\<rparr> = old" by simp
next
  assume "new\<lparr>in_report_id := in_report_id old\<rparr> = old"
  then have "in_matrix new = in_matrix old" "in_special new = in_special old" "in_stop new = in_stop old"
    "in_faders new = in_faders old" "in_knobs new = in_knobs old" "in_wheel new = in_wheel old"
    by (metis input_state.select_convs input_state.surjective input_state.update_convs)+
  then show "input_changes new old = []"
    by (simp add: input_changes_def button_changes_def encoder_changes_def wheel_changes_def)
qed

lemma wf_read_report:
  assumes "wf_f1 p" and "hid_read os w (f1_dev p) (f1_in_report p) = (w', report, r)"
  shows "wf_f1 (p\<lparr>f1_in_report := report\<rparr>)"
  using assms hid_read_length [OF assms(2)] by (simp add: wf_f1_def)

lemma f1_read_ok:
  assumes "wf_f1 p" and "hid_read os w (f1_dev p) (f1_in_report p) = (w', report, Inr ())"
  shows "f1_read os w p = (w', let s = (if report ! 0 = INPUT_REPORT_ID then decoded report else f1_in p)
     in (p\<lparr>f1_in_report := report, f1_old := f1_in p, f1_in := s\<rparr>, Inr s))"
  using assms(2) update_in_state_eq [OF wf_read_report [OF assms]]
  by (simp add: f1_read_def Let_def)

lemma wf_f1_read:
  assumes "wf_f1 p" and "f1_read os w p = (w', p', r)"
  shows "wf_f1 p'"
proof -
  obtain w1 report r1 where h: "hid_read os w (f1_dev p) (f1_in_report p) = (w1, report, r1)"
    by (cases "hid_read os w (f1_dev p) (f1_in_report p)") auto
  show ?thesis
  proof (cases r1)
    case (Inl e)
    with assms h show ?thesis by (auto simp: f1_read_def intro: wf_read_report)
  next
    case (Inr u)
    with assms h f1_read_ok [OF assms(1), of os w w1 report] show ?thesis
      using hid_read_length [OF h] by (auto simp: wf_f1_def Let_def split: if_splits)
  qed
qed

lemma f1_read_fails:
  assumes "wf_f1 p" "f1_read os w p = (w', p', Inl e)"
  shows "e = Hid_error"
proof -
  obtain w1 report r where h: "hid_read os w (f1_dev p) (f1_in_report p) = (w1, report, r)" using prod_cases3 by blast
  show ?thesis
  proof (cases r)
    case (Inl x)
    with h hid_read_fails have "x = Hid_error" by metis
    with assms(2) h Inl show ?thesis by (simp add: f1_read_def)
  next
    case (Inr u)
    with f1_read_ok [OF assms(1), of os w w1 report] h assms(2) show ?thesis by (simp add: Let_def)
  qed
qed

lemma update_out_ok:
  assumes "wf_f1 p" "dim_output (f1_out p)"
  shows "update_out_report p = Inr (p\<lparr>f1_out_report := report_layout (f1_out p)\<rparr>)" "length (report_layout (f1_out p)) = 81"
proof -
  have wf: "wf_output (f1_out p)" "length (f1_out_report p) = 81" using assms(1) by (auto simp: wf_f1_def)
  show "update_out_report p = Inr (p\<lparr>f1_out_report := report_layout (f1_out p)\<rparr>)"
    using encode_report_eq [OF wf] assms(2) by (simp add: update_out_report_def)
  show "length (report_layout (f1_out p)) = 81" using wf(1) by simp
qed

lemma f1_write_keeps:
  assumes "wf_f1 p" "dim_output (f1_out p)" "f1_write os w p = (w', p', r)"
  shows "wf_f1 p' \<and> f1_out p' = f1_out p \<and> (\<forall>e. r = Inl e \<longrightarrow> e = Hid_error)"
  using assms update_out_ok [OF assms(1, 2)]
  by (auto simp: f1_write_def wf_f1_def hid_write_def throw_strerror_def split: prod.splits if_splits)

lemma f1_new_ok:
  assumes "wf_input a" "wf_input b" "f1_new a b f = Inr d"
  shows "wf_f1 d \<and> f1_out d = default_output"
proof -
  let ?p = "\<lparr>f1_dev = f, f1_in = a, f1_old = b, f1_out = default_output,
       f1_in_report = replicate INPUT_REPORT_SIZE 0, f1_out_report = replicate OUTPUT_REPORT_SIZE 0, f1_events = []\<rparr>"
  have "wf_f1 ?p" using assms(1, 2) by (simp add: wf_f1_def INPUT_REPORT_SIZE_def OUTPUT_REPORT_SIZE_def)
  with assms(3) update_out_ok [of ?p] show ?thesis by (auto simp: f1_new_def wf_f1_def)
qed

section \<open>Properties\<close>

text \<open>C4: A report with id 1 is decoded as the protocol table says: the matrix buttons are the bits of
  bytes 1 and 2 from the most significant down, the special buttons bits 2 to 7 of byte 3 and
  1 to 3 of byte 4, the stop buttons bits 7 down to 4 of byte 4, the wheel byte 5, the knobs and
  faders little-endian 16-bit words from bytes 6 and 14; the previous state is kept.\<close>

theorem f1_decode_table:
  assumes "wf_f1 p" and "f1_in_report p ! 0 = INPUT_REPORT_ID"
  shows "update_in_state p = Inr (p\<lparr>f1_old := f1_in p, f1_in :=
     \<lparr>in_report_id = 1,
      in_matrix = map (\<lambda>k. bit (f1_in_report p ! (1 + k div 8)) (7 - k mod 8)) [0..<16],
      in_special = map (bit (f1_in_report p ! 3)) [2, 3, 4, 5, 6, 7] @ map (bit (f1_in_report p ! 4)) [1, 2, 3],
      in_stop = map (bit (f1_in_report p ! 4)) [7, 6, 5, 4],
      in_wheel = f1_in_report p ! 5,
      in_knobs = map (\<lambda>i. word_of_nat (unat (f1_in_report p ! (6 + 2 * i)) + 256 * unat (f1_in_report p ! (7 + 2 * i)))) [0..<4],
      in_faders = map (\<lambda>i. word_of_nat (unat (f1_in_report p ! (14 + 2 * i)) + 256 * unat (f1_in_report p ! (15 + 2 * i)))) [0..<4]\<rparr>\<rparr>)"
  using update_in_state_eq [OF assms(1)] assms(2)
  by (simp add: decoded_def le16_def INPUT_REPORT_ID_def del: of_nat_add of_nat_mult)

definition idle_input :: input_state where
  "idle_input = \<lparr>in_report_id = 0, in_matrix = replicate 16 False, in_special = replicate 9 False,
     in_stop = replicate 4 False, in_wheel = 0, in_knobs = replicate 4 0, in_faders = replicate 4 0\<rparr>"

definition sample_report :: "byte list" where
  "sample_report = [1, 0x80, 0x01, 0x04, 0x82, 0xff, 0xff, 0x0f] @ replicate 14 0"

definition sample_f1 :: f1_impl where
  "sample_f1 = \<lparr>f1_dev = fd_new 3, f1_in = idle_input, f1_old = idle_input, f1_out = default_output,
     f1_in_report = sample_report, f1_out_report = replicate 81 0, f1_events = []\<rparr>"

lemma wf_sample_f1: "wf_f1 sample_f1" "f1_in_report sample_f1 ! 0 = INPUT_REPORT_ID"
  by (simp_all add: wf_f1_def sample_f1_def wf_input_def idle_input_def sample_report_def INPUT_REPORT_ID_def)

lemma f1_decode_table_witness:
  "bind_res (update_in_state sample_f1) (\<lambda>p. Inr (in_matrix (f1_in p), in_special (f1_in p), in_stop (f1_in p), in_knobs (f1_in p))) =
   Inr ([True] @ replicate 14 False @ [True], [True] @ replicate 5 False @ [True] @ replicate 2 False,
     [True, False, False, False], [0xfff, 0, 0, 0])"
  unfolding f1_decode_table [OF wf_sample_f1]
  by code_simp

text \<open>A report with another id changes no control and no handler is called for it.\<close>

theorem f1_foreign_report:
  assumes "wf_f1 p" and "hid_read os w (f1_dev p) (f1_in_report p) = (w', report, Inr ())"
    and "report ! 0 \<noteq> INPUT_REPORT_ID"
  shows "f1_read_events os hdl w p s = Inr (w', p\<lparr>f1_in_report := report, f1_old := f1_in p, f1_events := []\<rparr>, s)"
proof -
  have "input_changes (f1_in p) (f1_in p) = []"
    using input_changes_empty_iff [of "f1_in p" "f1_in p"] assms(1) by (simp add: wf_f1_def)
  then show ?thesis
    using assms(3) f1_read_ok [OF assms(1, 2)]
    by (simp add: f1_read_events_def generate_input_events_def Let_def)
qed

definition sample_world :: "byte list list \<Rightarrow> mem_dev" where
  "sample_world rx = \<lparr>md_rx = rx, md_tx = [], md_closed = [],
     md_info = \<lparr>di_bustype = 3, di_vendor = 0x17cc, di_product = 0x1120\<rparr>\<rparr>"

definition collect_event :: "input_event \<Rightarrow> 'w \<times> f1_impl \<times> input_event list \<Rightarrow> ('w \<times> f1_impl \<times> input_event list) res" where
  "collect_event ev st = (case st of (w, p, evs) \<Rightarrow> Inr (w, p, evs @ [ev]))"

lemma f1_foreign_report_witness:
  "f1_read_events mem_os collect_event (sample_world [2 # replicate 21 0]) sample_f1 [] =
   Inr (sample_world [], sample_f1\<lparr>f1_in_report := 2 # replicate 21 0\<rparr>, [])"
proof -
  have "hid_read mem_os (sample_world [2 # replicate 21 0]) (f1_dev sample_f1) (f1_in_report sample_f1) =
      (sample_world [], 2 # replicate 21 0, Inr ())"
    by (simp add: hid_read_def mem_os_def sample_world_def sample_f1_def sample_report_def fd_get_def)
  from f1_foreign_report [OF wf_sample_f1(1) this]
  have "f1_read_events mem_os collect_event (sample_world [2 # replicate 21 0]) sample_f1 [] =
    Inr (sample_world [], sample_f1\<lparr>f1_in_report := 2 # replicate 21 0, f1_old := f1_in sample_f1, f1_events := []\<rparr>, [])"
    by (simp add: INPUT_REPORT_ID_def)
  then show ?thesis by (simp add: sample_f1_def)
qed

text \<open>C3: The events handed to the handler after a read carry the whole change of the input: replayed
  over the state before the read they give the state after it (the wheel by adding its
  direction, which wraps as the wheel does), and there is none only when nothing changed.\<close>

theorem f1_events_replay:
  assumes "wf_f1 p" and "hid_read os w (f1_dev p) (f1_in_report p) = (w', report, Inr ())"
  shows "\<exists>p' evs. f1_read_events os collect_event w p [] = Inr (w', p', evs) \<and> wf_f1 p' \<and>
     fold apply_event evs (f1_in p) = (f1_in p')\<lparr>in_report_id := in_report_id (f1_in p)\<rparr> \<and>
     (evs = [] \<longleftrightarrow> (f1_in p')\<lparr>in_report_id := in_report_id (f1_in p)\<rparr> = f1_in p)"
proof -
  have collect: "fold_res collect_event evs (v, q, acc) = Inr (v, q, acc @ evs)" for evs acc and v :: 'a and q
    by (induction evs arbitrary: acc) (auto simp: collect_event_def)
  obtain p1 s where read: "f1_read os w p = (w', p1, Inr s)" and old: "f1_old p1 = f1_in p"
    using f1_read_ok [OF assms] by (auto simp: Let_def)
  have wf: "wf_f1 p1" by (rule wf_f1_read [OF assms(1) read])
  then have "wf_input (f1_in p1)" "wf_input (f1_in p)"
    using assms(1) by (auto simp: wf_f1_def)
  note laws = replay_input_changes [OF this] input_changes_empty_iff [OF this]
  have "f1_read_events os collect_event w p [] =
      Inr (w', p1\<lparr>f1_events := input_changes (f1_in p1) (f1_in p)\<rparr>, input_changes (f1_in p1) (f1_in p))"
    by (simp add: f1_read_events_def read Let_def generate_input_events_def old collect)
  moreover have "wf_f1 (p1\<lparr>f1_events := input_changes (f1_in p1) (f1_in p)\<rparr>)"
    using wf by (simp add: wf_f1_def)
  ultimately show ?thesis using laws by simp
qed

lemma f1_events_replay_witness:
  "\<exists>p' evs. f1_read_events mem_os collect_event (sample_world [sample_report]) sample_f1 [] =
     Inr (sample_world [], p', evs) \<and>
     fold apply_event evs idle_input = (f1_in p')\<lparr>in_report_id := 0\<rparr>"
proof -
  have "hid_read mem_os (sample_world [sample_report]) (f1_dev sample_f1) (f1_in_report sample_f1) =
      (sample_world [], sample_report, Inr ())"
    by (simp add: hid_read_def mem_os_def sample_world_def sample_f1_def sample_report_def fd_get_def)
  from f1_events_replay [OF wf_sample_f1(1) this] show ?thesis
    by (auto simp: sample_f1_def idle_input_def)
qed



text \<open>The output report determines the output state the device shows: two states with the same
  report have the same LEDs and dots, and, where a display is lit, the same visible segments.\<close>

theorem encode_report_injective:
  assumes "wf_output s" "wf_output t" "length rep = 81"
    and "encode_report s rep = Inr r" "encode_report t rep = Inr r"
  shows "os_matrix s = os_matrix t \<and> os_stop s = os_stop t \<and> tl (os_special s) = tl (os_special t) \<and>
    os_left_dot s = os_left_dot t \<and> os_right_dot s = os_right_dot t \<and> os_report_id s = os_report_id t \<and>
    (\<forall>i \<in> {1..<8}. (bit (os_left_char s) i \<and> os_left_brightness s \<noteq> 0) =
        (bit (os_left_char t) i \<and> os_left_brightness t \<noteq> 0) \<and>
      (bit (os_right_char s) i \<and> os_right_brightness s \<noteq> 0) =
        (bit (os_right_char t) i \<and> os_right_brightness t \<noteq> 0))"
proof -
  have eq: "report_layout s = report_layout t"
    using assms by (auto simp: encode_report_eq split: if_splits)
  have len: "length (os_matrix s) = 16" "length (os_matrix t) = 16" "length (os_stop s) = 4"
      "length (os_stop t) = 4" "length (os_special s) = 9" "length (os_special t) = 9"
    using assms(1, 2) by (auto simp: wf_output_def)
  have "os_matrix s ! i = os_matrix t ! i" if "i < 16" for i
    using layout_matrix [OF assms(1) that] layout_matrix [OF assms(2) that] eq
    by (cases "os_matrix s ! i"; cases "os_matrix t ! i") auto
  then have matrix: "os_matrix s = os_matrix t" by (intro nth_equalityI) (auto simp: len)
  have "os_stop s ! (3 - (3 - i)) = os_stop t ! (3 - (3 - i))" if "i < 4" for i
    using layout_stop [OF assms(1), of "3 - i"] layout_stop [OF assms(2), of "3 - i"] eq by simp
  then have stop: "os_stop s = os_stop t" by (intro nth_equalityI) (auto simp: len less_Suc_eq_le)
  have "os_special s ! Suc i = os_special t ! Suc i" if "i < 8" for i
    using layout_special [OF assms(1), of "Suc i"] layout_special [OF assms(2), of "Suc i"] eq that by simp
  then have special: "tl (os_special s) = tl (os_special t)"
    by (intro nth_equalityI) (auto simp: len nth_tl)
  have "\<forall>i \<in> {1..<8}. (bit (os_left_char s) i \<and> os_left_brightness s \<noteq> 0) =
        (bit (os_left_char t) i \<and> os_left_brightness t \<noteq> 0) \<and>
      (bit (os_right_char s) i \<and> os_right_brightness s \<noteq> 0) =
        (bit (os_right_char t) i \<and> os_right_brightness t \<noteq> 0)"
  proof
    fix i :: nat assume "i \<in> {1..<8}"
    with layout_segments [OF assms(1), of i] layout_segments [OF assms(2), of i] eq
    show "(bit (os_left_char s) i \<and> os_left_brightness s \<noteq> 0) =
        (bit (os_left_char t) i \<and> os_left_brightness t \<noteq> 0) \<and>
      (bit (os_right_char s) i \<and> os_right_brightness s \<noteq> 0) =
        (bit (os_right_char t) i \<and> os_right_brightness t \<noteq> 0)"
      by (auto simp: segment_level_eq split: if_splits)
  qed
  with matrix stop special layout_scalars [of s] layout_scalars [of t] eq show ?thesis by simp
qed

lemma encode_report_injective_witness:
  "os_stop default_output = os_stop (default_output\<lparr>os_left_char := SEG_D8\<rparr>)"
proof -
  let ?t = "default_output\<lparr>os_left_char := SEG_D8\<rparr>"
  have t: "wf_output ?t" by (simp add: wf_output_def default_output_def)
  have "encode_report default_output (replicate 81 0) = Inr (0x80 # replicate 80 0)"
    "encode_report ?t (replicate 81 0) = Inr (0x80 # replicate 80 0)"
    by code_simp+
  from encode_report_injective [OF wf_default_output t _ this] show ?thesis by simp
qed

definition digit_table :: "segment_char list" where
  "digit_table = [SEG_D0, SEG_D1, SEG_D2, SEG_D3, SEG_D4, SEG_D5, SEG_D6, SEG_D7, SEG_D8, SEG_D9]"

lemma num_to_segments_table:
  "num_to_segments n =
    (if unat n < 100 then Inr (digit_table ! (unat n div 10), digit_table ! (unat n mod 10))
     else Inl Out_of_range)"
  by (rule all_byte [where b = n]) code_simp

text \<open>A number below 100 is shown as its tens and its units digit, each digit by its own character;
  a larger one is refused, and the assertion in the digit table is never reached.\<close>

theorem num_to_segments_digits:
  "distinct digit_table \<and> num_to_segments n =
    (if unat n < 100 then Inr (digit_table ! (unat n div 10), digit_table ! (unat n mod 10))
     else Inl Out_of_range)"
proof
  show "distinct digit_table" by code_simp
  show "num_to_segments n =
    (if unat n < 100 then Inr (digit_table ! (unat n div 10), digit_table ! (unat n mod 10))
     else Inl Out_of_range)"
    by (rule num_to_segments_table)
qed

text \<open>The life of a device object: it is made, then read, written, asked for events and given any
  output state, in any order; also operations that fail leave an object.\<close>

inductive f1_life :: "'w posix \<Rightarrow> f1_impl \<Rightarrow> bool" for os where
  made: "wf_input a \<Longrightarrow> wf_input b \<Longrightarrow> f1_new a b f = Inr p \<Longrightarrow> f1_life os p"
| lit: "f1_life os p \<Longrightarrow> wf_output out \<Longrightarrow> f1_life os (p\<lparr>f1_out := out\<rparr>)"
| was_read: "f1_life os p \<Longrightarrow> f1_read os w p = (w', p', r) \<Longrightarrow> f1_life os p'"
| was_written: "f1_life os p \<Longrightarrow> f1_write os w p = (w', p', r) \<Longrightarrow> f1_life os p'"
| asked: "f1_life os p \<Longrightarrow> f1_life os (generate_input_events p)"

lemma f1_write_wf:
  assumes "wf_f1 p" "f1_write os w p = (w', p', r)"
  shows "wf_f1 p' \<and> (\<forall>e. r = Inl e \<longrightarrow> e = Hid_error \<or> e = Assert_failed \<and> \<not> dim_output (f1_out p))"
proof (cases "dim_output (f1_out p)")
  case True
  then show ?thesis using f1_write_keeps [OF assms(1) True assms(2)] by blast
next
  case False
  have "wf_output (f1_out p)" "length (f1_out_report p) = 81" using assms(1) by (auto simp: wf_f1_def)
  from encode_report_eq [OF this] False assms show ?thesis by (auto simp: f1_write_def update_out_report_def)
qed

lemma f1_life_wf: "f1_life os p \<Longrightarrow> wf_f1 p"
proof (induction rule: f1_life.induct)
  case (made a b f p)
  then show ?case using f1_new_ok by blast
next
  case (was_read p w w' p' r)
  show ?case by (rule wf_f1_read [OF was_read.IH was_read.hyps(2)])
next
  case (was_written p w w' p' r)
  show ?case by (rule conjunct1 [OF f1_write_wf [OF was_written.IH was_written.hyps(2)]])
qed (auto simp: wf_f1_def generate_input_events_def)

text \<open>C36: A device keeps its type: in every state of its life the arrays of its states and reports have
  their sizes, so that no operation indexes out of range; reading fails only with the device, writing
  with the device or at the assertion on a brightness of 128 or more.\<close>

theorem f1_type_safe:
  assumes "f1_life os p"
  shows "wf_f1 p \<and> (\<forall>w w' p' e. f1_read os w p = (w', p', Inl e) \<longrightarrow> e = Hid_error) \<and>
    (\<forall>w w' p' e. f1_write os w p = (w', p', Inl e) \<longrightarrow> e = Hid_error \<or> e = Assert_failed \<and> \<not> dim_output (f1_out p))"
proof -
  note wf = f1_life_wf [OF assms]
  have "e = Hid_error" if "f1_read os w p = (w', p', Inl e)" for w w' p' e
    by (rule f1_read_fails [OF wf that])
  moreover have "e = Hid_error \<or> e = Assert_failed \<and> \<not> dim_output (f1_out p)" if "f1_write os w p = (w', p', Inl e)" for w w' p' e
    using f1_write_wf [OF wf that] by simp
  ultimately show ?thesis using wf by blast
qed

lemma f1_type_safe_witness:
  "\<exists>p. f1_life mem_os p \<and> f1_out p = default_output\<lparr>os_left_dot := 200\<rparr> \<and> wf_f1 p"
proof -
  have "wf_input idle_input" by (simp add: wf_input_def idle_input_def)
  moreover have "\<exists>p. f1_new idle_input idle_input (fd_new 3) = Inr p"
  proof -
    have "case f1_new idle_input idle_input (fd_new 3) of Inl e \<Rightarrow> False | Inr p \<Rightarrow> True" by code_simp
    then show ?thesis by (auto split: sum.splits)
  qed
  ultimately obtain p where "f1_life mem_os p" using f1_life.made by blast
  then have "f1_life mem_os (p\<lparr>f1_out := default_output\<lparr>os_left_dot := 200\<rparr>\<rparr>)"
    by (rule f1_life.lit) (simp add: wf_output_def default_output_def)
  with f1_type_safe [OF this] show ?thesis by auto
qed

end
