(* ===== verification/Rounding.thy ===== *)
theory Rounding
  imports Prelude Complex_Main
begin

text \<open>
  The floating-point arithmetic of the C++ code.  A finite \<open>float\<close> or \<open>double\<close> is the rational
  it denotes; an operation is the exact operation followed by \<open>fl p\<close>, the rounding to
  \<open>p\<close> significant bits, nearest with ties to even (24 bits for \<open>float\<close>, 53 for \<open>double\<close>).  The
  exponent range is not modelled: the program multiplies bytes and 12-bit positions by factors
  between 1/4095 and 1, far from overflow and underflow.
\<close>

section \<open>Rounding to a binary format\<close>

function log2_floor :: "int \<Rightarrow> nat" where
  "log2_floor n = (if n < 2 then 0 else Suc (log2_floor (n div 2)))"
  by auto
termination by (relation "measure nat") auto

declare log2_floor.simps [simp del]

lemma log2_floor_bounds:
  "0 < n \<Longrightarrow> 2 ^ log2_floor n \<le> n \<and> n < 2 ^ Suc (log2_floor n)"
proof (induction n rule: log2_floor.induct)
  case (1 n)
  show ?case
  proof (cases "n < 2")
    case True
    then show ?thesis using 1 by (simp add: log2_floor.simps)
  next
    case False
    with 1 have "2 ^ log2_floor (n div 2) \<le> n div 2" "n div 2 < 2 ^ Suc (log2_floor (n div 2))"
      by simp_all
    with False show ?thesis by (subst (1 2) log2_floor.simps) auto
  qed
qed

definition pow2 :: "int \<Rightarrow> rat" where
  "pow2 k = (if 0 \<le> k then 2 ^ nat k else 1 / 2 ^ nat (- k))"

lemma pow2_powi: "pow2 k = 2 powi k"
  by (simp add: pow2_def power_int_def field_simps)

lemma pow2_pos [simp]: "0 < pow2 k"
  by (simp add: pow2_def)

lemma pow2_add: "pow2 (a + b) = pow2 a * pow2 b"
  by (simp add: pow2_powi power_int_add)

lemma pow2_mono: "a \<le> b \<Longrightarrow> pow2 a \<le> pow2 b"
  by (simp add: pow2_powi power_int_increasing)

text \<open>The binary exponent of a positive number.\<close>

definition exponent_of :: "rat \<Rightarrow> int" where
  "exponent_of x = (case quotient_of x of (n, d) \<Rightarrow>
     let e = int (log2_floor n) - int (log2_floor d)
     in if x < pow2 e then e - 1 else e)"

lemma exponent_of_bounds:
  assumes "0 < x"
  shows "pow2 (exponent_of x) \<le> x \<and> x < pow2 (exponent_of x + 1)"
proof -
  obtain n d where q: "quotient_of x = (n, d)" by (cases "quotient_of x")
  have d: "0 < d" using quotient_of_denom_pos [OF q] .
  have x: "x = of_int n / of_int d" using quotient_of_div [OF q] .
  have n: "0 < n" using assms d unfolding x by (simp add: zero_less_divide_iff)
  define ln ld where "ln = log2_floor n" and "ld = log2_floor d"
  have "2 ^ ln \<le> n" "n < 2 ^ Suc ln" "2 ^ ld \<le> d" "d < 2 ^ Suc ld"
    using log2_floor_bounds [of n] log2_floor_bounds [of d] n d by (auto simp: ln_def ld_def)
  then have nd: "2 ^ ln \<le> (of_int n :: rat)" "of_int n < (2 ^ Suc ln :: rat)"
      "2 ^ ld \<le> (of_int d :: rat)" "of_int d < (2 ^ Suc ld :: rat)"
    by (metis of_int_le_iff of_int_less_iff of_int_numeral of_int_power)+
  have frac: "pow2 (int a - int b) = 2 ^ a / 2 ^ b" for a b
    by (simp add: pow2_powi power_int_diff)
  have "pow2 (int ln - int (Suc ld)) \<le> x"
    unfolding frac x by (intro frac_le) (use nd d n in auto)
  moreover have "x < pow2 (int (Suc ln) - int ld)"
    unfolding frac x by (intro frac_less) (use nd d n in auto)
  ultimately show ?thesis
    by (auto simp: exponent_of_def q ln_def [symmetric] ld_def [symmetric] Let_def algebra_simps)
qed

text \<open>Rounding to the nearest integer, ties to the even one.\<close>

definition round_even :: "rat \<Rightarrow> int" where
  "round_even y = (let f = \<lfloor>y\<rfloor>; r = y - of_int f in
     if r < 1 / 2 then f else if 1 / 2 < r then f + 1 else if even f then f else f + 1)"

lemma round_even_error: "\<bar>of_int (round_even y) - y\<bar> \<le> 1 / 2"
  using floor_correct [of y] by (auto simp: round_even_def Let_def abs_le_iff)

lemma round_even_of_int [simp]: "round_even (of_int k) = k"
  by (simp add: round_even_def)

definition fl :: "nat \<Rightarrow> rat \<Rightarrow> rat" where
  "fl p x = (if x = 0 then 0
     else let u = pow2 (exponent_of \<bar>x\<bar> - int p + 1) in of_int (round_even (x / u)) * u)"

lemma fl_0 [simp]: "fl p 0 = 0"
  by (simp add: fl_def)

lemma fl_error: "\<bar>fl p x - x\<bar> \<le> \<bar>x\<bar> / 2 ^ p"
proof (cases "x = 0")
  case False
  define u where "u = pow2 (exponent_of \<bar>x\<bar> - int p + 1)"
  have u: "0 < u" by (simp add: u_def)
  have "fl p x - x = (of_int (round_even (x / u)) - x / u) * u"
    using False u by (simp add: fl_def u_def [symmetric] Let_def left_diff_distrib)
  then have "\<bar>fl p x - x\<bar> \<le> 1 / 2 * u"
    using u round_even_error [of "x / u"] by (simp add: abs_mult)
  also have "u = 2 * pow2 (exponent_of \<bar>x\<bar>) / 2 ^ p"
    by (simp add: u_def pow2_powi power_int_add power_int_diff)
  also have "1 / 2 * (2 * pow2 (exponent_of \<bar>x\<bar>) / 2 ^ p) \<le> \<bar>x\<bar> / 2 ^ p"
    using exponent_of_bounds [of "\<bar>x\<bar>"] False by (simp add: divide_right_mono)
  finally show ?thesis .
qed simp

lemma fl_of_int:
  assumes "0 \<le> n" "n < 2 ^ p"
  shows "fl p (of_int n) = of_int n"
proof (cases "n = 0")
  case False
  with assms have "pow2 (exponent_of (of_int n)) \<le> of_int n"
    using exponent_of_bounds [of "of_int n"] by simp
  also have "(of_int n :: rat) < pow2 (int p)"
    using assms by (simp add: pow2_def flip: of_int_less_iff)
  finally have "exponent_of (of_int n) < int p"
    using pow2_mono [of "int p" "exponent_of (of_int n)"] by linarith
  then obtain k where k: "exponent_of (of_int n) - int p + 1 = - int k"
    by (metis add.commute add_diff_cancel_left' minus_diff_eq neg_equal_iff_equal zless_iff_Suc_zadd
        diff_diff_eq2 of_nat_Suc zle_iff_zadd zless_imp_add1_zle)
  have "(of_int n :: rat) / pow2 (- int k) = of_int (n * 2 ^ k)"
    by (simp add: pow2_powi power_int_minus field_simps)
  then have "round_even (of_int n / pow2 (- int k)) = n * 2 ^ k"
    by (simp only: round_even_of_int)
  then show ?thesis
    using False assms by (simp add: fl_def k Let_def pow2_powi power_int_minus)
qed simp

section \<open>Conversions to integers\<close>

text \<open>\<open>roundl\<close> and \<open>lround\<close>: to the nearest integer, halves away from zero.\<close>

definition round_away :: "rat \<Rightarrow> int" where
  "round_away x = (if 0 \<le> x then \<lfloor>x + 1 / 2\<rfloor> else - \<lfloor>- x + 1 / 2\<rfloor>)"

text \<open>
  \<open>static_cast<std::uint8_t>\<close> of a floating value truncates towards zero; a truncated value that
  is no byte is undefined behaviour.
\<close>

definition cast_byte :: "rat \<Rightarrow> byte res" where
  "cast_byte x = (let t = (if 0 \<le> x then \<lfloor>x\<rfloor> else - \<lfloor>- x\<rfloor>)
     in if 0 \<le> t \<and> t < 256 then Inr (word_of_int t) else Inl Undefined_behaviour)"

text \<open>\<open>lround\<close> (a 64-bit \<open>long\<close>, otherwise unspecified) converted to a byte, modulo 256.\<close>

definition lround_byte :: "rat \<Rightarrow> byte res" where
  "lround_byte x = (let r = round_away x
     in if - (2 ^ 63) \<le> r \<and> r < 2 ^ 63 then Inr (word_of_int r) else Inl Undefined_behaviour)"

lemma cast_byte_nonneg:
  assumes "0 \<le> x" "x < 256"
  shows "cast_byte x = Inr (word_of_int \<lfloor>x\<rfloor>)"
  using assms by (auto simp: cast_byte_def floor_less_iff)

lemma lround_byte_nonneg:
  assumes "0 \<le> x" "x < 256"
  shows "lround_byte x = Inr (word_of_int \<lfloor>x + 1 / 2\<rfloor>)"
proof -
  have "0 \<le> \<lfloor>x + 1 / 2\<rfloor>" "\<lfloor>x + 1 / 2\<rfloor> < 257"
    using assms by (simp_all add: floor_less_iff le_floor_iff)
  then show ?thesis using assms by (simp add: lround_byte_def round_away_def Let_def)
qed

section \<open>Scaling\<close>

text \<open>\<open>scale\<close> of \<open>IOMapper.cpp\<close>, for an integral and for a floating result type.\<close>

definition scale_double :: "int \<Rightarrow> int \<Rightarrow> rat \<Rightarrow> rat" where
  "scale_double value in_max out_max =
     (let scale_factor = fl 53 (out_max / of_int in_max) in fl 53 (of_int value * scale_factor))"

definition scale_byte :: "int \<Rightarrow> int \<Rightarrow> int \<Rightarrow> byte res" where
  "scale_byte value in_max out_max =
     (let scale_factor = fl 53 (of_int out_max / of_int in_max)
      in cast_byte (of_int (round_away (fl 53 (of_int value * scale_factor)))))"

lemma fl_nonneg: 
  assumes "0 \<le> x" "0 < p"
  shows "0 \<le> fl p x"
proof -
  have "x / 2 ^ p \<le> x" using assms by (simp add: divide_le_eq mult_le_cancel_left1)
  with fl_error [of p x] assms(1) show ?thesis by (simp add: abs_le_iff)
qed

lemma scale_double_error:
  assumes "0 \<le> out_max" "0 < in_max" "0 \<le> v"
  shows "\<bar>scale_double v in_max out_max - of_int v * out_max / of_int in_max\<bar> \<le>
    3 / 2 ^ 53 * (of_int v * out_max / of_int in_max)" and "0 \<le> scale_double v in_max out_max"
proof -
  define g where "g = out_max / of_int in_max"
  define f where "f = fl 53 g"
  have g: "0 \<le> g" "\<bar>f - g\<bar> \<le> g / 2 ^ 53"
    using assms fl_error [of 53 g] by (auto simp: f_def g_def)
  have f: "0 \<le> f" unfolding f_def by (rule fl_nonneg) (use g in auto)
  have "\<bar>fl 53 (of_int v * f) - of_int v * f\<bar> \<le> of_int v * f / 2 ^ 53"
    using fl_error [of 53 "of_int v * f"] f assms(3) by (simp add: abs_of_nonneg)
  moreover have "\<bar>of_int v * f - of_int v * g\<bar> \<le> of_int v * (g / 2 ^ 53)"
    using mult_left_mono [OF g(2), of "of_int v"] assms(3) by (simp add: abs_mult abs_of_nonneg assms(3) flip: right_diff_distrib)
  ultimately have "\<bar>fl 53 (of_int v * f) - of_int v * g\<bar> \<le> of_int v * f / 2 ^ 53 + of_int v * (g / 2 ^ 53)"
    by linarith
  also have "\<dots> \<le> 3 / 2 ^ 53 * (of_int v * g)"
  proof -
    have "g / 2 ^ 53 \<le> g" using g by simp
    with g have "f \<le> 2 * g" unfolding abs_le_iff by linarith
    then have "of_int v * f \<le> of_int v * (2 * g)" by (rule mult_left_mono) (simp add: assms(3))
    then show ?thesis by (simp add: ac_simps)
  qed
  finally show "\<bar>scale_double v in_max out_max - of_int v * out_max / of_int in_max\<bar> \<le>
    3 / 2 ^ 53 * (of_int v * out_max / of_int in_max)"
    by (simp add: scale_double_def f_def g_def)
  show "0 \<le> scale_double v in_max out_max"
    unfolding scale_double_def Let_def
    by (rule fl_nonneg) (use f assms(3) in \<open>simp_all add: f_def g_def\<close>)
qed

lemma scale_byte_double:
  "scale_byte v in_max out_max = cast_byte (of_int (round_away (scale_double v in_max (of_int out_max))))"
  by (simp add: scale_byte_def scale_double_def)

text \<open>
  When the exact quotient is never close to a half, rounding errors do not matter: the result
  is the rounded quotient of integers.
\<close>

lemma floor_near:
  fixes x y :: rat
  assumes "\<bar>y - of_int n / of_int d\<bar> < 1 / of_int d" and "n mod d \<noteq> 0" and "0 < d"
  shows "\<lfloor>y\<rfloor> = n div d"
proof -
  have n: "n = d * (n div d) + n mod d" by simp
  have m: "1 \<le> n mod d" "n mod d \<le> d - 1"
    using pos_mod_bound [OF assms(3), of n] pos_mod_sign [OF assms(3), of n] assms(2) by linarith+
  have "(of_int (n mod d) :: rat) \<le> of_int (d - 1)" using m(2) by (simp only: of_int_le_iff)
  then have m': "(of_int (n mod d) :: rat) \<le> of_int d - 1" by simp
  have q: "(of_int n :: rat) / of_int d = of_int (n div d) + of_int (n mod d) / of_int d"
    using assms(3) by (subst n) (simp only: of_int_add of_int_mult add_divide_distrib, simp)
  have "1 / of_int d \<le> (of_int (n mod d) :: rat) / of_int d"
    using m assms(3) by (simp add: divide_right_mono)
  moreover have "(of_int (n mod d) :: rat) / of_int d \<le> 1 - 1 / of_int d"
    using m' assms(3) by (simp add: field_simps)
  ultimately show ?thesis
    using assms(1) q by (intro floor_unique) (auto simp: abs_less_iff)
qed


lemma scale_byte_eq:
  assumes "0 < in_max" "0 \<le> out_max" "out_max < 256" "0 \<le> v" "v \<le> in_max" "odd in_max"
    and "6 * v * out_max < 2 ^ 53"
  shows "scale_byte v in_max out_max = Inr (word_of_int ((2 * out_max * v + in_max) div (2 * in_max)))"
proof -
  define y where "y = scale_double v in_max (of_int out_max)"
  define n d where "n = 2 * out_max * v + in_max" and "d = 2 * in_max"
  have y0: "0 \<le> y" unfolding y_def by (rule scale_double_error(2)) (use assms in auto)
  have q: "(of_int n :: rat) / of_int d = of_int v * of_int out_max / of_int in_max + 1 / 2"
    using assms by (simp add: n_def d_def field_simps)
  have err: "\<bar>y + 1 / 2 - of_int n / of_int d\<bar> \<le> 3 / 2 ^ 53 * (of_int v * of_int out_max / of_int in_max)"
    using scale_double_error(1) [of "of_int out_max" in_max v] assms unfolding q y_def by simp
  also have "\<dots> < 1 / of_int d"
  proof -
    have "(6 * of_int v * of_int out_max :: rat) < 2 ^ 53"
      using assms(7) by (metis of_int_less_iff of_int_mult of_int_numeral of_int_power)
    then show ?thesis using assms(1) by (simp add: d_def field_simps)
  qed
  finally have near: "\<bar>y + 1 / 2 - of_int n / of_int d\<bar> < 1 / of_int d" .
  have "odd n" using assms(6) by (simp add: n_def)
  moreover have "even d" by (simp add: d_def)
  ultimately have "n mod d \<noteq> 0" by (metis dvd_trans mod_eq_0_iff_dvd)
  then have fl: "\<lfloor>y + 1 / 2\<rfloor> = n div d"
    using floor_near [OF near] assms(1) by (simp add: d_def)
  have "0 \<le> n div d" using assms by (simp add: n_def d_def pos_imp_zdiv_nonneg_iff)
  moreover have "n div d < 256"
  proof -
    have "2 * out_max * v \<le> 2 * out_max * in_max" using assms by (simp add: mult_left_mono)
    also have "2 * out_max * in_max \<le> 2 * 255 * in_max" using assms(1, 3) by (simp add: mult_right_mono)
    finally have "n < 256 * d" using assms(1) unfolding n_def d_def by linarith
    moreover have d: "0 < d" using assms(1) by (simp add: d_def)
    then have "256 * d \<le> n div d * d" if "256 \<le> n div d"
      using that by (intro mult_right_mono) auto
    moreover have "n div d * d \<le> n"
      using div_mult_mod_eq [of n d] pos_mod_sign [OF d, of n] by linarith
    ultimately show ?thesis by linarith
  qed
  ultimately show ?thesis
    unfolding scale_byte_double y_def [symmetric] round_away_def n_def [symmetric] d_def [symmetric]
    using y0 by (simp add: fl cast_byte_def)
qed

end
