(* ===== verification/Io_Mapper.thy ===== *)
theory Io_Mapper
  imports F1_Device Midi_Event Rounding
begin

text \<open>
  \<open>IOMapper\<close> (\<open>driver/src/tkf1/IOMapper.hpp\<close>, \<open>.cpp\<close>): the translation of input events into
  MIDI events and button lights, and of MIDI events into button lights.  The public
  configuration fields and the private \<open>last_input\<close> are the fields of one record; the
  array-valued members of its anonymous structs are fields of their own.
\<close>

section \<open>State\<close>

datatype brightness_mode = MIDI_NOTE | MIDI_CC | HID

record io_mapper =
  toggle_matrix :: "bool list"
  toggle_special :: "bool list"
  toggle_stop :: "bool list"
  notes_matrix :: "byte list"
  notes_special :: "byte list"
  notes_stop :: "byte list"
  ctl_knobs :: "byte list"
  ctl_faders :: "byte list"
  ctl_wheel :: byte
  wheel_dec_value :: byte
  wheel_inc_value :: byte
  mode_matrix :: "brightness_mode list"
  mode_special :: "brightness_mode list"
  mode_stop :: "brightness_mode list"
  bctl_matrix :: "byte list"
  bctl_special :: "byte list"
  bctl_stop :: "byte list"
  matrix_colors :: "button_color list"
  brightness_low_color :: rat
  brightness_high_color :: rat
  brightness_low :: byte
  brightness_high :: byte
  out_channel :: byte
  in_channel :: byte
  note_on_velocity :: byte
  note_off_velocity :: byte
  last_matrix :: "bool list"
  last_special :: "bool list"
  last_stop :: "bool list"
  last_fader :: "byte list"
  last_knob :: "byte list"

definition MIDI_MAX :: byte where "MIDI_MAX = 127"

text \<open>\<open>note_from_name_c\<close> is evaluated by the compiler, which rejects a failing name.\<close>

definition note_from_name_c :: "string \<Rightarrow> byte" where
  "note_from_name_c name = (case note_from_name name of Inr n \<Rightarrow> n | Inl _ \<Rightarrow> 0)"

definition default_mapper :: io_mapper where
  "default_mapper = \<lparr>
     toggle_matrix = replicate 16 False, toggle_special = replicate 9 False,
     toggle_stop = replicate 4 False,
     notes_matrix = map note_from_name_c
       [''C1'', ''C#1'', ''D1'', ''D#1'', ''E1'', ''F1'', ''F#1'', ''G1'', ''G#1'', ''A1'', ''A#1'',
        ''B1'', ''C2'', ''C#2'', ''D2'', ''D#2''],
     notes_special = map note_from_name_c
       [''E2'', ''F2'', ''F#2'', ''G2'', ''G#2'', ''A2'', ''A#2'', ''B2'', ''C3''],
     notes_stop = map note_from_name_c [''C#3'', ''D3'', ''D#3'', ''E3''],
     ctl_knobs = [33, 34, 35, 36], ctl_faders = [37, 38, 39, 40], ctl_wheel = 41,
     wheel_dec_value = 0x00, wheel_inc_value = 0x7f,
     mode_matrix = replicate 16 HID, mode_special = replicate 9 HID, mode_stop = replicate 4 HID,
     bctl_matrix = [70, 71, 72, 73, 74, 75, 76, 77, 78, 79, 80, 81, 82, 83, 84, 85],
     bctl_special = [86, 87, 88, 89, 90, 91, 92, 93, 94],
     bctl_stop = [102, 103, 104, 105],
     matrix_colors = replicate 16 WHITE,
     brightness_low_color = fl 24 (1 / 5), brightness_high_color = 1,
     brightness_low = 0x29, brightness_high = 0x7f,
     out_channel = 0, in_channel = 1, note_on_velocity = 127, note_off_velocity = 0,
     last_matrix = replicate 16 False, last_special = replicate 9 False,
     last_stop = replicate 4 False, last_fader = replicate 4 0, last_knob = replicate 4 0\<rparr>"

definition wf_mapper :: "io_mapper \<Rightarrow> bool" where
  "wf_mapper m \<longleftrightarrow> length (toggle_matrix m) = 16 \<and> length (toggle_special m) = 9 \<and>
     length (toggle_stop m) = 4 \<and> length (notes_matrix m) = 16 \<and> length (notes_special m) = 9 \<and>
     length (notes_stop m) = 4 \<and> length (ctl_knobs m) = 4 \<and> length (ctl_faders m) = 4 \<and>
     length (mode_matrix m) = 16 \<and> length (mode_special m) = 9 \<and> length (mode_stop m) = 4 \<and>
     length (bctl_matrix m) = 16 \<and> length (bctl_special m) = 9 \<and> length (bctl_stop m) = 4 \<and>
     length (matrix_colors m) = 16 \<and> length (last_matrix m) = 16 \<and> length (last_special m) = 9 \<and>
     length (last_stop m) = 4 \<and> length (last_fader m) = 4 \<and> length (last_knob m) = 4"

section \<open>HID events\<close>

text \<open>The event to emit, whether the button's light is on, and the new \<open>last_input\<close> bits.\<close>

definition process_HID_input_button ::
    "io_mapper \<Rightarrow> button_event \<Rightarrow> bool list \<Rightarrow> byte list \<Rightarrow> bool list \<Rightarrow>
     (midi_event option \<times> bool \<times> bool list) res" where
  "process_HID_input_button m button toggle notes prev =
     (let idx = unat (btn_index button);
          velocity = (\<lambda>t. if t = NOTE_ON then note_on_velocity m else note_off_velocity m)
      in bind_res (sub_res toggle idx) (\<lambda>tog.
         if tog \<and> btn_press button then
           bind_res (sub_res prev idx) (\<lambda>was_on.
           let event_type = (if was_on then NOTE_OFF else NOTE_ON) in
           bind_res (set_sub_res prev idx (\<not> was_on)) (\<lambda>prev'.
           bind_res (at_res notes idx) (\<lambda>note.
             Inr (Some (make_event event_type (out_channel m) note (velocity event_type)),
                  \<not> was_on, prev'))))
         else if tog \<and> \<not> btn_press button then Inr (None, False, prev)
         else
           let event_type = (if btn_press button then NOTE_ON else NOTE_OFF) in
           bind_res (set_sub_res prev idx (btn_press button)) (\<lambda>prev'.
           bind_res (at_res notes idx) (\<lambda>note.
             Inr (Some (make_event event_type (out_channel m) note (velocity event_type)),
                  btn_press button, prev')))))"

definition process_HID_input_encoder ::
    "io_mapper \<Rightarrow> encoder_event \<Rightarrow> byte list \<Rightarrow> byte list \<Rightarrow>
     (midi_event option \<times> byte list) res" where
  "process_HID_input_encoder m encoder controllers prev =
     (let idx = unat (enc_index encoder) in
      bind_res (scale_byte (uint (enc_value encoder)) (uint FADERS_MAX) (uint MIDI_MAX)) (\<lambda>val.
      bind_res (at_res prev idx) (\<lambda>old.
        if val = old then Inr (None, prev)
        else bind_res (set_at_res prev idx val) (\<lambda>prev'.
             bind_res (at_res controllers idx) (\<lambda>controller.
               Inr (Some (make_event CONTROL_CHANGE (out_channel m) controller val), prev'))))))"

definition button_light_matrix_HID ::
    "io_mapper \<Rightarrow> output_state \<Rightarrow> byte \<Rightarrow> bool \<Rightarrow> output_state res" where
  "button_light_matrix_HID m output idx on =
     bind_res (at_res (mode_matrix m) (unat idx)) (\<lambda>mode.
     if mode \<noteq> HID then Inr output
     else let brightness = (if on then brightness_high_color m else brightness_low_color m) in
       bind_res (at_res (matrix_colors m) (unat idx)) (\<lambda>(orig_b, orig_r, orig_g).
       bind_res (lround_byte (fl 53 (brightness * of_int (uint orig_r)))) (\<lambda>r.
       bind_res (lround_byte (fl 53 (brightness * of_int (uint orig_g)))) (\<lambda>g.
       bind_res (lround_byte (fl 53 (brightness * of_int (uint orig_b)))) (\<lambda>b.
       bind_res (set_at_res (os_matrix output) (unat idx) (rgb2color r g b)) (\<lambda>matrix.
         Inr (output\<lparr>os_matrix := matrix\<rparr>)))))))"

definition button_light_special_HID ::
    "io_mapper \<Rightarrow> output_state \<Rightarrow> byte \<Rightarrow> bool \<Rightarrow> output_state res" where
  "button_light_special_HID m output idx on =
     bind_res (at_res (mode_special m) (unat idx)) (\<lambda>mode.
     if mode \<noteq> HID then Inr output
     else bind_res (set_at_res (os_special output) (unat idx)
            (if on then brightness_high m else brightness_low m)) (\<lambda>special.
          Inr (output\<lparr>os_special := special\<rparr>)))"

definition button_light_stop_HID ::
    "io_mapper \<Rightarrow> output_state \<Rightarrow> byte \<Rightarrow> bool \<Rightarrow> output_state res" where
  "button_light_stop_HID m output idx on =
     bind_res (at_res (mode_stop m) (unat idx)) (\<lambda>mode.
     if mode \<noteq> HID then Inr output
     else bind_res (set_at_res (os_stop output) (unat idx)
            (if on then brightness_high m else brightness_low m)) (\<lambda>stop.
          Inr (output\<lparr>os_stop := stop\<rparr>)))"

text \<open>\<open>std::get\<close> of the event's variant.\<close>

definition get_button :: "input_event \<Rightarrow> button_event res" where
  "get_button ev = (case ie_data ev of Button_data b \<Rightarrow> Inr b | _ \<Rightarrow> Inl Bad_variant)"

definition get_encoder :: "input_event \<Rightarrow> encoder_event res" where
  "get_encoder ev = (case ie_data ev of Encoder_data e \<Rightarrow> Inr e | _ \<Rightarrow> Inl Bad_variant)"

definition get_wheel :: "input_event \<Rightarrow> wheel_event res" where
  "get_wheel ev = (case ie_data ev of Wheel_data w \<Rightarrow> Inr w | _ \<Rightarrow> Inl Bad_variant)"

text \<open>The six specialisations of \<open>process_HID_input_impl\<close>.\<close>

type_synonym hid_result = "(midi_event option \<times> io_mapper \<times> output_state) res"

definition process_HID_matrix :: "io_mapper \<Rightarrow> input_event \<Rightarrow> output_state \<Rightarrow> hid_result" where
  "process_HID_matrix m ev output =
     bind_res (get_button ev) (\<lambda>button.
     bind_res (process_HID_input_button m button (toggle_matrix m) (notes_matrix m) (last_matrix m))
       (\<lambda>(midi, on, prev).
     bind_res (if midi \<noteq> None then button_light_matrix_HID m output (btn_index button) on else Inr output)
       (\<lambda>output'. Inr (midi, m\<lparr>last_matrix := prev\<rparr>, output'))))"

definition process_HID_special :: "io_mapper \<Rightarrow> input_event \<Rightarrow> output_state \<Rightarrow> hid_result" where
  "process_HID_special m ev output =
     bind_res (get_button ev) (\<lambda>button.
     bind_res (process_HID_input_button m button (toggle_special m) (notes_special m) (last_special m))
       (\<lambda>(midi, on, prev).
     bind_res (if midi \<noteq> None then button_light_special_HID m output (btn_index button) on else Inr output)
       (\<lambda>output'. Inr (midi, m\<lparr>last_special := prev\<rparr>, output'))))"

definition process_HID_stop :: "io_mapper \<Rightarrow> input_event \<Rightarrow> output_state \<Rightarrow> hid_result" where
  "process_HID_stop m ev output =
     bind_res (get_button ev) (\<lambda>button.
     bind_res (process_HID_input_button m button (toggle_stop m) (notes_stop m) (last_stop m))
       (\<lambda>(midi, on, prev).
     bind_res (if midi \<noteq> None then button_light_stop_HID m output (btn_index button) on else Inr output)
       (\<lambda>output'. Inr (midi, m\<lparr>last_stop := prev\<rparr>, output'))))"

definition process_HID_fader :: "io_mapper \<Rightarrow> input_event \<Rightarrow> output_state \<Rightarrow> hid_result" where
  "process_HID_fader m ev output =
     bind_res (get_encoder ev) (\<lambda>encoder.
     bind_res (process_HID_input_encoder m encoder (ctl_faders m) (last_fader m)) (\<lambda>(midi, prev).
       Inr (midi, m\<lparr>last_fader := prev\<rparr>, output)))"

definition process_HID_knob :: "io_mapper \<Rightarrow> input_event \<Rightarrow> output_state \<Rightarrow> hid_result" where
  "process_HID_knob m ev output =
     bind_res (get_encoder ev) (\<lambda>encoder.
     bind_res (process_HID_input_encoder m encoder (ctl_knobs m) (last_knob m)) (\<lambda>(midi, prev).
       Inr (midi, m\<lparr>last_knob := prev\<rparr>, output)))"

definition process_HID_wheel :: "io_mapper \<Rightarrow> input_event \<Rightarrow> output_state \<Rightarrow> hid_result" where
  "process_HID_wheel m ev output =
     bind_res (get_wheel ev) (\<lambda>wheel.
       Inr (Some (make_event CONTROL_CHANGE (out_channel m) (ctl_wheel m)
              (if 0 < sint (whl_direction wheel) then wheel_inc_value m else wheel_dec_value m)),
            m, output))"

definition process_HID_input :: "io_mapper \<Rightarrow> input_event \<Rightarrow> output_state \<Rightarrow> hid_result" where
  "process_HID_input m ev output =
     (let et = ie_event_type ev; it = ie_input_type ev in
      if et = BUTTON \<and> it = MATRIX then process_HID_matrix m ev output
      else if et = BUTTON \<and> it = SPECIAL then process_HID_special m ev output
      else if et = BUTTON \<and> it = STOP then process_HID_stop m ev output
      else if et = ENCODER \<and> it = FADER then process_HID_fader m ev output
      else if et = ENCODER \<and> it = KNOB then process_HID_knob m ev output
      else if et = ENCODER \<and> it = WHEEL then process_HID_wheel m ev output
      else Inr (None, m, output))"

section \<open>MIDI events\<close>

text \<open>
  The overloads for brightness arrays (which no caller uses) and for color arrays.  Each
  returns whether it changed the output, and the output array.
\<close>

definition process_MIDI_event_CC_brightness ::
    "io_mapper \<Rightarrow> midi_event \<Rightarrow> byte list \<Rightarrow> nat \<Rightarrow> byte list \<Rightarrow> (bool \<times> byte list) res" where
  "process_MIDI_event_CC_brightness m event output idx controllers =
     (if ev_type event \<noteq> CONTROL_CHANGE then Inr (False, output)
      else bind_res (at_res controllers idx) (\<lambda>controller.
        if ev_raw0 event \<noteq> controller then Inr (False, output)
        else bind_res (scale_byte (uint (ev_raw1 event)) (uint MIDI_MAX) (uint FULL_BRIGHTNESS)) (\<lambda>b.
             bind_res (set_at_res output idx b) (\<lambda>output'. Inr (True, output')))))"

definition process_MIDI_event_CC_color ::
    "io_mapper \<Rightarrow> midi_event \<Rightarrow> button_color list \<Rightarrow> nat \<Rightarrow> byte list \<Rightarrow> (bool \<times> button_color list) res" where
  "process_MIDI_event_CC_color m event output idx controllers =
     (if ev_type event \<noteq> CONTROL_CHANGE then Inr (False, output)
      else bind_res (at_res controllers idx) (\<lambda>controller.
        if ev_raw0 event \<noteq> controller then Inr (False, output)
        else let brightness = scale_double (uint (ev_raw1 event)) (uint MIDI_MAX) 1 in
          bind_res (at_res (matrix_colors m) idx) (\<lambda>color.
          case color2rgb color of (o_r, o_g, o_b) \<Rightarrow>
            bind_res (cast_byte (fl 53 (brightness * of_int (uint o_r)))) (\<lambda>r.
            bind_res (cast_byte (fl 53 (brightness * of_int (uint o_g)))) (\<lambda>g.
            bind_res (cast_byte (fl 53 (brightness * of_int (uint o_b)))) (\<lambda>b.
            bind_res (set_at_res output idx (rgb2color r g b)) (\<lambda>output'. Inr (True, output'))))))))"

definition process_MIDI_event_note_brightness ::
    "io_mapper \<Rightarrow> midi_event \<Rightarrow> byte list \<Rightarrow> nat \<Rightarrow> byte list \<Rightarrow> (bool \<times> byte list) res" where
  "process_MIDI_event_note_brightness m event output idx notes =
     (if ev_type event \<noteq> NOTE_ON \<and> ev_type event \<noteq> NOTE_OFF then Inr (False, output)
      else bind_res (at_res notes idx) (\<lambda>note.
        if ev_raw0 event \<noteq> note then Inr (False, output)
        else bind_res (set_at_res output idx
               (if ev_type event = NOTE_ON then brightness_high m else brightness_low m))
             (\<lambda>output'. Inr (True, output'))))"

definition process_MIDI_event_note_color ::
    "io_mapper \<Rightarrow> midi_event \<Rightarrow> button_color list \<Rightarrow> nat \<Rightarrow> byte list \<Rightarrow> (bool \<times> button_color list) res" where
  "process_MIDI_event_note_color m event output idx notes =
     (if ev_type event \<noteq> NOTE_ON \<and> ev_type event \<noteq> NOTE_OFF then Inr (False, output)
      else bind_res (at_res notes idx) (\<lambda>note.
        if ev_raw0 event \<noteq> note then Inr (False, output)
        else let brightness = (if ev_type event = NOTE_ON then brightness_high_color m
                               else brightness_low_color m) in
          bind_res (at_res (matrix_colors m) idx) (\<lambda>color.
          case color2rgb color of (o_r, o_g, o_b) \<Rightarrow>
            bind_res (cast_byte (fl 24 (brightness * of_int (uint o_r)))) (\<lambda>r.
            bind_res (cast_byte (fl 24 (brightness * of_int (uint o_g)))) (\<lambda>g.
            bind_res (cast_byte (fl 24 (brightness * of_int (uint o_b)))) (\<lambda>b.
            bind_res (set_at_res output idx (rgb2color r g b)) (\<lambda>output'. Inr (True, output'))))))))"

text \<open>One turn of the loop over the matrix buttons.\<close>

definition process_MIDI_button ::
    "io_mapper \<Rightarrow> midi_event \<Rightarrow> nat \<Rightarrow> bool \<times> output_state \<Rightarrow> (bool \<times> output_state) res" where
  "process_MIDI_button m event i st = (case st of (changed, output) \<Rightarrow>
     bind_res (at_res (mode_matrix m) i) (\<lambda>mode.
       if mode = HID then Inr (changed, output)
       else bind_res (case mode of
              MIDI_CC \<Rightarrow> process_MIDI_event_CC_color m event (os_matrix output) i (bctl_matrix m)
            | MIDI_NOTE \<Rightarrow> process_MIDI_event_note_color m event (os_matrix output) i (notes_matrix m)
            | HID \<Rightarrow> Inl Assert_failed)
          (\<lambda>(c, matrix). Inr (changed \<or> c, output\<lparr>os_matrix := matrix\<rparr>))))"

definition process_MIDI_event :: "io_mapper \<Rightarrow> midi_event \<Rightarrow> output_state \<Rightarrow> (bool \<times> output_state) res" where
  "process_MIDI_event m event output =
     (if ev_channel event \<noteq> in_channel m then Inr (False, output)
      else fold_res (process_MIDI_button m event) [0..<MATRIX_BUTTONS_NUM] (False, output))"

section \<open>Levels stay in range\<close>

lemma fl_scaled:
  assumes "0 \<le> b" "b \<le> 1 + 1 / 2 ^ 20" "c < 128" "24 \<le> p"
  shows "0 \<le> fl p (b * of_nat c) \<and> fl p (b * of_nat c) < of_nat c + 1 / 2"
proof -
  have x: "0 \<le> b * of_nat c" using assms(1) by simp
  have "of_nat c \<le> (of_nat 127 :: rat)" using assms(3) by (simp only: of_nat_le_iff)
  then have c: "(of_nat c :: rat) \<le> 127" by simp
  have "b * of_nat c \<le> (1 + 1 / 2 ^ 20) * of_nat c"
    using assms(2) by (rule mult_right_mono) simp
  also have "\<dots> \<le> of_nat c + 127 / 2 ^ 20" using c by (simp add: distrib_right)
  finally have hi: "b * of_nat c \<le> of_nat c + 127 / 2 ^ 20" by simp
  have "(2 :: rat) ^ 24 \<le> 2 ^ p" using assms(4) by (rule power_increasing) simp
  then have "b * of_nat c / 2 ^ p \<le> b * of_nat c / 2 ^ 24" using x by (intro divide_left_mono) auto
  also have "\<dots> \<le> 128 / 2 ^ 24" using hi c by simp
  finally have err: "\<bar>fl p (b * of_nat c) - b * of_nat c\<bar> \<le> 128 / 2 ^ 24"
    using fl_error [of p "b * of_nat c"] unfolding abs_of_nonneg [OF x] by linarith
  have "(128 / 2 ^ 24 + 127 / 2 ^ 20 :: rat) < 1 / 2" by simp
  with err hi have "fl p (b * of_nat c) < of_nat c + 1 / 2" unfolding abs_le_iff by linarith
  then show ?thesis using fl_nonneg [OF x, of p] assms(4) by simp
qed

lemma cast_byte_scaled:
  assumes "0 \<le> b" "b \<le> 1 + 1 / 2 ^ 20" "c < 128" "24 \<le> p"
  shows "\<exists>v. cast_byte (fl p (b * of_nat c)) = Inr v \<and> unat v \<le> c"
proof -
  define x where "x = fl p (b * of_nat c)"
  have x: "0 \<le> x" "x < of_nat c + 1" using fl_scaled [OF assms] by (auto simp: x_def)
  have "(of_nat c :: rat) < 128" using assms(3) by simp
  then have "x < 256" using x by simp
  then have "cast_byte x = Inr (word_of_int \<lfloor>x\<rfloor>)" by (rule cast_byte_nonneg [OF x(1)])
  moreover have n: "0 \<le> \<lfloor>x\<rfloor>" "\<lfloor>x\<rfloor> \<le> int c" using x by (auto simp: floor_le_iff)
  have "\<lfloor>x\<rfloor> mod 256 = \<lfloor>x\<rfloor>" by (rule mod_pos_pos_trivial) (use n assms(3) in linarith)+
  with n have "unat (word_of_int \<lfloor>x\<rfloor> :: byte) \<le> c"
    using assms(3) by (simp add: unat_eq_nat_uint uint_word_of_int nat_le_iff)
  ultimately show ?thesis by (auto simp: x_def)
qed

lemma lround_byte_scaled:
  assumes "0 \<le> b" "b \<le> 1 + 1 / 2 ^ 20" "c < 128" "24 \<le> p"
  shows "\<exists>v. lround_byte (fl p (b * of_nat c)) = Inr v \<and> unat v \<le> c"
proof -
  define x where "x = fl p (b * of_nat c)"
  have x: "0 \<le> x" "x < of_nat c + 1 / 2" using fl_scaled [OF assms] by (auto simp: x_def)
  have "(of_nat c :: rat) < 128" using assms(3) by simp
  then have "x < 256" using x by simp
  then have "lround_byte x = Inr (word_of_int \<lfloor>x + 1 / 2\<rfloor>)" by (rule lround_byte_nonneg [OF x(1)])
  moreover have n: "0 \<le> \<lfloor>x + 1 / 2\<rfloor>" "\<lfloor>x + 1 / 2\<rfloor> \<le> int c" using x by (auto simp: floor_le_iff le_floor_iff)
  have "\<lfloor>x + 1 / 2\<rfloor> mod 256 = \<lfloor>x + 1 / 2\<rfloor>" by (rule mod_pos_pos_trivial) (use n assms(3) in linarith)+
  with n have "unat (word_of_int \<lfloor>x + 1 / 2\<rfloor> :: byte) \<le> c"
    using assms(3) by (simp add: unat_eq_nat_uint uint_word_of_int nat_le_iff)
  ultimately show ?thesis by (auto simp: x_def)
qed

lemma scale_double_unit:
  assumes "0 \<le> v" "v \<le> 127"
  shows "0 \<le> scale_double v 127 1 \<and> scale_double v 127 1 \<le> 1 + 1 / 2 ^ 20"
proof -
  have v: "(of_int v :: rat) * 1 / of_int 127 \<le> 1" using assms by simp
  have "\<bar>scale_double v 127 1 - of_int v * 1 / of_int 127\<bar> \<le> 3 / 2 ^ 53 * (of_int v * 1 / of_int 127)"
    by (rule scale_double_error(1)) (use assms in auto)
  also have "\<dots> \<le> 3 / 2 ^ 53" using mult_left_mono [OF v, of "3 / 2 ^ 53"] by simp
  finally have "scale_double v 127 1 \<le> of_int v * 1 / of_int 127 + 3 / 2 ^ 53"
    unfolding abs_le_iff by linarith
  moreover have "(3 / 2 ^ 53 :: rat) \<le> 1 / 2 ^ 20" by simp
  ultimately show ?thesis using v scale_double_error(2) [of 1 127 v] assms(1) by simp
qed

lemma scale_double_raw:
  "unat (ev_raw1 e) < 128 \<Longrightarrow> 0 \<le> scale_double (uint (ev_raw1 e)) 127 1 \<and>
    scale_double (uint (ev_raw1 e)) 127 1 \<le> 1 + 1 / 2 ^ 20"
  using uint_of_unat [of "ev_raw1 e"] by (intro scale_double_unit) linarith+

text \<open>A configuration whose MIDI numbers have seven bits and whose brightness is in range.\<close>

definition seven_bit :: "byte list \<Rightarrow> bool" where
  "seven_bit bs \<longleftrightarrow> list_all (\<lambda>b. unat b < 128) bs"

definition good_config :: "io_mapper \<Rightarrow> bool" where
  "good_config m \<longleftrightarrow> wf_mapper m \<and> seven_bit (notes_matrix m) \<and> seven_bit (notes_special m) \<and>
     seven_bit (notes_stop m) \<and> seven_bit (ctl_knobs m) \<and> seven_bit (ctl_faders m) \<and>
     seven_bit [ctl_wheel m, wheel_dec_value m, wheel_inc_value m, brightness_low m, brightness_high m,
       note_on_velocity m, note_off_velocity m] \<and>
     list_all dim_color (matrix_colors m) \<and> unat (out_channel m) < 16 \<and> unat (in_channel m) < 16 \<and>
     0 \<le> brightness_low_color m \<and> brightness_low_color m \<le> 1 \<and>
     0 \<le> brightness_high_color m \<and> brightness_high_color m \<le> 1"

lemma good_default_mapper: "good_config default_mapper"
  by code_simp

lemma seven_bit_nth: "seven_bit bs \<Longrightarrow> i < length bs \<Longrightarrow> unat (bs ! i) < 128"
  by (simp add: seven_bit_def list_all_length)

lemma below_max_brightness: "b < MAX_BRIGHTNESS \<longleftrightarrow> unat b < 128"
  by (simp add: MAX_BRIGHTNESS_def word_less_nat_alt)

lemma dim_color_unat: "dim_color (b, r, g) \<longleftrightarrow> unat b < 128 \<and> unat r < 128 \<and> unat g < 128"
  by (simp add: dim_color_def below_max_brightness)

section \<open>What every event does\<close>

definition event_ok :: "input_event \<Rightarrow> bool" where
  "event_ok ev \<longleftrightarrow> (case ie_data ev of
     Button_data b \<Rightarrow> ie_event_type ev = BUTTON \<and>
       (ie_input_type ev = MATRIX \<and> unat (btn_index b) < 16 \<or>
        ie_input_type ev = SPECIAL \<and> unat (btn_index b) < 9 \<or>
        ie_input_type ev = STOP \<and> unat (btn_index b) < 4)
   | Encoder_data e \<Rightarrow> ie_event_type ev = ENCODER \<and>
       (ie_input_type ev = KNOB \<or> ie_input_type ev = FADER) \<and>
       unat (enc_index e) < 4 \<and> unat (enc_value e) \<le> 4095
   | Wheel_data w \<Rightarrow> ie_event_type ev = ENCODER \<and> ie_input_type ev = WHEEL)"

lemma good_configD:
  assumes "good_config m"
  shows "wf_mapper m" "seven_bit (notes_matrix m)" "seven_bit (notes_special m)" "seven_bit (notes_stop m)"
    "seven_bit (ctl_knobs m)" "seven_bit (ctl_faders m)" "unat (ctl_wheel m) < 128"
    "unat (wheel_dec_value m) < 128" "unat (wheel_inc_value m) < 128"
    "unat (brightness_low m) < 128" "unat (brightness_high m) < 128"
    "unat (note_on_velocity m) < 128" "unat (note_off_velocity m) < 128"
    "unat (out_channel m) < 16" "0 \<le> brightness_low_color m" "brightness_low_color m \<le> 1"
    "0 \<le> brightness_high_color m" "brightness_high_color m \<le> 1"
    "list_all dim_color (matrix_colors m)"
  using assms by (simp_all add: good_config_def seven_bit_def)

lemma wire_event_make [simp]:
  "wire_event (make_event t ch d1 d2) \<longleftrightarrow>
     t \<noteq> SYSTEM_MESSAGE \<and> unat ch < 16 \<and> unat d1 < 128 \<and> unat d2 < 128"
  by (simp add: wire_event_def)

text \<open>A button of a valid group: what is emitted, whether its light is on, and what is remembered.\<close>

definition button_reaction ::
    "io_mapper \<Rightarrow> bool \<Rightarrow> bool \<Rightarrow> byte \<Rightarrow> bool \<Rightarrow> (midi_event option \<times> bool \<times> bool)" where
  "button_reaction m toggle was_on note press =
     (if toggle \<and> \<not> press then (None, False, was_on)
      else let on = (if toggle then \<not> was_on else press) in
        (Some (make_event (if on then NOTE_ON else NOTE_OFF) (out_channel m) note
           (if on then note_on_velocity m else note_off_velocity m)), on, on))"

lemma process_HID_input_button_eq:
  assumes "unat (btn_index b) < n" "length toggle = n" "length notes = n" "length prev = n"
  shows "process_HID_input_button m b toggle notes prev =
    (let i = unat (btn_index b) in
     case button_reaction m (toggle ! i) (prev ! i) (notes ! i) (btn_press b) of
       (midi, on, remembered) \<Rightarrow> Inr (midi, on, prev[i := remembered]))"
  using assms by (simp add: process_HID_input_button_def button_reaction_def Let_def)

lemma button_reaction_wire:
  assumes "good_config m" "unat note < 128" "button_reaction m toggle was_on note press = (Some e, on, r)"
  shows "wire_event e"
  using assms good_configD [OF assms(1)]
  by (auto simp: button_reaction_def Let_def split: if_splits)

lemma button_light_matrix_ok:
  assumes "good_config m" "wf_output st" "dim_output st" "unat i < 16"
  shows "\<exists>c. dim_color c \<and> button_light_matrix_HID m st i on =
    Inr (if mode_matrix m ! unat i = HID then st\<lparr>os_matrix := (os_matrix st)[unat i := c]\<rparr> else st)"
proof -
  note g = good_configD [OF assms(1)]
  obtain b r g' where c: "matrix_colors m ! unat i = (b, r, g')" by (cases "matrix_colors m ! unat i") auto
  define br where "br = (if on then brightness_high_color m else brightness_low_color m)"
  have br: "0 \<le> br" "br \<le> 1 + 1 / 2 ^ 20" using g by (auto simp: br_def)
  have "dim_color (b, r, g')"
    using g assms(4) c by (metis list_all_length wf_mapper_def)
  then have lt: "unat b < 128" "unat r < 128" "unat g' < 128" by (simp_all add: dim_color_unat)
  obtain vb vr vg where v: "lround_byte (fl 53 (br * of_nat (unat b))) = Inr vb" "unat vb \<le> unat b"
    "lround_byte (fl 53 (br * of_nat (unat r))) = Inr vr" "unat vr \<le> unat r"
    "lround_byte (fl 53 (br * of_nat (unat g'))) = Inr vg" "unat vg \<le> unat g'"
    using lround_byte_scaled [OF br lt(1), of 53] lround_byte_scaled [OF br lt(2), of 53]
      lround_byte_scaled [OF br lt(3), of 53] by auto
  have "dim_color (rgb2color vr vg vb)" using lt v by (simp add: rgb2color_def dim_color_unat)
  moreover have "length (mode_matrix m) = 16" "length (matrix_colors m) = 16" "length (os_matrix st) = 16"
    using g(1) assms(2) by (auto simp: wf_mapper_def wf_output_def)
  ultimately show ?thesis
    using assms(4) v c
    by (intro exI [of _ "rgb2color vr vg vb"]) (simp add: button_light_matrix_HID_def br_def Let_def)
qed

lemma button_light_special_eq:
  assumes "wf_mapper m" "wf_output st" "unat i < 9"
  shows "button_light_special_HID m st i on = Inr (if mode_special m ! unat i = HID then
    st\<lparr>os_special := (os_special st)[unat i := if on then brightness_high m else brightness_low m]\<rparr> else st)"
  using assms by (simp add: button_light_special_HID_def wf_mapper_def wf_output_def)

lemma button_light_stop_eq:
  assumes "wf_mapper m" "wf_output st" "unat i < 4"
  shows "button_light_stop_HID m st i on = Inr (if mode_stop m ! unat i = HID then
    st\<lparr>os_stop := (os_stop st)[unat i := if on then brightness_high m else brightness_low m]\<rparr> else st)"
  using assms by (simp add: button_light_stop_HID_def wf_mapper_def wf_output_def)

lemma list_all_update:
  "list_all P xs \<Longrightarrow> P x \<Longrightarrow> list_all P (xs[i := x])"
  by (auto simp: list_all_iff dest: set_update_subset_insert [THEN subsetD])

lemma list_all_tl_update:
  "list_all P (tl xs) \<Longrightarrow> P x \<Longrightarrow> list_all P (tl (xs[i := x]))"
  by (cases xs; cases i) (auto intro: list_all_update)

lemma process_HID_input_encoder_eq:
  assumes "unat (enc_index e) < 4" "unat (enc_value e) \<le> 4095" "length controllers = 4" "length prev = 4"
  shows "process_HID_input_encoder m e controllers prev =
    (let i = unat (enc_index e); val = word_of_int ((254 * uint (enc_value e) + 4095) div 8190) in
     if val = prev ! i then Inr (None, prev)
     else Inr (Some (make_event CONTROL_CHANGE (out_channel m) (controllers ! i) val), prev[i := val]))"
proof -
  have "uint (enc_value e) \<le> 4095" using assms(2) uint_of_unat [of "enc_value e"] by linarith
  then have "scale_byte (uint (enc_value e)) 4095 127 =
      Inr (word_of_int ((2 * 127 * uint (enc_value e) + 4095) div (2 * 4095)))"
    by (intro scale_byte_eq) auto
  then show ?thesis
    using assms by (simp add: process_HID_input_encoder_def FADERS_MAX_def MIDI_MAX_def Let_def)
qed

lemma scaled_position_7bit:
  fixes v :: u16
  assumes "unat v \<le> 4095"
  shows "unat (word_of_int ((254 * uint v + 4095) div 8190) :: byte) < 128"
proof -
  have "uint v \<le> 4095" using assms uint_of_unat [of v] by linarith
  moreover have "0 \<le> uint v" by simp
  ultimately have "0 \<le> (254 * uint v + 4095) div 8190" "(254 * uint v + 4095) div 8190 < 128" by linarith+
  then have "uint (word_of_int ((254 * uint v + 4095) div 8190) :: byte) < 128"
    by (simp add: uint_word_of_int)
  then show ?thesis using uint_of_unat by (metis of_nat_less_iff of_nat_numeral)
qed

text \<open>What a step leaves: a good configuration and an output state within range.\<close>

definition io_ok :: "io_mapper \<Rightarrow> output_state \<Rightarrow> bool" where
  "io_ok m st \<longleftrightarrow> good_config m \<and> wf_output st \<and> dim_output st"

lemma io_ok_upds:
  assumes "io_ok m st"
  shows "length bs = 16 \<Longrightarrow> io_ok (m\<lparr>last_matrix := bs\<rparr>) st" "length bs = 9 \<Longrightarrow> io_ok (m\<lparr>last_special := bs\<rparr>) st"
    "length bs = 4 \<Longrightarrow> io_ok (m\<lparr>last_stop := bs\<rparr>) st" "length vs = 4 \<Longrightarrow> io_ok (m\<lparr>last_fader := vs\<rparr>) st"
    "length vs = 4 \<Longrightarrow> io_ok (m\<lparr>last_knob := vs\<rparr>) st"
    "dim_color c \<Longrightarrow> io_ok m (st\<lparr>os_matrix := (os_matrix st)[i := c]\<rparr>)"
    "unat b < 128 \<Longrightarrow> io_ok m (st\<lparr>os_special := (os_special st)[i := b]\<rparr>)"
    "unat b < 128 \<Longrightarrow> io_ok m (st\<lparr>os_stop := (os_stop st)[i := b]\<rparr>)"
  using assms
  by (auto simp: io_ok_def good_config_def wf_mapper_def wf_output_def dim_output_def
      below_max_brightness intro: list_all_update list_all_tl_update)

lemma button_group_ok:
  assumes "good_config m" "unat (btn_index b) < n" "length toggle = n" "length notes = n" "length prev = n"
    "seven_bit notes"
  shows "\<exists>midi on prev'. process_HID_input_button m b toggle notes prev = Inr (midi, on, prev') \<and>
    length prev' = n \<and> (\<forall>e. midi = Some e \<longrightarrow> wire_event e)"
proof -
  let ?i = "unat (btn_index b)"
  obtain midi on r where br: "button_reaction m (toggle ! ?i) (prev ! ?i) (notes ! ?i) (btn_press b) = (midi, on, r)"
    by (cases "button_reaction m (toggle ! ?i) (prev ! ?i) (notes ! ?i) (btn_press b)") auto
  have "unat (notes ! ?i) < 128" using assms by (simp add: seven_bit_nth)
  with button_reaction_wire [OF assms(1) this, of "toggle ! ?i" "prev ! ?i" "btn_press b"] br
  show ?thesis
    using assms by (simp add: process_HID_input_button_eq Let_def)
qed

lemma encoder_group_ok:
  assumes "good_config m" "unat (enc_index e) < 4" "unat (enc_value e) \<le> 4095" "length controllers = 4"
    "length prev = 4" "seven_bit controllers"
  shows "\<exists>midi prev'. process_HID_input_encoder m e controllers prev = Inr (midi, prev') \<and>
    length prev' = 4 \<and> (\<forall>ev. midi = Some ev \<longrightarrow> wire_event ev)"
  using assms good_configD [OF assms(1)] scaled_position_7bit [OF assms(3)] seven_bit_nth [OF assms(6)]
  by (simp add: process_HID_input_encoder_eq Let_def)

lemma process_HID_input_ok:
  assumes "io_ok m st" "event_ok ev"
  shows "\<exists>midi m' st'. process_HID_input m ev st = Inr (midi, m', st') \<and> io_ok m' st' \<and>
    (\<forall>e. midi = Some e \<longrightarrow> wire_event e)"
proof -
  have m: "good_config m" "wf_output st" "dim_output st" using assms(1) by (auto simp: io_ok_def)
  note g = good_configD [OF m(1)]
  note len = g(1) [unfolded wf_mapper_def]
  show ?thesis
  proof (cases "ie_data ev")
    case (Button_data b)
    then consider "ie_input_type ev = MATRIX" "unat (btn_index b) < 16"
      | "ie_input_type ev = SPECIAL" "unat (btn_index b) < 9"
      | "ie_input_type ev = STOP" "unat (btn_index b) < 4"
      using assms(2) by (auto simp: event_ok_def)
    then show ?thesis
    proof cases
      case 1
      obtain midi on prev' where p: "process_HID_input_button m b (toggle_matrix m) (notes_matrix m) (last_matrix m) = Inr (midi, on, prev')"
        "length prev' = 16" "\<forall>e. midi = Some e \<longrightarrow> wire_event e"
        using button_group_ok [OF m(1) 1(2), of "toggle_matrix m" "notes_matrix m" "last_matrix m"] g len by auto
      obtain c where c: "dim_color c" "button_light_matrix_HID m st (btn_index b) on =
        Inr (if mode_matrix m ! unat (btn_index b) = HID then st\<lparr>os_matrix := (os_matrix st)[unat (btn_index b) := c]\<rparr> else st)"
        using button_light_matrix_ok [OF m 1(2), of on] by auto
      have "io_ok m (st\<lparr>os_matrix := (os_matrix st)[unat (btn_index b) := c]\<rparr>)"
        by (rule io_ok_upds [OF assms(1)]) (rule c(1))
      then show ?thesis
        using 1 Button_data assms p c(2)
        by (auto simp: process_HID_input_def process_HID_matrix_def event_ok_def get_button_def intro: io_ok_upds)
    next
      case 2
      obtain midi on prev' where p: "process_HID_input_button m b (toggle_special m) (notes_special m) (last_special m) = Inr (midi, on, prev')"
        "length prev' = 9" "\<forall>e. midi = Some e \<longrightarrow> wire_event e"
        using button_group_ok [OF m(1) 2(2), of "toggle_special m" "notes_special m" "last_special m"] g len by auto
      show ?thesis
        using 2 Button_data assms p button_light_special_eq [OF g(1) m(2) 2(2), of on] g
        by (auto simp: process_HID_input_def process_HID_special_def event_ok_def get_button_def intro: io_ok_upds)
    next
      case 3
      obtain midi on prev' where p: "process_HID_input_button m b (toggle_stop m) (notes_stop m) (last_stop m) = Inr (midi, on, prev')"
        "length prev' = 4" "\<forall>e. midi = Some e \<longrightarrow> wire_event e"
        using button_group_ok [OF m(1) 3(2), of "toggle_stop m" "notes_stop m" "last_stop m"] g len by auto
      show ?thesis
        using 3 Button_data assms p button_light_stop_eq [OF g(1) m(2) 3(2), of on] g
        by (auto simp: process_HID_input_def process_HID_stop_def event_ok_def get_button_def intro: io_ok_upds)
    qed
  next
    case (Encoder_data e)
    then have e: "ie_event_type ev = ENCODER" "ie_input_type ev = KNOB \<or> ie_input_type ev = FADER"
      "unat (enc_index e) < 4" "unat (enc_value e) \<le> 4095"
      using assms(2) by (auto simp: event_ok_def)
    have "\<exists>midi prev'. process_HID_input_encoder m e (ctl_faders m) (last_fader m) = Inr (midi, prev') \<and>
        length prev' = 4 \<and> (\<forall>ev. midi = Some ev \<longrightarrow> wire_event ev)"
      "\<exists>midi prev'. process_HID_input_encoder m e (ctl_knobs m) (last_knob m) = Inr (midi, prev') \<and>
        length prev' = 4 \<and> (\<forall>ev. midi = Some ev \<longrightarrow> wire_event ev)"
      using encoder_group_ok [OF m(1) e(3, 4)] g len by auto
    then show ?thesis
      using e(1, 2) Encoder_data assms(1)
      by (auto simp: process_HID_input_def process_HID_fader_def process_HID_knob_def get_encoder_def intro: io_ok_upds)
  next
    case (Wheel_data w)
    then show ?thesis
      using assms g by (auto simp: process_HID_input_def process_HID_wheel_def event_ok_def get_wheel_def)
  qed
qed

text \<open>
  What a MIDI event does to the light of matrix button \<open>i\<close>: the button's color times a
  brightness, each component truncated.
\<close>

definition trunc_color :: "nat \<Rightarrow> rat \<Rightarrow> button_color \<Rightarrow> button_color" where
  "trunc_color p br c = (case c of (b, r, g) \<Rightarrow>
     let level = (\<lambda>x. word_of_int \<lfloor>fl p (br * of_int (uint x))\<rfloor> :: byte) in (level b, level r, level g))"

definition midi_light :: "io_mapper \<Rightarrow> midi_event \<Rightarrow> nat \<Rightarrow> button_color option" where
  "midi_light m ev i =
     (if mode_matrix m ! i = MIDI_CC \<and> ev_type ev = CONTROL_CHANGE \<and> ev_raw0 ev = bctl_matrix m ! i
      then Some (trunc_color 53 (scale_double (uint (ev_raw1 ev)) 127 1) (matrix_colors m ! i))
      else if mode_matrix m ! i = MIDI_NOTE \<and> (ev_type ev = NOTE_ON \<or> ev_type ev = NOTE_OFF) \<and>
        ev_raw0 ev = notes_matrix m ! i
      then Some (trunc_color 24 (if ev_type ev = NOTE_ON then brightness_high_color m
             else brightness_low_color m) (matrix_colors m ! i))
      else None)"

lemma cast_byte_level:
  fixes x :: byte
  assumes "0 \<le> br" "br \<le> 1 + 1 / 2 ^ 20" "24 \<le> p" "unat x < 128"
  shows "cast_byte (fl p (br * of_int (uint x))) = Inr (word_of_int \<lfloor>fl p (br * of_int (uint x))\<rfloor>)"
    and "unat (word_of_int \<lfloor>fl p (br * of_int (uint x))\<rfloor> :: byte) < 128"
proof -
  have u: "(of_int (uint x) :: rat) = of_nat (unat x)" by simp
  obtain v where v: "cast_byte (fl p (br * of_int (uint x))) = Inr v" "unat v \<le> unat x"
    using cast_byte_scaled [OF assms(1, 2, 4, 3)] unfolding u by blast
  have "0 \<le> fl p (br * of_int (uint x))" using fl_scaled [OF assms(1, 2, 4, 3)] unfolding u by blast
  with v(1) have "v = word_of_int \<lfloor>fl p (br * of_int (uint x))\<rfloor>"
    by (simp add: cast_byte_def Let_def del: of_int_uint split: if_splits)
  with v assms(4) show "cast_byte (fl p (br * of_int (uint x))) = Inr (word_of_int \<lfloor>fl p (br * of_int (uint x))\<rfloor>)"
    "unat (word_of_int \<lfloor>fl p (br * of_int (uint x))\<rfloor> :: byte) < 128" by (auto simp del: of_int_uint)
qed

lemma dim_trunc_color:
  assumes "0 \<le> br" "br \<le> 1 + 1 / 2 ^ 20" "24 \<le> p" "dim_color c"
  shows "dim_color (trunc_color p br c)"
  using assms cast_byte_level(2) [OF assms(1-3)]
  by (cases c) (simp add: trunc_color_def dim_color_unat Let_def del: of_int_uint)

lemma CC_color_eq:
  assumes "unat (ev_raw1 event) < 128" "i < length controllers" "i < length (matrix_colors m)"
    "i < length output" "dim_color (matrix_colors m ! i)"
  shows "process_MIDI_event_CC_color m event output i controllers =
    Inr (if ev_type event = CONTROL_CHANGE \<and> ev_raw0 event = controllers ! i
         then (True, output[i := trunc_color 53 (scale_double (uint (ev_raw1 event)) 127 1) (matrix_colors m ! i)])
         else (False, output))"
  using assms cast_byte_level(1) [OF _ _ _, of "scale_double (uint (ev_raw1 event)) 127 1" 53]
    scale_double_raw [of event]
  by (cases "matrix_colors m ! i")
     (simp add: process_MIDI_event_CC_color_def MIDI_MAX_def color2rgb_def rgb2color_def trunc_color_def
       dim_color_unat Let_def del: of_int_uint)

lemma note_color_eq:
  assumes "i < length notes" "i < length (matrix_colors m)" "i < length output"
    "dim_color (matrix_colors m ! i)" "good_config m"
  shows "process_MIDI_event_note_color m event output i notes =
    Inr (if (ev_type event = NOTE_ON \<or> ev_type event = NOTE_OFF) \<and> ev_raw0 event = notes ! i
         then (True, output[i := trunc_color 24 (if ev_type event = NOTE_ON then brightness_high_color m
             else brightness_low_color m) (matrix_colors m ! i)])
         else (False, output))"
proof -
  note g = good_configD [OF assms(5)]
  have small: "(1 :: rat) \<le> 1 + 1 / 2 ^ 20" by simp
  note high = cast_byte_level(1) [OF g(17) order.trans [OF g(18) small], of 24]
  note low = cast_byte_level(1) [OF g(15) order.trans [OF g(16) small], of 24]
  show ?thesis
    using assms high low
    by (cases "matrix_colors m ! i")
       (simp add: process_MIDI_event_note_color_def color2rgb_def rgb2color_def trunc_color_def
         dim_color_unat Let_def del: of_int_uint)
qed

lemma process_MIDI_button_eq:
  assumes "good_config m" "wf_output st" "unat (ev_raw1 event) < 128" "i < 16"
  shows "process_MIDI_button m event i (changed, st) = Inr (case midi_light m event i of
      None \<Rightarrow> (changed, st) | Some c \<Rightarrow> (True, st\<lparr>os_matrix := (os_matrix st)[i := c]\<rparr>))"
proof -
  note g = good_configD [OF assms(1)]
  have len: "length (mode_matrix m) = 16" "length (bctl_matrix m) = 16" "length (notes_matrix m) = 16"
    "length (matrix_colors m) = 16" "length (os_matrix st) = 16"
    using g(1) assms(2) by (auto simp: wf_mapper_def wf_output_def)
  have dim: "dim_color (matrix_colors m ! i)" using g(19) len assms(4) by (simp add: list_all_length)
  show ?thesis
    using assms(4) len CC_color_eq [OF assms(3) _ _ _ dim] note_color_eq [OF _ _ _ dim assms(1)]
    by (cases "mode_matrix m ! i") (auto simp: process_MIDI_button_def midi_light_def)
qed

lemma dim_midi_light:
  assumes "good_config m" "unat (ev_raw1 event) < 128" "i < 16" "midi_light m event i = Some c"
  shows "dim_color c"
proof -
  note g = good_configD [OF assms(1)]
  have dim: "dim_color (matrix_colors m ! i)"
    using g(1, 19) assms(3) by (simp add: list_all_length wf_mapper_def)
  show ?thesis
    using assms(4) dim_trunc_color [OF _ _ _ dim] scale_double_raw [of event] assms(2) g
    by (auto simp: midi_light_def split: if_splits)
qed

definition midi_lights :: "io_mapper \<Rightarrow> midi_event \<Rightarrow> nat \<Rightarrow> button_color list \<Rightarrow> button_color list" where
  "midi_lights m ev n cs = map (\<lambda>i. if i < n then (case midi_light m ev i of None \<Rightarrow> cs ! i | Some c \<Rightarrow> c)
     else cs ! i) [0..<16]"

lemma process_MIDI_loop:
  assumes "good_config m" "wf_output st" "unat (ev_raw1 event) < 128" "n \<le> 16"
  shows "fold_res (process_MIDI_button m event) [0..<n] (False, st) =
    Inr (\<exists>i<n. midi_light m event i \<noteq> None, st\<lparr>os_matrix := midi_lights m event n (os_matrix st)\<rparr>)"
  using assms(4)
proof (induction n)
  case 0
  have "midi_lights m event 0 (os_matrix st) = os_matrix st"
    using assms(2) by (intro nth_equalityI) (auto simp: midi_lights_def wf_output_def)
  then show ?case by simp
next
  case (Suc n)
  have wf: "wf_output (st\<lparr>os_matrix := midi_lights m event n (os_matrix st)\<rparr>)"
    using assms(2) by (simp add: wf_output_def midi_lights_def)
  have none: "midi_light m event n = None \<Longrightarrow>
      midi_lights m event (Suc n) (os_matrix st) = midi_lights m event n (os_matrix st)"
    by (auto simp: midi_lights_def less_Suc_eq)
  have some: "midi_light m event n = Some c \<Longrightarrow>
      midi_lights m event (Suc n) (os_matrix st) = (midi_lights m event n (os_matrix st))[n := c]" for c
    using Suc.prems by (intro nth_equalityI) (auto simp: midi_lights_def nth_list_update less_Suc_eq)
  have ex: "(\<exists>i<Suc n. P i) \<longleftrightarrow> (\<exists>i<n. P i) \<or> P n" for P by (auto simp: less_Suc_eq)
  show ?case
    using Suc process_MIDI_button_eq [OF assms(1) wf assms(3)]
    by (auto simp: fold_res_append none some ex split: option.splits)
qed

lemma process_MIDI_event_eq:
  assumes "good_config m" "wf_output st" "unat (ev_raw1 event) < 128"
  shows "process_MIDI_event m event st =
    (if ev_channel event \<noteq> in_channel m then Inr (False, st)
     else Inr (\<exists>i<16. midi_light m event i \<noteq> None,
       st\<lparr>os_matrix := map (\<lambda>i. case midi_light m event i of None \<Rightarrow> os_matrix st ! i | Some c \<Rightarrow> c) [0..<16]\<rparr>))"
proof -
  have "midi_lights m event 16 (os_matrix st) =
      map (\<lambda>i. case midi_light m event i of None \<Rightarrow> os_matrix st ! i | Some c \<Rightarrow> c) [0..<16]"
    by (simp add: midi_lights_def)
  then show ?thesis
    using process_MIDI_loop [OF assms, of 16]
    by (simp add: process_MIDI_event_def MATRIX_BUTTONS_NUM_def)
qed

lemma process_MIDI_event_ok:
  assumes "io_ok m st" "unat (ev_raw1 event) < 128"
  shows "\<exists>changed st'. process_MIDI_event m event st = Inr (changed, st') \<and> io_ok m st'"
proof -
  have m: "good_config m" "wf_output st" "dim_output st" using assms(1) by (auto simp: io_ok_def)
  have "dim_color (case midi_light m event i of None \<Rightarrow> os_matrix st ! i | Some c \<Rightarrow> c)" if "i < 16" for i
    using dim_midi_light [OF m(1) assms(2) that] m that
    by (auto simp: dim_output_def wf_output_def list_all_length split: option.splits)
  then have "io_ok m (st\<lparr>os_matrix := map (\<lambda>i. case midi_light m event i of None \<Rightarrow> os_matrix st ! i | Some c \<Rightarrow> c) [0..<16]\<rparr>)"
    using m by (simp add: io_ok_def wf_output_def dim_output_def list_all_iff)
  then show ?thesis using process_MIDI_event_eq [OF m(1, 2) assms(2)] assms(1) by auto
qed

lemma layout_7bit:
  assumes "wf_output st" "dim_output st"
  shows "\<forall>b \<in> set (tl (report_layout st)). unat b < 128"
proof -
  have "\<forall>c \<in> set (os_matrix st). \<forall>x \<in> set (case c of (b, r, g) \<Rightarrow> [b, r, g]). unat x < 128"
    using assms(2) by (auto simp: dim_output_def list_all_iff dim_color_unat split: prod.splits)
  then show ?thesis
    using assms(2) unfolding dim_output_def list_all_iff below_max_brightness
    by (auto simp: report_layout_def)
qed

section \<open>Reachable states\<close>

text \<open>The states the driver's two event sources can bring mapper and output to.\<close>

inductive io_reachable :: "io_mapper \<Rightarrow> io_mapper \<Rightarrow> output_state \<Rightarrow> bool" for m0 where
  start: "io_reachable m0 m0 default_output"
| hid: "io_reachable m0 m st \<Longrightarrow> event_ok ev \<Longrightarrow> process_HID_input m ev st = Inr (midi, m', st') \<Longrightarrow>
    io_reachable m0 m' st'"
| midi: "io_reachable m0 m st \<Longrightarrow> unat (ev_raw1 e) < 128 \<Longrightarrow>
    process_MIDI_event m e st = Inr (changed, st') \<Longrightarrow> io_reachable m0 m st'"

lemma io_reachable_ok: "io_reachable m0 m st \<Longrightarrow> good_config m0 \<Longrightarrow> io_ok m st"
proof (induction rule: io_reachable.induct)
  case start
  then show ?case by (simp add: io_ok_def)
next
  case (hid m st ev midi m' st')
  then show ?case using process_HID_input_ok [of m st ev] by auto
next
  case (midi m st e changed st')
  then show ?case using process_MIDI_event_ok [of m st e] by auto
qed

section \<open>Properties\<close>

definition knob_event :: "byte \<Rightarrow> u16 \<Rightarrow> input_event" where
  "knob_event i v = \<lparr>ie_event_type = ENCODER, ie_input_type = KNOB,
     ie_data = Encoder_data \<lparr>enc_index = i, enc_value = v\<rparr>\<rparr>"

definition matrix_event :: "byte \<Rightarrow> bool \<Rightarrow> input_event" where
  "matrix_event i press = \<lparr>ie_event_type = BUTTON, ie_input_type = MATRIX,
     ie_data = Button_data \<lparr>btn_index = i, btn_press = press\<rparr>\<rparr>"



text \<open>C24: A knob or fader at a 12-bit position emits the position scaled to seven bits, computed by the
  floating-point code exactly as the integer rounding of 127 v / 4095, and only when that value
  differs from the last one emitted.\<close>

theorem encoder_scaling:
  assumes "unat (enc_index e) < 4" "unat (enc_value e) \<le> 4095" "length controllers = 4" "length prev = 4"
  shows "process_HID_input_encoder m e controllers prev =
    (let i = unat (enc_index e); val = word_of_int ((254 * uint (enc_value e) + 4095) div 8190) in
     if val = prev ! i then Inr (None, prev)
     else Inr (Some (make_event CONTROL_CHANGE (out_channel m) (controllers ! i) val), prev[i := val]))
    \<and> (254 * uint (enc_value e) + 4095) div 8190 \<le> 127"
proof -
  have "uint (enc_value e) \<le> 4095" using assms(2) uint_of_unat [of "enc_value e"] by linarith
  then have "(254 * uint (enc_value e) + 4095) div 8190 \<le> 127" by linarith
  then show ?thesis using process_HID_input_encoder_eq [OF assms] by simp
qed

lemma encoder_scaling_witness:
  "process_HID_input_encoder default_mapper \<lparr>enc_index = 1, enc_value = 2048\<rparr> [33, 34, 35, 36] [0, 0, 0, 0] =
     Inr (Some (make_event CONTROL_CHANGE 0 34 64), [0, 64, 0, 0])"
  using encoder_scaling [of "\<lparr>enc_index = 1, enc_value = 2048\<rparr>" "[33, 34, 35, 36]" "[0, 0, 0, 0]" default_mapper]
  by (simp add: Let_def default_mapper_def)

text \<open>A position above 0xfff, which the 16-bit field of a report can hold, is outside what the
  scaling is defined for: from 4112 on the value has more than seven bits, and at the top of the
  field the conversion to a byte is undefined.\<close>

theorem encoder_scaling_overflow:
  "scale_byte 4111 4095 127 = Inr 127 \<and> scale_byte 4112 4095 127 = Inr 128 \<and>
   scale_byte 0xffff 4095 127 = Inl Undefined_behaviour"
  by code_simp

text \<open>The events a run of presses and releases of one button emits, and the remembered bits.\<close>

definition button_run ::
    "io_mapper \<Rightarrow> byte \<Rightarrow> bool list \<Rightarrow> byte list \<Rightarrow> bool list \<Rightarrow> midi_event list \<times> bool list \<Rightarrow> (midi_event list \<times> bool list) res" where
  "button_run m i toggle notes presses st = fold_res (\<lambda>p (evs, prev).
     bind_res (process_HID_input_button m \<lparr>btn_index = i, btn_press = p\<rparr> toggle notes prev) (\<lambda>(midi, on, prev').
       Inr (evs @ (case midi of None \<Rightarrow> [] | Some e \<Rightarrow> [e]), prev'))) presses st"

definition button_note :: "io_mapper \<Rightarrow> byte \<Rightarrow> bool \<Rightarrow> midi_event" where
  "button_note m note on = make_event (if on then NOTE_ON else NOTE_OFF) (out_channel m) note
     (if on then note_on_velocity m else note_off_velocity m)"

lemma button_run_toggle:
  assumes "unat i < n" "length toggle = n" "length notes = n" "toggle ! unat i"
  shows "length prev = n \<Longrightarrow> button_run m i toggle notes presses (evs, prev) =
    Inr (evs @ map (\<lambda>k. button_note m (notes ! unat i) (prev ! unat i \<noteq> even k)) [0..<length (filter (\<lambda>p. p) presses)],
         prev[unat i := (prev ! unat i \<noteq> odd (length (filter (\<lambda>p. p) presses)))])"
proof (induction presses arbitrary: evs prev)
  case Nil
  then show ?case by (simp add: button_run_def)
next
  case (Cons p ps)
  show ?case
  proof (cases p)
    case True
    have "map (\<lambda>k. button_note m (notes ! unat i) (prev ! unat i \<noteq> even k)) [0..<Suc (length (filter (\<lambda>p. p) ps))] =
      button_note m (notes ! unat i) (\<not> prev ! unat i) #
      map (\<lambda>k. button_note m (notes ! unat i) ((\<not> prev ! unat i) \<noteq> even k)) [0..<length (filter (\<lambda>p. p) ps)]"
      by (subst upt_conv_Cons) (auto simp: map_Suc_upt [symmetric] simp del: upt_Suc)
    with True assms Cons.prems Cons.IH [of "prev[unat i := \<not> prev ! unat i]"
        "evs @ [button_note m (notes ! unat i) (\<not> prev ! unat i)]"]
    show ?thesis
      by (simp add: button_run_def process_HID_input_button_eq button_reaction_def Let_def button_note_def
          del: upt_Suc)
  next
    case False
    with assms Cons show ?thesis
      by (simp add: button_run_def process_HID_input_button_eq button_reaction_def Let_def)
  qed
qed

text \<open>C30: A toggle button answers its presses, alternately with note on and note off, and ignores its
  releases; the remembered state after any run is the initial one flipped once per press.\<close>

theorem toggle_alternates:
  assumes "unat i < n" "length toggle = n" "length notes = n" "length prev = n" "toggle ! unat i"
  shows "button_run m i toggle notes presses ([], prev) =
    Inr (map (\<lambda>k. button_note m (notes ! unat i) (prev ! unat i \<noteq> even k)) [0..<length (filter (\<lambda>p. p) presses)],
         prev[unat i := (prev ! unat i \<noteq> odd (length (filter (\<lambda>p. p) presses)))])"
  using button_run_toggle [OF assms(1-3, 5, 4), of m presses "[]"] by simp

lemma toggle_alternates_witness:
  "button_run default_mapper 1 [False, True] [60, 61] [True, False, True, False, True, False] ([], [False, False]) =
    Inr ([button_note default_mapper 61 True, button_note default_mapper 61 False, button_note default_mapper 61 True],
         [False, True])"
  using toggle_alternates [of 1 2 "[False, True]" "[60, 61]" "[False, False]" default_mapper "[True, False, True, False, True, False]"]
  by simp

text \<open>C31: A MIDI event on the input channel sets, of every matrix button that listens for it, the light
  to the button's color times the brightness, and reports a change exactly when one listens; an
  event on another channel changes nothing.  The stop and the special lights never react to MIDI,
  whatever mode they are configured to.\<close>

theorem midi_event_lights:
  assumes "good_config m" "wf_output st" "unat (ev_raw1 event) < 128"
  shows "process_MIDI_event m event st =
    (if ev_channel event \<noteq> in_channel m then Inr (False, st)
     else Inr (\<exists>i<16. midi_light m event i \<noteq> None,
       st\<lparr>os_matrix := map (\<lambda>i. case midi_light m event i of None \<Rightarrow> os_matrix st ! i | Some c \<Rightarrow> c) [0..<16]\<rparr>))"
  by (rule process_MIDI_event_eq [OF assms])

definition cc_mapper :: io_mapper where
  "cc_mapper = default_mapper\<lparr>mode_matrix := MIDI_CC # replicate 15 HID, mode_stop := replicate 4 MIDI_CC\<rparr>"

lemma midi_event_lights_witness:
  "process_MIDI_event cc_mapper (control_change 70 127 1) default_output =
    Inr (True, default_output\<lparr>os_matrix := WHITE # replicate 15 BLACK\<rparr>)"
proof -
  have "good_config cc_mapper" "wf_output default_output" "unat (ev_raw1 (control_change 70 127 1)) < 128"
    by (code_simp, simp, code_simp)
  note eq = midi_event_lights [OF this]
  show ?thesis unfolding eq by code_simp
qed

text \<open>Because a controller value is scaled to a factor first and the product truncated, a white
  button does not show the value it is sent: 17 gives 16, 68 gives 67, while the rounding
  overload for plain brightness gives 17 and 68.\<close>

theorem cc_brightness_truncates:
  "midi_light cc_mapper (control_change 70 17 1) 0 = Some (16, 16, 16) \<and>
   midi_light cc_mapper (control_change 70 68 1) 0 = Some (67, 67, 67) \<and>
   process_MIDI_event_CC_brightness cc_mapper (control_change 70 17 1) [0] 0 [70] = Inr (True, [17]) \<and>
   process_MIDI_event_CC_brightness cc_mapper (control_change 70 68 1) [0] 0 [70] = Inr (True, [68])"
  by code_simp

end
