(* ===== verification/Ringbuffer.thy ===== *)
theory Ringbuffer
  imports Jack_Ring
begin

text \<open>
  \<open>Ringbuffer<T>\<close> of \<open>driver/src/io/Ringbuffer.hpp\<close>: a queue of trivially copyable elements
  on top of a byte ring.  The element type is described by its size and its object
  representation (\<open>elem\<close>); the byte ring is the parameter \<open>ops\<close> of theory
  \<open>Jack_Ring\<close>.  A moved-from buffer has a null pointer (\<open>buf = None\<close>).

  The locale \<open>bounded_queue\<close> is the contract the clients of a \<open>Ringbuffer\<close> use;
  \<open>typed_ring\<close> (a ring that keeps its contract, with an element type that round-trips
  through its bytes) provides it.
\<close>

section \<open>Elements and buffers\<close>

record 'a elem =
  sizeof :: nat
  rep :: "'a \<Rightarrow> byte list"
  of_rep :: "byte list \<Rightarrow> 'a"

record 'rb ringbuffer =
  buf :: "'rb option"
  buf_size :: nat

definition size_mul :: "nat \<Rightarrow> nat \<Rightarrow> nat" where
  "size_mul a b = (a * b) mod 2 ^ 64"

text \<open>\<open>assert_invariants\<close>, handing the (non-null) ring to the continuation.\<close>

definition with_ring :: "'rb jack_rb \<Rightarrow> 'a elem \<Rightarrow> 'rb ringbuffer \<Rightarrow> ('rb \<Rightarrow> 'b res) \<Rightarrow> 'b res" where
  "with_ring ops el b k = (case buf b of
      None \<Rightarrow> Inl Assert_failed
    | Some r \<Rightarrow> bind_res (assert_res (rb_read_space ops r mod sizeof el = 0)) (\<lambda>_. k r))"

definition rbuf_init_buf :: "'rb jack_rb \<Rightarrow> 'a elem \<Rightarrow> nat \<Rightarrow> 'rb res" where
  "rbuf_init_buf ops el n = (case rb_create ops (size_mul n (sizeof el)) of
      None \<Rightarrow> Inl Bad_alloc | Some r \<Rightarrow> Inr r)"

definition rbuf_new :: "'rb jack_rb \<Rightarrow> 'a elem \<Rightarrow> nat \<Rightarrow> 'rb ringbuffer res" where
  "rbuf_new ops el n = bind_res (rbuf_init_buf ops el n) (\<lambda>r.
     let b = \<lparr>buf = Some r, buf_size = n\<rparr> in with_ring ops el b (\<lambda>_. Inr b))"

section \<open>Observers\<close>

definition rbuf_empty :: "'rb jack_rb \<Rightarrow> 'a elem \<Rightarrow> 'rb ringbuffer \<Rightarrow> bool res" where
  "rbuf_empty ops el b = with_ring ops el b (\<lambda>r. Inr (rb_read_space ops r < sizeof el))"

definition rbuf_full :: "'rb jack_rb \<Rightarrow> 'a elem \<Rightarrow> 'rb ringbuffer \<Rightarrow> bool res" where
  "rbuf_full ops el b = with_ring ops el b (\<lambda>r. Inr (rb_write_space ops r < sizeof el))"

definition rbuf_size :: "'rb jack_rb \<Rightarrow> 'a elem \<Rightarrow> 'rb ringbuffer \<Rightarrow> nat res" where
  "rbuf_size ops el b = with_ring ops el b (\<lambda>r. Inr (rb_read_space ops r div sizeof el))"

definition rbuf_capacity :: "'rb ringbuffer \<Rightarrow> nat" where
  "rbuf_capacity b = buf_size b"

section \<open>push and pop\<close>

definition rbuf_push :: "'rb jack_rb \<Rightarrow> 'a elem \<Rightarrow> 'rb ringbuffer \<Rightarrow> 'a \<Rightarrow> 'rb ringbuffer res" where
  "rbuf_push ops el b v = with_ring ops el b (\<lambda>r.
     bind_res (rbuf_full ops el b) (\<lambda>full.
     if full then Inl Out_of_range
     else case rb_write ops r (rep el v) of (r', n) \<Rightarrow>
       bind_res (assert_res (n = sizeof el)) (\<lambda>_.
       let b' = b\<lparr>buf := Some r'\<rparr> in with_ring ops el b' (\<lambda>_. Inr b'))))"

definition rbuf_pop :: "'rb jack_rb \<Rightarrow> 'a elem \<Rightarrow> 'rb ringbuffer \<Rightarrow> ('rb ringbuffer \<times> 'a) res" where
  "rbuf_pop ops el b = with_ring ops el b (\<lambda>r.
     bind_res (rbuf_empty ops el b) (\<lambda>empty.
     if empty then Inl Out_of_range
     else case rb_read ops r (sizeof el) of (r', bs) \<Rightarrow>
       bind_res (assert_res (length bs = sizeof el)) (\<lambda>_.
       let b' = b\<lparr>buf := Some r'\<rparr> in with_ring ops el b' (\<lambda>_. Inr (b', of_rep el bs)))))"

section \<open>Copy and move\<close>

definition seg_read :: "rb_segment \<Rightarrow> byte list res" where
  "seg_read s = (case those (seg_bytes s) of None \<Rightarrow> Inl Undefined_behaviour | Some bs \<Rightarrow> Inr bs)"

text \<open>\<open>copy_buf\<close>: write both segments of the source ring \<open>src\<close> into \<open>dst\<close>.\<close>

definition rbuf_copy_buf :: "'rb jack_rb \<Rightarrow> 'rb \<Rightarrow> 'rb \<Rightarrow> 'rb res" where
  "rbuf_copy_buf ops dst src = (case rb_get_read_vector ops src of (s0, s1) \<Rightarrow>
     if seg_len s0 = 0 then Inr dst
     else bind_res (seg_read s0) (\<lambda>bs0.
       case rb_write ops dst bs0 of (dst1, n0) \<Rightarrow>
       bind_res (assert_res (n0 = seg_len s0)) (\<lambda>_.
       if 0 < seg_len s1 then
         bind_res (seg_read s1) (\<lambda>bs1.
         case rb_write ops dst1 bs1 of (dst2, n1) \<Rightarrow>
         bind_res (assert_res (n1 = seg_len s1)) (\<lambda>_. Inr dst2))
       else Inr dst1)))"

definition rbuf_copy :: "'rb jack_rb \<Rightarrow> 'a elem \<Rightarrow> 'rb ringbuffer \<Rightarrow> 'rb ringbuffer res" where
  "rbuf_copy ops el src = bind_res (rbuf_init_buf ops el (buf_size src)) (\<lambda>r.
     case buf src of None \<Rightarrow> Inl Undefined_behaviour
     | Some s \<Rightarrow> bind_res (rbuf_copy_buf ops r s) (\<lambda>r'.
         let b = \<lparr>buf = Some r', buf_size = buf_size src\<rparr> in with_ring ops el b (\<lambda>_. Inr b)))"

text \<open>
  \<open>operator=(const Ringbuffer&)\<close>: the object left behind, and how the call ended.  When the
  allocation throws, the size is already the new one while the ring is still the old one.
\<close>

definition rbuf_copy_assign ::
    "'rb jack_rb \<Rightarrow> 'a elem \<Rightarrow> bool \<Rightarrow> 'rb ringbuffer \<Rightarrow> 'rb ringbuffer \<Rightarrow> 'rb ringbuffer \<times> unit res" where
  "rbuf_copy_assign ops el self this other =
     (if self then (this, Inr ())
      else let this1 = this\<lparr>buf_size := buf_size other\<rparr> in
        (case rbuf_init_buf ops el (buf_size other) of
           Inl e \<Rightarrow> (this1, Inl e)
         | Inr r \<Rightarrow> (case buf other of
             None \<Rightarrow> (this1\<lparr>buf := Some r\<rparr>, Inl Undefined_behaviour)
           | Some s \<Rightarrow> (case rbuf_copy_buf ops r s of
               Inl e \<Rightarrow> (this1\<lparr>buf := Some r\<rparr>, Inl e)
             | Inr r' \<Rightarrow> let this2 = this1\<lparr>buf := Some r'\<rparr>
                 in (this2, with_ring ops el this2 (\<lambda>_. Inr ()))))))"

text \<open>The move operations: the new object and what is left of the source.\<close>

definition rbuf_move ::
    "'rb jack_rb \<Rightarrow> 'a elem \<Rightarrow> 'rb ringbuffer \<Rightarrow> ('rb ringbuffer \<times> 'rb ringbuffer) res" where
  "rbuf_move ops el src =
     (let b = \<lparr>buf = buf src, buf_size = buf_size src\<rparr>
      in with_ring ops el b (\<lambda>_. Inr (b, src\<lparr>buf := None\<rparr>)))"

definition rbuf_move_assign :: "'rb ringbuffer \<Rightarrow> 'rb ringbuffer \<Rightarrow> 'rb ringbuffer \<times> 'rb ringbuffer" where
  "rbuf_move_assign this src =
     (this\<lparr>buf := buf src, buf_size := buf_size src\<rparr>, src\<lparr>buf := None\<rparr>)"

definition rbuf_data :: "'rb ringbuffer \<Rightarrow> 'rb option" where
  "rbuf_data b = buf b"

section \<open>Abstraction\<close>

text \<open>The buffer holds exactly the elements \<open>xs\<close>, oldest first.\<close>

definition rbuf_holds ::
    "('rb \<Rightarrow> bool) \<Rightarrow> ('rb \<Rightarrow> byte list) \<Rightarrow> 'a elem \<Rightarrow> 'rb ringbuffer \<Rightarrow> 'a list \<Rightarrow> bool" where
  "rbuf_holds rinv content el b xs \<longleftrightarrow>
     (\<exists>r. buf b = Some r \<and> rinv r \<and> content r = concat (map (rep el) xs))"

text \<open>How many more elements fit.\<close>

definition rbuf_room :: "'rb jack_rb \<Rightarrow> 'a elem \<Rightarrow> 'rb ringbuffer \<Rightarrow> nat" where
  "rbuf_room ops el b = (case buf b of None \<Rightarrow> 0 | Some r \<Rightarrow> rb_write_space ops r div sizeof el)"

lemma those_map_Some: "those (map Some xs) = Some xs"
  by (induction xs) simp_all

lemma div_minus_one: "0 < d \<Longrightarrow> d \<le> n \<Longrightarrow> (n - d) div d = n div d - (1::nat)"
  by (simp add: le_div_geq)

lemma div_plus_one: "0 < d \<Longrightarrow> (n + d) div d = Suc (n div (d::nat))"
  by (simp add: le_div_geq)

section \<open>The contract of a queue\<close>

text \<open>A consumer that takes \<open>n\<close> elements.\<close>

fun pop_many :: "('q \<Rightarrow> ('q \<times> 'a) res) \<Rightarrow> nat \<Rightarrow> 'q \<Rightarrow> ('q \<times> 'a list) res" where
  "pop_many pop 0 q = Inr (q, [])"
| "pop_many pop (Suc n) q = bind_res (pop q) (\<lambda>(q1, x).
     bind_res (pop_many pop n q1) (\<lambda>(q2, xs). Inr (q2, x # xs)))"

locale bounded_queue =
  fixes push :: "'q \<Rightarrow> 'a \<Rightarrow> 'q res"
    and pop :: "'q \<Rightarrow> ('q \<times> 'a) res"
    and is_empty :: "'q \<Rightarrow> bool res"
    and is_full :: "'q \<Rightarrow> bool res"
    and holds :: "'q \<Rightarrow> 'a list \<Rightarrow> bool"
    and room :: "'q \<Rightarrow> nat"
  assumes push_ok: "holds q xs \<Longrightarrow> 0 < room q \<Longrightarrow>
      \<exists>q'. push q x = Inr q' \<and> holds q' (xs @ [x]) \<and> room q' = room q - 1"
    and push_full: "holds q xs \<Longrightarrow> room q = 0 \<Longrightarrow> push q x = Inl Out_of_range"
    and pop_ok: "holds q (x # xs) \<Longrightarrow>
      \<exists>q'. pop q = Inr (q', x) \<and> holds q' xs \<and> room q' = Suc (room q)"
    and pop_empty: "holds q [] \<Longrightarrow> pop q = Inl Out_of_range"
    and empty_law: "holds q xs \<Longrightarrow> is_empty q = Inr (xs = [])"
    and full_law: "holds q xs \<Longrightarrow> is_full q = Inr (room q = 0)"
begin

lemma push_all:
  "holds q xs \<Longrightarrow> length ys \<le> room q \<Longrightarrow>
     \<exists>q'. fold_res (\<lambda>y q. push q y) ys q = Inr q' \<and> holds q' (xs @ ys) \<and>
          room q' = room q - length ys"
proof (induction ys arbitrary: q xs)
  case Nil
  then show ?case by simp
next
  case (Cons y ys)
  then obtain q1 where q1: "push q y = Inr q1" "holds q1 (xs @ [y])" "room q1 = room q - 1"
    using push_ok [of q xs y] by auto
  with Cons.IH [OF q1(2)] Cons.prems show ?case by auto
qed

lemma pop_many_holds:
  "holds q (ys @ xs) \<Longrightarrow> \<exists>q'. pop_many pop (length ys) q = Inr (q', ys) \<and> holds q' xs \<and>
     room q' = room q + length ys"
proof (induction ys arbitrary: q)
  case (Cons y ys)
  then obtain q1 where q1: "pop q = Inr (q1, y)" "holds q1 (ys @ xs)" "room q1 = Suc (room q)"
    using pop_ok [of q y "ys @ xs"] by auto
  with Cons.IH [OF q1(2)] show ?case by auto
qed simp

end

locale elem_codec =
  fixes el :: "'a elem"
  assumes size_pos: "0 < sizeof el"
    and rep_length: "length (rep el v) = sizeof el"
    and of_rep_rep: "of_rep el (rep el v) = v"
begin

lemma length_reps: "length (concat (map (rep el) xs)) = length xs * sizeof el"
  by (induction xs) (simp_all add: rep_length)

lemma reps_length_mod [simp]: "length (concat (map (rep el) xs)) mod sizeof el = 0"
  by (simp only: length_reps mod_mult_self2_is_0)

lemma reps_empty_iff [simp]: "length (concat (map (rep el) xs)) < sizeof el \<longleftrightarrow> xs = []"
  using size_pos by (cases xs) (simp_all add: rep_length)

end

locale typed_ring = jack_ring ops rinv content + elem_codec el
  for ops :: "'rb jack_rb" and rinv content and el :: "'a elem"
begin

lemma with_ring_Some:
  "rinv r \<Longrightarrow> content r = concat (map (rep el) xs) \<Longrightarrow> buf b = Some r \<Longrightarrow> with_ring ops el b k = k r"
  using read_space_law [of r] by (simp add: with_ring_def)

lemma holdsE:
  assumes "rbuf_holds rinv content el b xs"
  obtains r where "buf b = Some r" "rinv r" "content r = concat (map (rep el) xs)"
  using assms unfolding rbuf_holds_def by blast

lemma empty_eq: "rbuf_holds rinv content el b xs \<Longrightarrow> rbuf_empty ops el b = Inr (xs = [])"
  by (erule holdsE) (simp add: rbuf_empty_def with_ring_Some read_space_law)

lemma size_eq: "rbuf_holds rinv content el b xs \<Longrightarrow> rbuf_size ops el b = Inr (length xs)"
  using size_pos
  by (erule_tac holdsE) (simp add: rbuf_size_def with_ring_Some read_space_law length_reps)

lemma full_eq: "rbuf_holds rinv content el b xs \<Longrightarrow> rbuf_full ops el b = Inr (rbuf_room ops el b = 0)"
  using size_pos
  by (erule_tac holdsE) (simp add: rbuf_full_def with_ring_Some rbuf_room_def div_eq_0_iff)

lemma push_room:
  assumes h: "rbuf_holds rinv content el b xs" and room: "0 < rbuf_room ops el b"
  shows "\<exists>b'. rbuf_push ops el b v = Inr b' \<and> rbuf_holds rinv content el b' (xs @ [v]) \<and>
    rbuf_room ops el b' = rbuf_room ops el b - 1"
proof -
  from h obtain r where r: "buf b = Some r" "rinv r" "content r = concat (map (rep el) xs)"
    by (rule holdsE)
  note w = with_ring_Some [OF r(2,3,1)]
  obtain r' n where wr: "rb_write ops r (rep el v) = (r', n)" by fastforce
  have space: "sizeof el \<le> rb_write_space ops r"
    using room r(1) size_pos by (simp add: rbuf_room_def div_greater_zero_iff)
  then have after: "rinv r'" "n = sizeof el" "content r' = content r @ rep el v"
      "rb_write_space ops r' = rb_write_space ops r - sizeof el"
    using write_fits [OF r(2) _ wr] by (simp_all add: rep_length)
  then have c: "content r' = concat (map (rep el) (xs @ [v]))" by (simp add: r(3))
  have "rbuf_push ops el b v = Inr (b\<lparr>buf := Some r'\<rparr>)"
    using full_eq [OF h] room
    by (simp add: rbuf_push_def w wr after(2) with_ring_Some [OF after(1) c])
  moreover have "rbuf_room ops el (b\<lparr>buf := Some r'\<rparr>) = rbuf_room ops el b - 1"
    using space size_pos by (simp add: rbuf_room_def r(1) after(4) div_minus_one)
  ultimately show ?thesis
    using after(1) c by (auto simp: rbuf_holds_def)
qed

lemma push_no_room:
  assumes h: "rbuf_holds rinv content el b xs" and room: "rbuf_room ops el b = 0"
  shows "rbuf_push ops el b v = Inl Out_of_range"
  using h by (rule holdsE) (simp add: rbuf_push_def with_ring_Some full_eq [OF h] room)

lemma pop_nonempty:
  assumes h: "rbuf_holds rinv content el b (x # xs)"
  shows "\<exists>b'. rbuf_pop ops el b = Inr (b', x) \<and> rbuf_holds rinv content el b' xs \<and>
    rbuf_room ops el b' = Suc (rbuf_room ops el b)"
proof -
  from h obtain r where r: "buf b = Some r" "rinv r" "content r = concat (map (rep el) (x # xs))"
    by (rule holdsE)
  note w = with_ring_Some [OF r(2,3,1)]
  obtain r' bs where rd: "rb_read ops r (sizeof el) = (r', bs)" by fastforce
  then have after: "rinv r'" "bs = rep el x" "content r' = concat (map (rep el) xs)"
      "rb_write_space ops r' = rb_write_space ops r + sizeof el"
    using read_law [OF r(2) rd] by (simp_all add: r(3) rep_length)
  have "rbuf_pop ops el b = Inr (b\<lparr>buf := Some r'\<rparr>, x)"
    using empty_eq [OF h]
    by (simp add: rbuf_pop_def w rd after(2) rep_length with_ring_Some [OF after(1,3)] of_rep_rep)
  moreover have "rbuf_room ops el (b\<lparr>buf := Some r'\<rparr>) = Suc (rbuf_room ops el b)"
    using size_pos by (simp add: rbuf_room_def r(1) after(4) div_plus_one)
  ultimately show ?thesis
    using after(1,3) by (auto simp: rbuf_holds_def)
qed

lemma pop_none:
  assumes h: "rbuf_holds rinv content el b []"
  shows "rbuf_pop ops el b = Inl Out_of_range"
  using h by (rule holdsE) (simp add: rbuf_pop_def with_ring_Some [where xs = "[]"] empty_eq [OF h])

lemma seg_read_vector:
  assumes "rinv r" and "rb_get_read_vector ops r = (s0, s1)"
  shows "seg_read s0 = Inr (take (seg_len s0) (content r))"
    and "seg_read s1 = Inr (drop (seg_len s0) (content r))"
proof -
  have v: "seg_bytes s0 @ seg_bytes s1 = map Some (content r)"
    by (rule vector_law [OF assms])
  have "seg_bytes s0 = take (seg_len s0) (seg_bytes s0 @ seg_bytes s1)"
    and "seg_bytes s1 = drop (seg_len s0) (seg_bytes s0 @ seg_bytes s1)" by simp_all
  then have "seg_bytes s0 = map Some (take (seg_len s0) (content r))"
    and "seg_bytes s1 = map Some (drop (seg_len s0) (content r))"
    unfolding v by (simp_all add: take_map drop_map)
  then show "seg_read s0 = Inr (take (seg_len s0) (content r))"
    and "seg_read s1 = Inr (drop (seg_len s0) (content r))"
    by (simp_all add: seg_read_def those_map_Some)
qed

lemma copy_buf_ok:
  assumes "rinv d" "content d = []" and s: "rinv s" "length (content s) \<le> rb_write_space ops d"
  shows "\<exists>d'. rbuf_copy_buf ops d s = Inr d' \<and> rinv d' \<and> content d' = content s"
proof -
  obtain s0 s1 where v: "rb_get_read_vector ops s = (s0, s1)" by fastforce
  note len = vector_length [OF s(1) v] and rd = seg_read_vector [OF s(1) v]
  show ?thesis
  proof (cases "seg_len s0 = 0")
    case True
    then have "content s = []" using vector_first_law [OF s(1) v] len by simp
    with True assms show ?thesis by (simp add: rbuf_copy_buf_def v)
  next
    case False
    let ?bs0 = "take (seg_len s0) (content s)" and ?bs1 = "drop (seg_len s0) (content s)"
    obtain d1 n0 where w0: "rb_write ops d ?bs0 = (d1, n0)" by fastforce
    then have d1: "rinv d1" "n0 = seg_len s0" "content d1 = ?bs0"
        "rb_write_space ops d1 = rb_write_space ops d - seg_len s0"
      using write_fits [OF assms(1) _ w0] assms(2) s(2) len by simp_all
    show ?thesis
    proof (cases "seg_len s1 = 0")
      case True
      then have "?bs0 = content s" using len by simp
      with True False d1 w0 show ?thesis by (simp add: rbuf_copy_buf_def v rd(1))
    next
      case nonzero: False
      obtain d2 n1 where w1: "rb_write ops d1 ?bs1 = (d2, n1)" by fastforce
      then have "rinv d2" "n1 = seg_len s1" "content d2 = content s"
        using write_fits [OF d1(1) _ w1] d1(3,4) s(2) len by simp_all
      with nonzero False d1 show ?thesis by (simp add: rbuf_copy_buf_def v rd w0 w1)
    qed
  qed
qed

lemma copy_holds:
  assumes h: "rbuf_holds rinv content el b xs"
    and c: "rb_create ops (size_mul (buf_size b) (sizeof el)) = Some r"
    and fits: "length xs * sizeof el \<le> rb_write_space ops r"
  shows "\<exists>b'. rbuf_copy ops el b = Inr b' \<and> rbuf_holds rinv content el b' xs \<and>
    buf_size b' = buf_size b"
proof -
  from h obtain s where s: "buf b = Some s" "rinv s" "content s = concat (map (rep el) xs)"
    by (rule holdsE)
  then have "length (content s) \<le> rb_write_space ops r"
    using fits by (simp only: length_reps)
  then obtain d where d: "rbuf_copy_buf ops r s = Inr d" "rinv d" "content d = content s"
    using copy_buf_ok [of r s] create_law [OF c] s(2) by blast
  have "rbuf_copy ops el b = Inr \<lparr>buf = Some d, buf_size = buf_size b\<rparr>"
    using c d(1,3) s(1,3)
    by (simp add: rbuf_copy_def rbuf_init_buf_def with_ring_Some [OF d(2), of xs])
  with d(2,3) s(3) show ?thesis by (simp add: rbuf_holds_def)
qed

lemma queue: "bounded_queue (rbuf_push ops el) (rbuf_pop ops el) (rbuf_empty ops el)
    (rbuf_full ops el) (rbuf_holds rinv content el) (rbuf_room ops el)"
  by unfold_locales
     (fact push_room push_no_room pop_nonempty pop_none empty_eq full_eq)+

sublocale q: bounded_queue "rbuf_push ops el" "rbuf_pop ops el" "rbuf_empty ops el"
    "rbuf_full ops el" "rbuf_holds rinv content el" "rbuf_room ops el"
  by (rule queue)

end

section \<open>Bytes as elements\<close>

text \<open>\<open>jack_midi_data_t\<close>, the element type of the driver's input buffer.\<close>

definition byte_elem :: "byte elem" where
  "byte_elem = \<lparr>sizeof = 1, rep = (\<lambda>b. [b]), of_rep = hd\<rparr>"

lemma byte_elem_simps [simp]:
  "sizeof byte_elem = 1" "rep byte_elem b = [b]" "of_rep byte_elem [b] = b"
  by (simp_all add: byte_elem_def)

interpretation byte_codec: elem_codec byte_elem
  by unfold_locales simp_all

interpretation ref_bytes: typed_ring ring_ops ring_ok ring_content byte_elem
  by (intro typed_ring.intro ref_ring.jack_ring_axioms byte_codec.elem_codec_axioms)

lemma concat_singletons [simp]: "concat (map (\<lambda>b. [b]) bs) = bs"
  by (induction bs) simp_all

lemma rbuf_new_holds:
  assumes "jack_ring ops rinv content" "rbuf_new ops el n = Inr b"
  shows "rbuf_holds rinv content el b []"
proof -
  from assms(2) obtain r where "rb_create ops (size_mul n (sizeof el)) = Some r" "b = \<lparr>buf = Some r, buf_size = n\<rparr>"
    by (auto simp: rbuf_new_def rbuf_init_buf_def with_ring_def Let_def bind_res_Inr_iff split: option.splits)
  with jack_ring.create_law [OF assms(1)] show ?thesis by (simp add: rbuf_holds_def)
qed

section \<open>Properties\<close>

definition sample_ringbuffer :: "ring ringbuffer" where
  "sample_ringbuffer = \<lparr>buf = ring_create 8, buf_size = 8\<rparr>"

lemma sample_ringbuffer_new: "rbuf_new ring_ops byte_elem 8 = Inr sample_ringbuffer"
  by (simp add: rbuf_new_def rbuf_init_buf_def size_mul_def sample_ringbuffer_def ring_create_def
      with_ring_def)

lemma sample_ringbuffer_holds: "rbuf_holds ring_ok ring_content byte_elem sample_ringbuffer []"
  using ring_create_spec [of 8] by (auto simp: rbuf_holds_def sample_ringbuffer_def ring_create_def)

text \<open>C20: Over any ring that keeps the JACK contract, a \<open>Ringbuffer\<close> is a first-in first-out queue:
  whatever is pushed while there is room is popped, after what was there before, in the same
  order, and nothing fails on the way.\<close>

theorem ringbuffer_fifo:
  assumes "jack_ring ops rinv content" "elem_codec el"
    and "rbuf_holds rinv content el b xs" "length ys \<le> rbuf_room ops el b"
  shows "\<exists>b1 b2. fold_res (\<lambda>y b. rbuf_push ops el b y) ys b = Inr b1 \<and>
    rbuf_size ops el b1 = Inr (length (xs @ ys)) \<and>
    pop_many (rbuf_pop ops el) (length (xs @ ys)) b1 = Inr (b2, xs @ ys) \<and>
    rbuf_holds rinv content el b2 []"
proof -
  have t: "typed_ring ops rinv content el" by (rule typed_ring.intro [OF assms(1, 2)])
  have bq: "bounded_queue (rbuf_push ops el) (rbuf_pop ops el) (rbuf_empty ops el) (rbuf_full ops el)
      (rbuf_holds rinv content el) (rbuf_room ops el)"
    by (rule typed_ring.queue [OF t])
  obtain b1 where b1: "fold_res (\<lambda>y b. rbuf_push ops el b y) ys b = Inr b1"
      "rbuf_holds rinv content el b1 (xs @ ys)"
    using bounded_queue.push_all [OF bq assms(3, 4)] by blast
  moreover obtain b2 where "pop_many (rbuf_pop ops el) (length (xs @ ys)) b1 = Inr (b2, xs @ ys)"
      "rbuf_holds rinv content el b2 []"
    using bounded_queue.pop_many_holds [OF bq, of b1 "xs @ ys" "[]"] b1(2) by auto
  ultimately show ?thesis using typed_ring.size_eq [OF t b1(2)] by blast
qed

lemma ringbuffer_fifo_witness:
  "\<exists>b1 b2. fold_res (\<lambda>y b. rbuf_push ring_ops byte_elem b y) [1, 2, 3] sample_ringbuffer = Inr b1 \<and>
    rbuf_size ring_ops byte_elem b1 = Inr 3 \<and>
    pop_many (rbuf_pop ring_ops byte_elem) 3 b1 = Inr (b2, [1, 2, 3])"
proof -
  have "length [1, 2, 3 :: byte] \<le> rbuf_room ring_ops byte_elem sample_ringbuffer" by code_simp
  from ringbuffer_fifo [OF ref_ring.jack_ring_axioms byte_codec.elem_codec_axioms sample_ringbuffer_holds this]
  show ?thesis by (simp add: numeral_3_eq_3) blast
qed

text \<open>A full buffer is reported as full and refuses a push with \<open>out_of_range\<close>; an empty one is
  reported as empty and refuses a pop the same way; no assertion of the class ever fails, and
  empty and full are never reported otherwise.\<close>

theorem ringbuffer_limits:
  assumes "jack_ring ops rinv content" "elem_codec el" "rbuf_holds rinv content el b xs"
  shows "rbuf_full ops el b = Inr (rbuf_room ops el b = 0) \<and> rbuf_empty ops el b = Inr (xs = []) \<and>
    rbuf_push ops el b y \<noteq> Inl Assert_failed \<and> rbuf_pop ops el b \<noteq> Inl Assert_failed \<and>
    (rbuf_push ops el b y = Inl Out_of_range \<longleftrightarrow> rbuf_room ops el b = 0) \<and>
    (rbuf_pop ops el b = Inl Out_of_range \<longleftrightarrow> xs = [])"
proof -
  have bq: "bounded_queue (rbuf_push ops el) (rbuf_pop ops el) (rbuf_empty ops el) (rbuf_full ops el)
      (rbuf_holds rinv content el) (rbuf_room ops el)"
    by (rule typed_ring.queue [OF typed_ring.intro [OF assms(1, 2)]])
  have "rbuf_room ops el b = 0 \<and> rbuf_push ops el b y = Inl Out_of_range \<or>
      0 < rbuf_room ops el b \<and> (\<exists>b'. rbuf_push ops el b y = Inr b')"
    using bounded_queue.push_ok [OF bq assms(3), of y] bounded_queue.push_full [OF bq assms(3), of y]
    by (cases "rbuf_room ops el b = 0") auto
  moreover have "xs = [] \<and> rbuf_pop ops el b = Inl Out_of_range \<or>
      xs \<noteq> [] \<and> (\<exists>b' x. rbuf_pop ops el b = Inr (b', x))"
    using assms(3) bounded_queue.pop_empty [OF bq, of b] bounded_queue.pop_ok [OF bq, of b "hd xs" "tl xs"]
    by (cases xs) auto
  ultimately show ?thesis
    using bounded_queue.full_law [OF bq assms(3)] bounded_queue.empty_law [OF bq assms(3)] by auto
qed

lemma ringbuffer_limits_witness:
  "rbuf_pop ring_ops byte_elem sample_ringbuffer = Inl Out_of_range \<and>
   rbuf_full ring_ops byte_elem sample_ringbuffer = Inr False"
proof -
  note l = ringbuffer_limits [OF ref_ring.jack_ring_axioms byte_codec.elem_codec_axioms sample_ringbuffer_holds]
  have "rbuf_room ring_ops byte_elem sample_ringbuffer = 7" by code_simp
  with l show ?thesis by simp
qed

text \<open>A copy of a buffer holds the same elements in the same order, wherever they lie in the
  source's ring, and has the same nominal capacity.\<close>

theorem ringbuffer_copy:
  assumes "jack_ring ops rinv content" "elem_codec el" "rbuf_holds rinv content el b xs"
    and "rb_create ops (size_mul (buf_size b) (sizeof el)) = Some r"
    and "length xs * sizeof el \<le> rb_write_space ops r"
  shows "\<exists>b'. rbuf_copy ops el b = Inr b' \<and> rbuf_holds rinv content el b' xs \<and>
    rbuf_capacity b' = rbuf_capacity b"
  using typed_ring.copy_holds [OF typed_ring.intro [OF assms(1, 2)] assms(3-5)]
  by (simp add: rbuf_capacity_def)

definition wrapped_ringbuffer :: "ring ringbuffer" where
  "wrapped_ringbuffer = \<lparr>buf = Some \<lparr>mem = [3, 4, 0, 0, 0, 0, 1, 2], rd = 6, wr = 2\<rparr>, buf_size = 8\<rparr>"

lemma ringbuffer_copy_witness:
  "\<exists>b'. rbuf_copy ring_ops byte_elem wrapped_ringbuffer = Inr b' \<and>
    rbuf_holds ring_ok ring_content byte_elem b' [1, 2, 3, 4]"
proof -
  have holds: "rbuf_holds ring_ok ring_content byte_elem wrapped_ringbuffer [1, 2, 3, 4]"
    unfolding rbuf_holds_def
    by (rule exI [of _ "\<lparr>mem = [3, 4, 0, 0, 0, 0, 1, 2], rd = 6, wr = 2\<rparr>"]) code_simp
  have create: "rb_create ring_ops (size_mul (buf_size wrapped_ringbuffer) (sizeof byte_elem)) =
      Some \<lparr>mem = replicate 8 0, rd = 0, wr = 0\<rparr>"
    by (simp add: wrapped_ringbuffer_def size_mul_def ring_create_def pow2_from.simps)
  have "length [1, 2, 3, 4 :: byte] * sizeof byte_elem \<le> rb_write_space ring_ops \<lparr>mem = replicate 8 0, rd = 0, wr = 0\<rparr>"
    by code_simp
  from ringbuffer_copy [OF ref_ring.jack_ring_axioms byte_codec.elem_codec_axioms holds create this]
  show ?thesis by blast
qed

end
