(* ===== verification/Jack_Wrapper.thy ===== *)
theory Jack_Wrapper
  imports Ringbuffer Ring_Iterator Midi_Event
begin

text \<open>
  \<open>JackWrapper\<close> (\<open>driver/src/io/JackWrapper.hpp\<close>, \<open>.cpp\<close>): the client, its two ports, the two
  ring buffers between the process callback and the rest of the driver, and the operations on
  them.  libjack is a parameter: \<open>jack_api\<close> collects the client calls as functions on a world
  \<open>'j\<close>, \<open>jack_midi\<close> the calls on a port's MIDI buffer \<open>'b\<close>.
\<close>

section \<open>libjack\<close>

record 'j jack_api =
  j_client_open :: "'j \<Rightarrow> string \<Rightarrow> 'j \<times> nat option"
  j_client_close :: "'j \<Rightarrow> nat \<Rightarrow> 'j"
  j_port_register :: "'j \<Rightarrow> nat \<Rightarrow> string \<Rightarrow> bool \<Rightarrow> 'j \<times> nat option"
  j_port_unregister :: "'j \<Rightarrow> nat \<Rightarrow> nat \<Rightarrow> 'j"
  j_set_process_callback :: "'j \<Rightarrow> nat \<Rightarrow> 'j \<times> int"
  j_set_xrun_callback :: "'j \<Rightarrow> nat \<Rightarrow> 'j \<times> int"
  j_activate :: "'j \<Rightarrow> nat \<Rightarrow> 'j \<times> int"
  j_deactivate :: "'j \<Rightarrow> nat \<Rightarrow> 'j \<times> int"

record 'b jack_midi =
  jm_event_count :: "'b \<Rightarrow> nat"
  jm_event_get :: "'b \<Rightarrow> nat \<Rightarrow> byte list option"
  jm_clear :: "'b \<Rightarrow> 'b"
  jm_event_write :: "'b \<Rightarrow> nat \<Rightarrow> byte list \<Rightarrow> 'b \<times> int"

section \<open>State\<close>

definition IN_BUF_SIZE :: nat where "IN_BUF_SIZE = 8192"
definition OUT_BUF_SIZE :: nat where "OUT_BUF_SIZE = 128"

text \<open>
  A \<open>MidiEvent\<close> in the output buffer: four bytes, the type, the channel and the data.  Only
  bytes written from an event are read back as one.
\<close>

definition event_elem :: "midi_event elem" where
  "event_elem = \<lparr>sizeof = 4,
     rep = (\<lambda>e. [type_code (ev_type e), ev_channel e, ev_raw0 e, ev_raw1 e]),
     of_rep = (\<lambda>bs. make_event (type_of_code (bs ! 0)) (bs ! 1) (bs ! 2) (bs ! 3))\<rparr>"

record 'rb jack_impl =
  ji_client :: "nat option"
  ji_active :: bool
  ji_midi_in :: "nat option"
  ji_midi_out :: "nat option"
  ji_callbacks_set :: bool
  ji_xrun_cb :: "int"
  ji_in_buf :: "'rb ringbuffer"
  ji_out_buf :: "'rb ringbuffer"

section \<open>Construction and destruction\<close>

text \<open>The smart pointers' deleters, in the order in which the members are destroyed.\<close>

definition port_release :: "'j jack_api \<Rightarrow> 'j \<Rightarrow> nat \<Rightarrow> nat option \<Rightarrow> 'j" where
  "port_release api j c p = (case p of None \<Rightarrow> j | Some port \<Rightarrow> j_port_unregister api j c port)"

definition jw_release :: "'j jack_api \<Rightarrow> 'j \<Rightarrow> 'rb jack_impl \<Rightarrow> 'j" where
  "jw_release api j p =
     (case ji_client p of
        None \<Rightarrow> j
      | Some c \<Rightarrow>
          let j1 = port_release api j c (ji_midi_out p);
              j2 = port_release api j1 c (ji_midi_in p)
          in j_client_close api j2 c)"

definition jw_destroy :: "'j jack_api \<Rightarrow> 'j \<Rightarrow> 'rb jack_impl \<Rightarrow> 'j" where
  "jw_destroy api j p =
     (let j1 = (case ji_client p of
          Some c \<Rightarrow> if ji_active p then fst (j_deactivate api j c) else j | None \<Rightarrow> j)
      in jw_release api j1 p)"

definition init_client :: "'j jack_api \<Rightarrow> 'j \<Rightarrow> string \<Rightarrow> 'rb jack_impl \<Rightarrow> 'j \<times> 'rb jack_impl \<times> unit res" where
  "init_client api j name p = (case j_client_open api j name of
     (j', None) \<Rightarrow> (j', p, Inl Jack_error)
   | (j', Some c) \<Rightarrow> (j', p\<lparr>ji_client := Some c\<rparr>, Inr ()))"

definition init_ports :: "'j jack_api \<Rightarrow> 'j \<Rightarrow> nat \<Rightarrow> 'rb jack_impl \<Rightarrow> 'j \<times> 'rb jack_impl \<times> unit res" where
  "init_ports api j c p = (case j_port_register api j c ''in'' True of
     (j1, None) \<Rightarrow> (j1, p, Inl Jack_error)
   | (j1, Some inp) \<Rightarrow> (case j_port_register api j1 c ''out'' False of
       (j2, None) \<Rightarrow> (j2, p, Inl Jack_error)
     | (j2, Some out) \<Rightarrow> (j2, p\<lparr>ji_midi_in := Some inp, ji_midi_out := Some out\<rparr>, Inr ())))"

definition init_process_callback :: "'j jack_api \<Rightarrow> 'j \<Rightarrow> nat \<Rightarrow> 'j \<times> unit res" where
  "init_process_callback api j c = (case j_set_process_callback api j c of (j', r) \<Rightarrow>
     (j', if r \<noteq> 0 then Inl Jack_error else Inr ()))"

definition init_xrun_callback :: "'j jack_api \<Rightarrow> 'j \<Rightarrow> nat \<Rightarrow> 'j \<times> unit res" where
  "init_xrun_callback api j c = (case j_set_xrun_callback api j c of (j', r) \<Rightarrow>
     (j', if r \<noteq> 0 then Inl Jack_error else Inr ()))"

text \<open>The constructor.  When a step throws, the members constructed so far are destroyed.\<close>

definition jw_new :: "'j jack_api \<Rightarrow> 'rb jack_rb \<Rightarrow> 'j \<Rightarrow> string \<Rightarrow> 'j \<times> 'rb jack_impl res" where
  "jw_new api ops j name =
     (case bind_res (rbuf_new ops byte_elem IN_BUF_SIZE) (\<lambda>i.
           bind_res (rbuf_new ops event_elem OUT_BUF_SIZE) (\<lambda>out. Inr (i, out))) of
        Inl e \<Rightarrow> (j, Inl e)
      | Inr (i, out) \<Rightarrow>
     let p0 = \<lparr>ji_client = None, ji_active = False, ji_midi_in = None, ji_midi_out = None,
               ji_callbacks_set = False, ji_xrun_cb = 0, ji_in_buf = i, ji_out_buf = out\<rparr> in
     case init_client api j name p0 of
        (j1, p1, Inl e) \<Rightarrow> (jw_release api j1 p1, Inl e)
      | (j1, p1, Inr _) \<Rightarrow>
     (case ji_client p1 of None \<Rightarrow> (j1, Inl Assert_failed) | Some c \<Rightarrow>
     case init_ports api j1 c p1 of
        (j2, p2, Inl e) \<Rightarrow> (jw_release api j2 p2, Inl e)
      | (j2, p2, Inr _) \<Rightarrow>
     case init_process_callback api j2 c of
        (j3, Inl e) \<Rightarrow> (jw_release api j3 p2, Inl e)
      | (j3, Inr _) \<Rightarrow>
     case init_xrun_callback api j3 c of
        (j4, Inl e) \<Rightarrow> (jw_release api j4 p2, Inl e)
      | (j4, Inr _) \<Rightarrow> (j4, Inr (p2\<lparr>ji_callbacks_set := True\<rparr>))))"

definition set_xrun_callback :: "'rb jack_impl \<Rightarrow> int \<Rightarrow> 'rb jack_impl" where
  "set_xrun_callback p cb = p\<lparr>ji_xrun_cb := cb\<rparr>"

definition jw_activate :: "'j jack_api \<Rightarrow> 'j \<Rightarrow> 'rb jack_impl \<Rightarrow> 'j \<times> 'rb jack_impl \<times> unit res" where
  "jw_activate api j p =
     (if ji_active p then (j, p, Inr ())
      else case ji_client p of
        None \<Rightarrow> (j, p, Inl Undefined_behaviour)
      | Some c \<Rightarrow> (case j_activate api j c of (j', r) \<Rightarrow>
          (j', p, if r \<noteq> 0 then Inl Jack_error else Inr ())))"

definition jw_deactivate :: "'j jack_api \<Rightarrow> 'j \<Rightarrow> 'rb jack_impl \<Rightarrow> 'j \<times> 'rb jack_impl \<times> unit res" where
  "jw_deactivate api j p =
     (if \<not> ji_active p then (j, p, Inr ())
      else case ji_client p of
        None \<Rightarrow> (j, p, Inl Undefined_behaviour)
      | Some c \<Rightarrow> (case j_deactivate api j c of (j', r) \<Rightarrow>
          (j', p, if r \<noteq> 0 then Inl Jack_error else Inr ())))"

definition read_bufsize :: "'rb jack_rb \<Rightarrow> 'rb jack_impl \<Rightarrow> nat res" where
  "read_bufsize ops p = rbuf_size ops byte_elem (ji_in_buf p)"

definition write_bufsize :: "'rb jack_rb \<Rightarrow> 'rb jack_impl \<Rightarrow> nat res" where
  "write_bufsize ops p = rbuf_size ops event_elem (ji_out_buf p)"

section \<open>The process callback\<close>

text \<open>
  \<open>write_callback\<close>: at most \<open>k\<close> further turns of its loop over the output buffer and the
  port's buffer.
\<close>

fun write_loop ::
    "'rb jack_rb \<Rightarrow> 'b jack_midi \<Rightarrow> nat \<Rightarrow> 'rb ringbuffer \<Rightarrow> 'b \<Rightarrow> ('rb ringbuffer \<times> 'b) res" where
  "write_loop ops jm 0 q b = Inr (q, b)"
| "write_loop ops jm (Suc k) q b =
     bind_res (rbuf_empty ops event_elem q) (\<lambda>empty.
     if empty then Inr (q, b)
     else bind_res (rbuf_pop ops event_elem q) (\<lambda>(q1, event).
          bind_res (to_bytes event) (\<lambda>bytes.
          case jm_event_write jm b 0 bytes of (b1, res) \<Rightarrow>
          bind_res (assert_res (res = 0)) (\<lambda>_. write_loop ops jm k q1 b1))))"

definition write_callback ::
    "'rb jack_rb \<Rightarrow> 'b jack_midi \<Rightarrow> 'rb jack_impl \<Rightarrow> 'b \<Rightarrow> nat \<Rightarrow> ('rb jack_impl \<times> 'b \<times> int) res" where
  "write_callback ops jm p b nframes =
     bind_res (write_loop ops jm (nframes div 3) (ji_out_buf p) (jm_clear jm b)) (\<lambda>(q, b1).
       Inr (p\<lparr>ji_out_buf := q\<rparr>, b1, 0))"

text \<open>
  \<open>read_callback\<close>: the bytes of one event into the input buffer, and whether it filled up; then
  the events from index \<open>i\<close> on.
\<close>

fun push_bytes :: "'rb jack_rb \<Rightarrow> byte list \<Rightarrow> 'rb ringbuffer \<Rightarrow> ('rb ringbuffer \<times> bool) res" where
  "push_bytes ops [] q = Inr (q, False)"
| "push_bytes ops (d # ds) q =
     bind_res (rbuf_full ops byte_elem q) (\<lambda>full.
     if full then Inr (q, True)
     else bind_res (rbuf_push ops byte_elem q d) (\<lambda>q1. push_bytes ops ds q1))"

function read_loop ::
    "'rb jack_rb \<Rightarrow> 'b jack_midi \<Rightarrow> 'b \<Rightarrow> nat \<Rightarrow> 'rb ringbuffer \<Rightarrow> ('rb ringbuffer \<times> int) res" where
  "read_loop ops jm b i q =
     (if i < jm_event_count jm b then
        (case jm_event_get jm b i of
           None \<Rightarrow> Inr (q, 1)
         | Some bytes \<Rightarrow> bind_res (push_bytes ops bytes q) (\<lambda>(q1, full).
             if full then Inr (q1, 1) else read_loop ops jm b (i + 1) q1))
      else Inr (q, 0))"
  by pat_completeness auto
termination
  by (relation "measure (\<lambda>(ops, jm, b, i, q). jm_event_count jm b - i)") auto

declare read_loop.simps [simp del]

definition read_callback ::
    "'rb jack_rb \<Rightarrow> 'b jack_midi \<Rightarrow> 'rb jack_impl \<Rightarrow> 'b \<Rightarrow> ('rb jack_impl \<times> int) res" where
  "read_callback ops jm p b =
     bind_res (read_loop ops jm b 0 (ji_in_buf p)) (\<lambda>(q, r). Inr (p\<lparr>ji_in_buf := q\<rparr>, r))"

text \<open>\<open>process_int\<close> on the buffers of the two ports.\<close>

definition process_int ::
    "'rb jack_rb \<Rightarrow> 'b jack_midi \<Rightarrow> 'rb jack_impl \<Rightarrow> 'b \<Rightarrow> 'b \<Rightarrow> nat \<Rightarrow> ('rb jack_impl \<times> 'b \<times> int) res" where
  "process_int ops jm p out_port in_port nframes =
     (if \<not> ji_callbacks_set p then Inr (p, out_port, 1)
      else bind_res (write_callback ops jm p out_port nframes) (\<lambda>(p1, out_port', write_res).
           bind_res (read_callback ops jm p1 in_port) (\<lambda>(p2, read_res).
             Inr (p2, out_port', write_res + read_res))))"

definition xrun :: "'rb jack_impl \<Rightarrow> int" where
  "xrun p = ji_xrun_cb p"

section \<open>The driver's end of the buffers\<close>

definition jw_put :: "'rb jack_rb \<Rightarrow> 'rb jack_impl \<Rightarrow> midi_event \<Rightarrow> 'rb jack_impl res" where
  "jw_put ops p event =
     bind_res (rbuf_full ops event_elem (ji_out_buf p)) (\<lambda>full.
     bind_res (assert_res (\<not> full)) (\<lambda>_.
     bind_res (rbuf_push ops event_elem (ji_out_buf p) event) (\<lambda>q. Inr (p\<lparr>ji_out_buf := q\<rparr>))))"

text \<open>\<open>operator>>\<close>, with the address of the input ring; \<open>None\<close> would be a parse that never ends.\<close>

definition jw_get :: "'rb jack_rb \<Rightarrow> nat \<Rightarrow> 'rb jack_impl \<Rightarrow> ('rb jack_impl \<times> midi_event) res option" where
  "jw_get ops addr p = (case rbuf_data (ji_in_buf p) of
     None \<Rightarrow> Some (Inl Assert_failed)
   | Some r \<Rightarrow>
     (case bind_res (iter_begin ops addr r) (\<lambda>it. bind_res (iter_end ops addr r) (\<lambda>e. Inr (it, e))) of
        Inl x \<Rightarrow> Some (Inl x)
      | Inr (it, e) \<Rightarrow> map_option (\<lambda>res. bind_res res (\<lambda>(event, next_it).
          bind_res (iter_minus next_it it) (\<lambda>n.
            Inr (p\<lparr>ji_in_buf := (ji_in_buf p)\<lparr>buf := Some (rb_read_advance ops r n)\<rparr>\<rparr>, event))))
          (parse ring_iter_ops it e)))"

section \<open>The two directions\<close>

lemma reps_bytes [simp]: "concat (map (rep byte_elem) bs) = bs"
  by (induction bs) simp_all

lemma type_of_code_type_code [simp]: "type_of_code (type_code t) = t"
  by (cases t) (simp_all add: type_of_code_def)

interpretation event_codec: elem_codec event_elem
proof (unfold_locales, goal_cases)
  case (3 v)
  show ?case by (cases v) (simp add: event_elem_def make_event_def)
qed (simp_all add: event_elem_def)

interpretation ref_events: typed_ring ring_ops ring_ok ring_content event_elem
  by (intro typed_ring.intro ref_ring.jack_ring_axioms event_codec.elem_codec_axioms)

lemmas jack_bytes = typed_ring.intro [OF _ byte_codec.elem_codec_axioms]
lemmas jack_events = typed_ring.intro [OF _ event_codec.elem_codec_axioms]

abbreviation in_holds where "in_holds rinv content \<equiv> rbuf_holds rinv content byte_elem"
abbreviation out_holds where "out_holds rinv content \<equiv> rbuf_holds rinv content event_elem"

definition port_accepts :: "'b jack_midi \<Rightarrow> bool" where
  "port_accepts jm \<longleftrightarrow> (\<forall>b t bs. snd (jm_event_write jm b t bs) = 0)"

definition port_write_events :: "'b jack_midi \<Rightarrow> midi_event list \<Rightarrow> 'b \<Rightarrow> 'b" where
  "port_write_events jm es b = fold (\<lambda>e b. fst (jm_event_write jm b 0 (event_bytes e))) es b"

lemma write_loop_ok:
  assumes "jack_ring ops rinv content" "port_accepts jm"
  shows "out_holds rinv content q es \<Longrightarrow> \<forall>e \<in> set es. ev_type e \<noteq> SYSTEM_MESSAGE \<Longrightarrow>
    \<exists>q'. write_loop ops jm k q b = Inr (q', port_write_events jm (take k es) b) \<and> out_holds rinv content q' (drop k es)"
proof (induction k arbitrary: q es b)
  case 0
  then show ?case by (simp add: port_write_events_def)
next
  case (Suc k)
  note t = jack_events [OF assms(1)]
  show ?case
  proof (cases es)
    case Nil
    with Suc.prems show ?thesis
      using typed_ring.empty_eq [OF t Suc.prems(1)] by (simp add: port_write_events_def)
  next
    case (Cons e es')
    obtain q1 where q1: "rbuf_pop ops event_elem q = Inr (q1, e)" "out_holds rinv content q1 es'"
      using typed_ring.pop_nonempty [OF t, of q e es'] Suc.prems(1) Cons by auto
    obtain b1 r where w: "jm_event_write jm b 0 (event_bytes e) = (b1, r)" by fastforce
    then have "r = 0" using assms(2) unfolding port_accepts_def by (metis snd_conv)
    with Suc.IH [OF q1(2), of b1] Suc.prems(2) Cons q1(1) w typed_ring.empty_eq [OF t Suc.prems(1)]
    show ?thesis by (auto simp: to_bytes_wire port_write_events_def)
  qed
qed

lemma push_bytes_ok:
  assumes "jack_ring ops rinv content"
  shows "in_holds rinv content q bs \<Longrightarrow>
    \<exists>q'. push_bytes ops ds q = Inr (q', rbuf_room ops byte_elem q < length ds) \<and>
      in_holds rinv content q' (bs @ take (rbuf_room ops byte_elem q) ds) \<and>
      rbuf_room ops byte_elem q' = rbuf_room ops byte_elem q - length ds"
proof (induction ds arbitrary: q bs)
  case (Cons d ds)
  note t = jack_bytes [OF assms]
  show ?case
  proof (cases "rbuf_room ops byte_elem q = 0")
    case True
    then show ?thesis using Cons.prems typed_ring.full_eq [OF t Cons.prems] by simp
  next
    case False
    then obtain q1 where q1: "rbuf_push ops byte_elem q d = Inr q1" "in_holds rinv content q1 (bs @ [d])"
      "rbuf_room ops byte_elem q1 = rbuf_room ops byte_elem q - 1"
      using typed_ring.push_room [OF t Cons.prems, of d] by auto
    from Cons.IH [OF q1(2)] False q1 typed_ring.full_eq [OF t Cons.prems] show ?thesis
      by (cases "rbuf_room ops byte_elem q") auto
  qed
qed simp

lemma read_loop_ok:
  assumes "jack_ring ops rinv content"
    and "jm_event_count jm b = length evs" "\<And>i. i < length evs \<Longrightarrow> jm_event_get jm b i = Some (evs ! i)"
  shows "in_holds rinv content q bs \<Longrightarrow> 
    \<exists>q'. read_loop ops jm b i q = Inr (q', if rbuf_room ops byte_elem q < length (concat (drop i evs)) then 1 else 0) \<and>
      in_holds rinv content q' (bs @ take (rbuf_room ops byte_elem q) (concat (drop i evs)))"
proof (induction "length evs - i" arbitrary: i q bs)
  case 0
  then show ?case by (subst read_loop.simps) (simp add: assms(2))
next
  case (Suc n)
  then have i: "i < length evs" by simp
  obtain q1 where q1: "push_bytes ops (evs ! i) q = Inr (q1, rbuf_room ops byte_elem q < length (evs ! i))"
    "in_holds rinv content q1 (bs @ take (rbuf_room ops byte_elem q) (evs ! i))"
    "rbuf_room ops byte_elem q1 = rbuf_room ops byte_elem q - length (evs ! i)"
    using push_bytes_ok [OF assms(1) Suc.prems, of "evs ! i"] by auto
  have d: "concat (drop i evs) = evs ! i @ concat (drop (Suc i) evs)"
    using i by (simp add: drop_eq_Cons_nth)
  show ?case
  proof (cases "rbuf_room ops byte_elem q < length (evs ! i)")
    case True
    then show ?thesis using q1 i d
      by (subst read_loop.simps) (simp add: assms(2, 3))
  next
    case False
    moreover have "n = length evs - Suc i" using Suc.hyps(2) by simp
    from Suc.hyps(1) [OF this q1(2)] show ?thesis using q1 i d False
      by (subst read_loop.simps) (auto simp: assms(2, 3) add.commute less_diff_conv)
  qed
qed

lemma jw_get_exact:
  assumes "jack_ring ops rinv content" "in_holds rinv content (ji_in_buf p) bs" "addr \<noteq> 0"
    and "buf (ji_in_buf p) = Some r" "rb_get_read_vector ops r = (s0, s1)" "seg_len s1 = 0"
  shows "jw_get ops addr p = Some (Inr (p\<lparr>ji_in_buf := (ji_in_buf p)\<lparr>buf :=
      Some (rb_read_advance ops r (length bs - length (snd (parse_bytes bs))))\<rparr>\<rparr>, fst (parse_bytes bs)))"
proof -
  have r: "rinv r" "content r = bs" using assms(2, 4) by (auto simp: rbuf_holds_def)
  obtain it e where ie: "iter_begin ops addr r = Inr it" "iter_end ops addr r = Inr e" "iter_valid it e"
      "iter_rest it e = bs" "it_offset it = 0" "it_ringbuf it = addr"
    using jack_ring.iters_contiguous [OF assms(1) r(1) assms(5, 6, 3)] r(2) by blast
  obtain nxt where nxt: "parse ring_iter_ops it e = Some (Inr (fst (parse_bytes bs), nxt))" "iter_valid nxt e"
      "iter_rest nxt e = snd (parse_bytes bs)"
    using byte_iterator.parse_correct [OF ring_it.byte_iterator_axioms ie(3)] ie(4) by auto
  have same: "nxt\<lparr>it_offset := iter_total nxt\<rparr> = it\<lparr>it_offset := iter_total it\<rparr>"
    using nxt(2) ie(3) by (simp add: iter_valid_def)
  then have it: "it_ringbuf nxt = addr" "iter_observed nxt = iter_observed it" "iter_total nxt = iter_total it"
    using ie(6) by (metis iter_observed_offset iter_total_offset ring_iter.select_convs(1) ring_iter.surjective ring_iter.update_convs(4))+
  have rest: "snd (parse_bytes bs) = drop (it_offset nxt) bs"
    using nxt(3) ie(4, 5) by (simp add: iter_rest_def it(2))
  have "it_offset nxt \<le> length bs"
    using nxt(2) ie(4, 5) length_iter_rest [of it e] by (simp add: iter_valid_def it(3))
  then have taken: "it_offset nxt = length bs - length (snd (parse_bytes bs))" using rest by simp
  have minus: "iter_minus nxt it = Inr (it_offset nxt)"
    using it(1) ie(5, 6) by (simp add: iter_minus_def)
  show ?thesis
    using assms(4) ie(1, 2) nxt(1) minus by (simp add: jw_get_def rbuf_data_def taken)
qed

lemma jw_get_contiguous:
  assumes "jack_ring ops rinv content" "in_holds rinv content (ji_in_buf p) bs" "addr \<noteq> 0"
    and "buf (ji_in_buf p) = Some r" "rb_get_read_vector ops r = (s0, s1)" "seg_len s1 = 0"
  shows "\<exists>p'. jw_get ops addr p = Some (Inr (p', fst (parse_bytes bs))) \<and>
    in_holds rinv content (ji_in_buf p') (snd (parse_bytes bs)) \<and>
    p' = p\<lparr>ji_in_buf := ji_in_buf p'\<rparr>"
proof -
  let ?k = "length bs - length (snd (parse_bytes bs))"
  have r: "rinv r" "content r = bs" using assms(2, 4) by (auto simp: rbuf_holds_def)
  obtain t where t: "bs = t @ snd (parse_bytes bs)" using parse_bytes_suffix by blast
  then have "drop ?k bs = snd (parse_bytes bs)"
    by (metis add_diff_cancel_right' append_eq_conv_conj length_append)
  moreover have "rinv (rb_read_advance ops r ?k)" "content (rb_read_advance ops r ?k) = drop ?k bs"
    using jack_ring.advance_law [OF assms(1) r(1), of ?k] r(2) by auto
  ultimately show ?thesis by (auto simp: jw_get_exact [OF assms] rbuf_holds_def)
qed

lemma write_callback_all:
  assumes "jack_ring ops rinv content" "port_accepts jm" "out_holds rinv content (ji_out_buf p) es"
    and "list_all wire_event es" "length es \<le> nframes div 3"
  shows "\<exists>p'. write_callback ops jm p b nframes = Inr (p', port_write_events jm es (jm_clear jm b), 0) \<and>
    out_holds rinv content (ji_out_buf p') []"
proof -
  have "\<forall>e \<in> set es. ev_type e \<noteq> SYSTEM_MESSAGE" using assms(4) by (auto simp: list_all_iff wire_event_def)
  from write_loop_ok [OF assms(1-3) this, of "nframes div 3" "jm_clear jm b"] assms(5)
  show ?thesis by (auto simp: write_callback_def)
qed

section \<open>Properties\<close>

text \<open>A port buffer as the list of its events with their times, at which the witnesses evaluate.\<close>

definition list_midi :: "(nat \<times> byte list) list jack_midi" where
  "list_midi = \<lparr>jm_event_count = length, jm_event_get = (\<lambda>b i. if i < length b then Some (snd (b ! i)) else None),
     jm_clear = (\<lambda>_. []), jm_event_write = (\<lambda>b t bs. (b @ [(t, bs)], 0))\<rparr>"

definition sample_impl :: "ring jack_impl" where
  "sample_impl = \<lparr>ji_client = Some 1, ji_active = False, ji_midi_in = Some 1, ji_midi_out = Some 2,
     ji_callbacks_set = True, ji_xrun_cb = 0,
     ji_in_buf = \<lparr>buf = Some \<lparr>mem = replicate 8 0, rd = 0, wr = 0\<rparr>, buf_size = 8\<rparr>,
     ji_out_buf = \<lparr>buf = Some \<lparr>mem = replicate 16 0, rd = 0, wr = 0\<rparr>, buf_size = 4\<rparr>\<rparr>"

lemma sample_impl_holds:
  "in_holds ring_ok ring_content (ji_in_buf sample_impl) []"
  "out_holds ring_ok ring_content (ji_out_buf sample_impl) []"
  by (auto simp: rbuf_holds_def sample_impl_def ring_ok_def ring_content_def ring_read_space_def)



text \<open>The input direction: the process callback appends the bytes of the period's events to the
  input buffer in order; when they do not all fit it keeps the first of them, as many as fit, and
  returns 1.\<close>

theorem input_appends:
  assumes "jack_ring ops rinv content" "in_holds rinv content (ji_in_buf p) bs"
    and "jm_event_count jm b = length evs" "\<And>i. i < length evs \<Longrightarrow> jm_event_get jm b i = Some (evs ! i)"
  shows "\<exists>p'. read_callback ops jm p b = Inr (p', if rbuf_room ops byte_elem (ji_in_buf p) < length (concat evs) then 1 else 0) \<and>
    in_holds rinv content (ji_in_buf p') (bs @ take (rbuf_room ops byte_elem (ji_in_buf p)) (concat evs))"
  using read_loop_ok [OF assms(1, 3, 4) assms(2), of 0] by (auto simp: read_callback_def)

lemma input_appends_witness:
  "\<exists>p'. read_callback ring_ops list_midi sample_impl [(0, [0x90, 60, 100]), (1, [0x80, 60, 0]), (2, [0x90, 62])] = Inr (p', 1) \<and>
    in_holds ring_ok ring_content (ji_in_buf p') [0x90, 60, 100, 0x80, 60, 0, 0x90]"
proof -
  let ?b = "[(0, [0x90, 60, 100]), (1, [0x80, 60, 0]), (2, [0x90, 62])]"
  have "rbuf_room ring_ops byte_elem (ji_in_buf sample_impl) = 7" by code_simp
  then show ?thesis
    using input_appends [OF ref_ring.jack_ring_axioms sample_impl_holds(1), of list_midi ?b "map snd ?b"]
    by (simp add: list_midi_def nth_Cons split: nat.splits)
qed

text \<open>C32: Taking an event from the input buffer, while its bytes lie in one segment of the ring, gives the
  first message in it and removes exactly the bytes up to the next status byte; bytes that hold
  no status byte are removed and reported as a note-off event of channel 0.\<close>

theorem input_parsed:
  assumes "jack_ring ops rinv content" "in_holds rinv content (ji_in_buf p) bs" "addr \<noteq> 0"
    and "buf (ji_in_buf p) = Some r" "rb_get_read_vector ops r = (s0, s1)" "seg_len s1 = 0"
  shows "\<exists>p'. jw_get ops addr p = Some (Inr (p', fst (parse_bytes bs))) \<and>
    in_holds rinv content (ji_in_buf p') (snd (parse_bytes bs)) \<and>
    ((\<forall>b \<in> set bs. data_byte b) \<longrightarrow> parse_bytes bs = (make_event NOTE_OFF 0 0 0, []))"
proof -
  have "parse_bytes bs = (make_event NOTE_OFF 0 0 0, [])" if "\<forall>b \<in> set bs. data_byte b"
  proof -
    have none: "dropWhile data_byte bs = []" using that by (simp only: dropWhile_eq_Nil_conv)
    show ?thesis unfolding parse_bytes_def none by (simp add: default_event_def make_event_def)
  qed
  then show ?thesis using jw_get_contiguous [OF assms] by blast
qed

lemma input_parsed_witness:
  "\<exists>p'. jw_get ring_ops 1 (sample_impl\<lparr>ji_in_buf := \<lparr>buf = Some \<lparr>mem = [7, 0x90, 60, 100, 0x80, 60, 0, 0], rd = 0, wr = 7\<rparr>, buf_size = 8\<rparr>\<rparr>) =
      Some (Inr (p', make_event NOTE_ON 0 60 100)) \<and>
    in_holds ring_ok ring_content (ji_in_buf p') [0x80, 60, 0]"
proof -
  let ?r = "\<lparr>mem = [7, 0x90, 60, 100, 0x80, 60, 0, 0], rd = 0, wr = 7\<rparr> :: ring"
  let ?p = "sample_impl\<lparr>ji_in_buf := \<lparr>buf = Some ?r, buf_size = 8\<rparr>\<rparr>"
  have c: "ring_content ?r = [7, 0x90, 60, 100, 0x80, 60, 0]" by code_simp
  then have "in_holds ring_ok ring_content (ji_in_buf ?p) [7, 0x90, 60, 100, 0x80, 60, 0]"
    by (simp add: rbuf_holds_def ring_ok_def)
  moreover have "rb_get_read_vector ring_ops ?r = (ring_segment ?r 0 7, ring_segment ?r 0 0)"
    "seg_len (ring_segment ?r 0 0) = 0"
    by (simp_all add: ring_read_vector_def ring_read_space_def ring_segment_def)
  moreover have p: "parse_bytes [7, 0x90, 60, 100, 0x80, 60, 0] = (make_event NOTE_ON 0 60 100, [0x80, 60, 0])"
    by code_simp
  ultimately show ?thesis
    using input_parsed [OF ref_ring.jack_ring_axioms, of ?p "[7, 0x90, 60, 100, 0x80, 60, 0]" 1 ?r]
    unfolding p by auto
qed

text \<open>A constructor that throws after it opened the client closes it.  A new wrapper is not active,
  and activating it never makes it so: \<open>deactivate\<close> and the destructor then leave the JACK client
  active and only close it.\<close>

theorem activation_not_recorded:
  assumes "jw_new api ops j name = (j', r)"
  shows "(\<forall>e j1 c i out. r = Inl e \<longrightarrow> j_client_open api j name = (j1, Some c) \<longrightarrow>
      rbuf_new ops byte_elem IN_BUF_SIZE = Inr i \<longrightarrow> rbuf_new ops event_elem OUT_BUF_SIZE = Inr out \<longrightarrow>
      (\<exists>j2. j' = j_client_close api j2 c)) \<and>
    (\<forall>p v v' p' r'. r = Inr p \<longrightarrow> jw_activate api v p = (v', p', r') \<longrightarrow>
      \<not> ji_active p' \<and> jw_deactivate api v' p' = (v', p', Inr ()) \<and> jw_destroy api v' p' = jw_release api v' p')"
proof -
  have new: "\<not> ji_active p" if "r = Inr p" for p
    using assms that
    by (auto simp: jw_new_def init_client_def init_ports_def init_process_callback_def init_xrun_callback_def Let_def
        split: sum.splits prod.splits option.splits if_splits)
  have same: "p' = p" if "jw_activate api v p = (v', p', r')" for v p v' p' r'
    using that by (auto simp: jw_activate_def split: if_splits option.splits prod.splits)
  have failed: "\<exists>j2. j' = j_client_close api j2 c"
    if "r = Inl e" "j_client_open api j name = (j1, Some c)"
      "rbuf_new ops byte_elem IN_BUF_SIZE = Inr i" "rbuf_new ops event_elem OUT_BUF_SIZE = Inr out" for e j1 c i out
    using assms that
    by (auto simp: jw_new_def init_client_def init_ports_def init_process_callback_def init_xrun_callback_def
        jw_release_def Let_def split: sum.splits prod.splits option.splits if_splits)
  have idle: "jw_deactivate api v p = (v, p, Inr ()) \<and> jw_destroy api v p = jw_release api v p"
    if "\<not> ji_active p" for v p
    using that by (simp add: jw_deactivate_def jw_destroy_def Let_def split: option.splits)
  show ?thesis
  proof (intro conjI allI impI)
    fix p v v' p' r' assume "r = Inr p" "jw_activate api v p = (v', p', r')"
    with new same idle show "\<not> ji_active p'" "jw_deactivate api v' p' = (v', p', Inr ())"
      "jw_destroy api v' p' = jw_release api v' p'" by blast+
  qed (use failed in blast)
qed

text \<open>A libjack that logs its calls.\<close>

datatype jack_call = Open | Close | Register string | Unregister nat | Set_process | Set_xrun | Activate | Deactivate

definition log_api :: "jack_call list jack_api" where
  "log_api = \<lparr>j_client_open = (\<lambda>j _. (j @ [Open], Some 1)), j_client_close = (\<lambda>j _. j @ [Close]),
     j_port_register = (\<lambda>j _ n inp. (j @ [Register n], Some (if inp then 1 else 2))),
     j_port_unregister = (\<lambda>j _ n. j @ [Unregister n]),
     j_set_process_callback = (\<lambda>j _. (j @ [Set_process], 0)), j_set_xrun_callback = (\<lambda>j _. (j @ [Set_xrun], 0)),
     j_activate = (\<lambda>j _. (j @ [Activate], 0)), j_deactivate = (\<lambda>j _. (j @ [Deactivate], 0))\<rparr>"

lemma activation_not_recorded_witness:
  "\<exists>p. jw_new log_api ring_ops [] ''F1'' = ([Open, Register ''in'', Register ''out'', Set_process, Set_xrun], Inr p) \<and>
    jw_deactivate log_api [Activate] (fst (snd (jw_activate log_api [] p))) = ([Activate], fst (snd (jw_activate log_api [] p)), Inr ())"
proof -
  have b: "\<exists>i. rbuf_new ring_ops byte_elem IN_BUF_SIZE = Inr i" "\<exists>i. rbuf_new ring_ops event_elem OUT_BUF_SIZE = Inr i"
    by (simp_all add: rbuf_new_def rbuf_init_buf_def ring_create_def with_ring_def ring_read_space_def)
  then obtain p where p: "jw_new log_api ring_ops [] ''F1'' = ([Open, Register ''in'', Register ''out'', Set_process, Set_xrun], Inr p)"
    by (auto simp: jw_new_def log_api_def init_client_def init_ports_def init_process_callback_def init_xrun_callback_def Let_def)
  moreover obtain v' p' r' where a: "jw_activate log_api [] p = (v', p', r')" by (cases "jw_activate log_api [] p") auto
  moreover have "ji_client p = Some 1 \<and> \<not> ji_active p"
    using p by (auto simp: jw_new_def log_api_def init_client_def init_ports_def init_process_callback_def init_xrun_callback_def Let_def
        split: sum.splits)
  then have "v' = [Activate]"
    using a by (auto simp: jw_activate_def log_api_def split: if_splits)
  ultimately show ?thesis
    using activation_not_recorded [OF p, THEN conjunct2] by auto
qed

end
