(* ===== verification/Driver_Main.thy ===== *)
theory Driver_Main
  imports Io_Mapper Jack_Wrapper
begin

text \<open>
  \<open>driver/src/main.cpp\<close>: device discovery, the configuration, the input thread and the MIDI loop.
  The two threads share the mapper and the device without a lock; one turn of either loop is
  modelled, as a function of the shared state it starts from.  Console output and sleeping are not
  modelled.
\<close>

section \<open>Discovery\<close>

definition MAX_HIDRAW_DEVICE_IDX :: nat where "MAX_HIDRAW_DEVICE_IDX = 100"
definition HIDRAW_PREFIX :: string where "HIDRAW_PREFIX = ''/dev/hidraw''"
definition BATCH_SIZE :: nat where "BATCH_SIZE = 1024"

definition dev_path :: "nat \<Rightarrow> string" where
  "dev_path i = HIDRAW_PREFIX @ show_nat i"

text \<open>
  What one turn of the loop does: it returns the device, goes on, ends the loop, or lets an
  exception escape.  A device that is not kept is closed on the way out of the block.
\<close>

datatype probe = Found f1_impl | Go_on | Give_up | Escapes failure

definition probe_device ::
    "'w posix \<Rightarrow> input_state \<Rightarrow> input_state \<Rightarrow> 'w \<Rightarrow> nat \<Rightarrow> 'w \<times> probe" where
  "probe_device os indet indet_old w i =
     (case hid_open os w (dev_path i) of
        (w1, Inl Hid_permission_denied) \<Rightarrow> (w1, Go_on)
      | (w1, Inl Hid_error) \<Rightarrow> (w1, Give_up)
      | (w1, Inl e) \<Rightarrow> (w1, Escapes e)
      | (w1, Inr f) \<Rightarrow>
          (case hid_devinfo os w1 f of
             (w2, Inl e) \<Rightarrow> (case fd_destroy os w2 f of
                 (w3, Inl e') \<Rightarrow> (w3, Escapes e')
               | (w3, Inr _) \<Rightarrow> (w3, if e = Hid_error then Give_up else Escapes e))
           | (w2, Inr info) \<Rightarrow>
               if is_f1_device info then
                 (case f1_new indet indet_old (fst (fd_move f)) of
                    Inl e \<Rightarrow> (w2, Escapes e) | Inr d \<Rightarrow> (w2, Found d))
               else (case fd_destroy os w2 f of
                 (w3, Inl e) \<Rightarrow> (w3, Escapes e) | (w3, Inr _) \<Rightarrow> (w3, Go_on))))"

fun discover_from ::
    "'w posix \<Rightarrow> input_state \<Rightarrow> input_state \<Rightarrow> nat list \<Rightarrow> 'w \<Rightarrow> 'w \<times> f1_impl option res" where
  "discover_from os a b [] w = (w, Inr None)"
| "discover_from os a b (i # is) w = (case probe_device os a b w i of
     (w1, Found d) \<Rightarrow> (w1, Inr (Some d))
   | (w1, Go_on) \<Rightarrow> discover_from os a b is w1
   | (w1, Give_up) \<Rightarrow> (w1, Inr None)
   | (w1, Escapes e) \<Rightarrow> (w1, Inl e))"

definition discover_device ::
    "'w posix \<Rightarrow> input_state \<Rightarrow> input_state \<Rightarrow> 'w \<Rightarrow> 'w \<times> f1_impl option res" where
  "discover_device os a b w = discover_from os a b [0..<MAX_HIDRAW_DEVICE_IDX] w"

section \<open>Configuration\<close>

definition RED :: button_color where "RED = rgb2color FULL_BRIGHTNESS DARK DARK"
definition GREEN :: button_color where "GREEN = rgb2color DARK FULL_BRIGHTNESS DARK"
definition BLUE :: button_color where "BLUE = rgb2color DARK DARK FULL_BRIGHTNESS"
definition YELLOW :: button_color where "YELLOW = rgb2color FULL_BRIGHTNESS FULL_BRIGHTNESS DARK"

definition main_mapper :: io_mapper where
  "main_mapper = default_mapper\<lparr>matrix_colors :=
       [RED, GREEN, GREEN, RED,
        GREEN, YELLOW, YELLOW, GREEN,
        GREEN, BLUE, YELLOW, GREEN,
        RED, GREEN, GREEN, RED],
     toggle_matrix := replicate 16 True\<rparr>"

section \<open>The input thread\<close>

text \<open>The handler passed to \<open>read_events\<close>, on the mapper and the JACK wrapper.\<close>

definition input_handler ::
    "'rb jack_rb \<Rightarrow> input_event \<Rightarrow> 'w \<times> f1_impl \<times> io_mapper \<times> 'rb jack_impl \<Rightarrow>
     ('w \<times> f1_impl \<times> io_mapper \<times> 'rb jack_impl) res" where
  "input_handler ops event st = (case st of (w, dev, m, jack) \<Rightarrow>
     bind_res (process_HID_input m event (f1_out dev)) (\<lambda>(midi, m', out).
     bind_res (case midi of None \<Rightarrow> Inr jack | Some e \<Rightarrow> jw_put ops jack e) (\<lambda>jack'.
       Inr (w, dev\<lparr>f1_out := out\<rparr>, m', jack'))))"

definition input_turn ::
    "'w posix \<Rightarrow> 'rb jack_rb \<Rightarrow> 'w \<Rightarrow> f1_impl \<Rightarrow> io_mapper \<Rightarrow> 'rb jack_impl \<Rightarrow>
     ('w \<times> f1_impl \<times> io_mapper \<times> 'rb jack_impl) res" where
  "input_turn os ops w dev m jack =
     bind_res (f1_read_events os (input_handler ops) w dev (m, jack)) (\<lambda>(w1, dev1, m1, jack1).
     case f1_write os w1 dev1 of
       (w2, dev2, Inl e) \<Rightarrow> Inl e
     | (w2, dev2, Inr _) \<Rightarrow> Inr (w2, dev2, m1, jack1))"

section \<open>The MIDI loop\<close>

text \<open>At most \<open>k\<close> further events of a batch; the flag is the local \<open>write_hid\<close>.\<close>

fun midi_batch ::
    "'rb jack_rb \<Rightarrow> nat \<Rightarrow> io_mapper \<Rightarrow> nat \<Rightarrow> 'rb jack_impl \<Rightarrow> output_state \<Rightarrow> bool \<Rightarrow>
     ('rb jack_impl \<times> output_state \<times> bool) res option" where
  "midi_batch ops addr m 0 jack out write_hid =
     Some (bind_res (read_bufsize ops jack) (\<lambda>_. Inr (jack, out, write_hid)))"
| "midi_batch ops addr m (Suc k) jack out write_hid =
     (case read_bufsize ops jack of
        Inl e \<Rightarrow> Some (Inl e)
      | Inr n \<Rightarrow> if n = 0 then Some (Inr (jack, out, write_hid))
          else Option.bind (jw_get ops addr jack) (\<lambda>r. case r of
            Inl e \<Rightarrow> Some (Inl e)
          | Inr (jack1, event) \<Rightarrow> (case process_MIDI_event m event out of
              Inl e \<Rightarrow> Some (Inl e)
            | Inr (changed, out1) \<Rightarrow> midi_batch ops addr m k jack1 out1 changed)))"

definition midi_turn ::
    "'w posix \<Rightarrow> 'rb jack_rb \<Rightarrow> nat \<Rightarrow> 'w \<Rightarrow> f1_impl \<Rightarrow> io_mapper \<Rightarrow> 'rb jack_impl \<Rightarrow>
     ('w \<times> f1_impl \<times> 'rb jack_impl) res option" where
  "midi_turn os ops addr w dev m jack =
     map_option (\<lambda>r. bind_res r (\<lambda>(jack1, out, write_hid).
         let dev1 = dev\<lparr>f1_out := out\<rparr> in
         if write_hid then (case f1_write os w dev1 of
             (w1, dev2, Inl e) \<Rightarrow> Inl e
           | (w1, dev2, Inr _) \<Rightarrow> Inr (w1, dev2, jack1))
         else Inr (w, dev1, jack1)))
       (midi_batch ops addr m BATCH_SIZE jack (f1_out dev) False)"

section \<open>Lemmas\<close>

text \<open>Probing one index after another, each passed over.\<close>

inductive passed_over ::
    "'w posix \<Rightarrow> input_state \<Rightarrow> input_state \<Rightarrow> 'w \<Rightarrow> nat list \<Rightarrow> 'w \<Rightarrow> bool" for os a b where
  none: "passed_over os a b w [] w"
| go_on: "probe_device os a b w i = (w1, Go_on) \<Longrightarrow> passed_over os a b w1 is w2 \<Longrightarrow> passed_over os a b w (i # is) w2"

inductive_cases passed_over_ConsE: "passed_over os a b w (i # is) w2"

lemma discover_passed_over:
  "passed_over os a b w is w1 \<Longrightarrow> discover_from os a b (is @ js) w = discover_from os a b js w1"
  by (induction rule: passed_over.induct) auto

lemma discover_from_new: "discover_from os a b is w = (w', Inr (Some d)) \<Longrightarrow> \<exists>f. f1_new a b f = Inr d"
proof (induction "is" arbitrary: w)
  case (Cons i "is")
  obtain w1 r where p: "probe_device os a b w i = (w1, r)" by fastforce
  with Cons show ?case
  proof (cases r)
    case (Found d')
    with Cons.prems p have "d' = d" by simp
    with p Found show ?thesis
      by (auto simp: probe_device_def split: prod.splits sum.splits failure.splits if_splits)
  qed (use Cons p in auto)
qed simp

text \<open>The parser's view of a sequence of takes from the input buffer.\<close>

inductive takes ::
    "'rb jack_rb \<Rightarrow> nat \<Rightarrow> 'rb jack_impl \<Rightarrow> midi_event list \<Rightarrow> 'rb jack_impl \<Rightarrow> bool" for ops addr where
  drained: "read_bufsize ops jack = Inr 0 \<Longrightarrow> takes ops addr jack [] jack"
| one: "read_bufsize ops jack = Inr n \<Longrightarrow> n \<noteq> 0 \<Longrightarrow> jw_get ops addr jack = Some (Inr (jack1, e)) \<Longrightarrow>
    takes ops addr jack1 es jack2 \<Longrightarrow> takes ops addr jack (e # es) jack2"

fun process_MIDI_events :: "io_mapper \<Rightarrow> midi_event list \<Rightarrow> output_state \<Rightarrow> (bool list \<times> output_state) res" where
  "process_MIDI_events m [] out = Inr ([], out)"
| "process_MIDI_events m (e # es) out = bind_res (process_MIDI_event m e out) (\<lambda>(c, out1).
     bind_res (process_MIDI_events m es out1) (\<lambda>(cs, out2). Inr (c # cs, out2)))"

lemma midi_batch_takes:
  "takes ops addr jack es jack' \<Longrightarrow> length es \<le> k \<Longrightarrow> process_MIDI_events m es out = Inr (cs, out') \<Longrightarrow>
   midi_batch ops addr m k jack out wh = Some (Inr (jack', out', if cs = [] then wh else last cs))"
proof (induction arbitrary: k out cs wh rule: takes.induct)
  case (drained jack)
  then show ?case by (cases k) auto
next
  case (one jack n jack1 e es jack2)
  then obtain k' where k: "k = Suc k'" by (cases k) auto
  obtain c out1 cs' where c: "process_MIDI_event m e out = Inr (c, out1)" "process_MIDI_events m es out1 = Inr (cs', out')"
    "cs = c # cs'"
    using one.prems(2) by (auto simp: bind_res_Inr_iff)
  have "midi_batch ops addr m k' jack1 out1 c = Some (Inr (jack2, out', if cs' = [] then c else last cs'))"
    by (rule one.IH) (use one.prems(1) k c in auto)
  then show ?case using one.hyps c k by simp
qed

text \<open>What the mapper makes of a list of input events: the MIDI events in order, and where it ends.\<close>

fun mapped :: "io_mapper \<Rightarrow> output_state \<Rightarrow> input_event list \<Rightarrow> (midi_event list \<times> io_mapper \<times> output_state) res" where
  "mapped m out [] = Inr ([], m, out)"
| "mapped m out (ev # evs) =
     bind_res (process_HID_input m ev out) (\<lambda>(midi, m1, out1).
     bind_res (mapped m1 out1 evs) (\<lambda>(es, m2, out2).
       Inr ((case midi of None \<Rightarrow> es | Some e \<Rightarrow> e # es), m2, out2)))"

lemma mapped_Cons_Inr:
  "process_HID_input m ev out = Inr (midi, m1, out1) \<Longrightarrow> mapped m1 out1 evs = Inr (es, m2, out2) \<Longrightarrow>
   mapped m out (ev # evs) = Inr ((case midi of None \<Rightarrow> [] | Some e \<Rightarrow> [e]) @ es, m2, out2)"
  by (cases midi) simp_all

lemma length_mapped: "mapped m out evs = Inr (es, m', out') \<Longrightarrow> length es \<le> length evs"
  by (induction evs arbitrary: m out es) (fastforce simp: bind_res_Inr_iff split: option.splits)+

lemma input_handler_ok:
  assumes "jack_ring ops rinv content" "io_ok m (f1_out dev)" "event_ok ev" "wf_f1 dev"
    and "out_holds rinv content (ji_out_buf jack) es" "0 < rbuf_room ops event_elem (ji_out_buf jack)"
  shows "\<exists>midi out m' jack'. process_HID_input m ev (f1_out dev) = Inr (midi, m', out) \<and>
    input_handler ops ev (w, dev, m, jack) = Inr (w, dev\<lparr>f1_out := out\<rparr>, m', jack') \<and>
    io_ok m' out \<and> (\<forall>e. midi = Some e \<longrightarrow> wire_event e) \<and>
    out_holds rinv content (ji_out_buf jack') (es @ (case midi of None \<Rightarrow> [] | Some e \<Rightarrow> [e])) \<and>
    rbuf_room ops event_elem (ji_out_buf jack) \<le> rbuf_room ops event_elem (ji_out_buf jack') + 1"
proof -
  obtain midi m' out where p: "process_HID_input m ev (f1_out dev) = Inr (midi, m', out)" "io_ok m' out"
      "\<forall>e. midi = Some e \<longrightarrow> wire_event e"
    using process_HID_input_ok [OF assms(2, 3)] by auto
  show ?thesis
  proof (cases midi)
    case None
    with p assms(5) show ?thesis by (auto simp: input_handler_def)
  next
    case (Some e)
    note t = jack_events [OF assms(1)]
    obtain b' where b': "rbuf_push ops event_elem (ji_out_buf jack) e = Inr b'" "out_holds rinv content b' (es @ [e])"
      "rbuf_room ops event_elem b' = rbuf_room ops event_elem (ji_out_buf jack) - 1"
      using typed_ring.push_room [OF t assms(5, 6)] by blast
    have "jw_put ops jack e = Inr (jack\<lparr>ji_out_buf := b'\<rparr>)"
      using typed_ring.full_eq [OF t assms(5)] assms(6) b'(1) by (simp add: jw_put_def)
    with p b' Some assms(6) show ?thesis by (auto simp: input_handler_def)
  qed
qed

lemma input_handler_fold:
  assumes "jack_ring ops rinv content"
  shows "io_ok m (f1_out dev) \<Longrightarrow> \<forall>ev \<in> set evs. event_ok ev \<Longrightarrow> wf_f1 dev \<Longrightarrow>
    out_holds rinv content (ji_out_buf jack) es \<Longrightarrow> length evs \<le> rbuf_room ops event_elem (ji_out_buf jack) \<Longrightarrow>
    \<exists>out m' jack' new. fold_res (input_handler ops) evs (w, dev, m, jack) = Inr (w, dev\<lparr>f1_out := out\<rparr>, m', jack') \<and>
      mapped m (f1_out dev) evs = Inr (new, m', out) \<and>
      io_ok m' out \<and> list_all wire_event new \<and> out_holds rinv content (ji_out_buf jack') (es @ new)"
proof (induction evs arbitrary: dev m jack es)
  case Nil
  then show ?case by (auto intro!: exI [of _ "f1_out dev"] exI [of _ "[]"])
next
  case (Cons ev evs)
  obtain midi out m' jack' where s: "process_HID_input m ev (f1_out dev) = Inr (midi, m', out)"
    "input_handler ops ev (w, dev, m, jack) = Inr (w, dev\<lparr>f1_out := out\<rparr>, m', jack')"
    "io_ok m' out" "\<forall>e. midi = Some e \<longrightarrow> wire_event e"
    "out_holds rinv content (ji_out_buf jack') (es @ (case midi of None \<Rightarrow> [] | Some e \<Rightarrow> [e]))"
    "rbuf_room ops event_elem (ji_out_buf jack) \<le> rbuf_room ops event_elem (ji_out_buf jack') + 1"
    using input_handler_ok [OF assms, of m dev ev jack es w] Cons.prems by fastforce
  let ?new = "case midi of None \<Rightarrow> [] | Some e \<Rightarrow> [e]"
  have "wf_f1 (dev\<lparr>f1_out := out\<rparr>)" using Cons.prems(3) s(3) by (simp add: wf_f1_def io_ok_def)
  with Cons.IH [of m' "dev\<lparr>f1_out := out\<rparr>" jack' "es @ ?new"] Cons.prems s
  obtain out2 m2 jack2 new2 where r: "fold_res (input_handler ops) evs (w, dev\<lparr>f1_out := out\<rparr>, m', jack') =
      Inr (w, dev\<lparr>f1_out := out2\<rparr>, m2, jack2)" "mapped m' out evs = Inr (new2, m2, out2)" "io_ok m2 out2" "list_all wire_event new2"
      "out_holds rinv content (ji_out_buf jack2) (es @ ?new @ new2)"
    by fastforce
  have "list_all wire_event ?new" using s(4) by (cases midi) simp_all
  with mapped_Cons_Inr [OF s(1) r(2)] r s(2) show ?case by (intro exI [of _ out2] exI [of _ m2] exI [of _ jack2] exI [of _ "?new @ new2"]) simp
qed

text \<open>Every event a report leads to concerns an existing control.\<close>

definition positions_12bit :: "input_state \<Rightarrow> bool" where
  "positions_12bit s \<longleftrightarrow> list_all (\<lambda>v. unat v \<le> 4095) (in_knobs s) \<and> list_all (\<lambda>v. unat v \<le> 4095) (in_faders s)"

lemma input_changes_ok:
  assumes "wf_input new" "positions_12bit new" "ev \<in> set (input_changes new old)"
  shows "event_ok ev"
  using assms
  by (auto simp: input_changes_def button_changes_def encoder_changes_def wheel_changes_def event_ok_def
      f1_sizes unat_index wf_input_def positions_12bit_def list_all_length split: if_splits)

lemma length_changes:
  "length (concat (map (\<lambda>i. if P i then [f i] else []) is)) \<le> length is"
  by (induction "is") auto

lemma length_input_changes: "length (input_changes new old) \<le> 38"
proof -
  have "length (button_changes ty n a b) \<le> n" "length (encoder_changes ty n c d) \<le> n" for ty n a b c d
    using length_changes [of _ _ "[0..<n]"] by (simp_all add: button_changes_def encoder_changes_def)
  note this(1) [of MATRIX 16 "in_matrix new" "in_matrix old"] this(1) [of SPECIAL 9 "in_special new" "in_special old"]
    this(1) [of STOP 4 "in_stop new" "in_stop old"] this(2) [of FADER 4 "in_faders new" "in_faders old"]
    this(2) [of KNOB 4 "in_knobs new" "in_knobs old"]
  moreover have "length (wheel_changes (in_wheel new) (in_wheel old)) \<le> 1" by (simp add: wheel_changes_def Let_def)
  ultimately show ?thesis unfolding input_changes_def f1_sizes by simp
qed

lemma input_turn_ok:
  assumes "jack_ring ops rinv content" "wf_f1 dev" "io_ok m (f1_out dev)"
    and "hid_read os w (f1_dev dev) (f1_in_report dev) = (w1, report, Inr ())"
    and "report ! 0 = INPUT_REPORT_ID \<Longrightarrow> positions_12bit (decoded report)"
    and "out_holds rinv content (ji_out_buf jack) es" "38 \<le> rbuf_room ops event_elem (ji_out_buf jack)"
  shows "\<exists>dev' m' jack' new. io_ok m' (f1_out dev') \<and> wf_f1 dev' \<and> list_all wire_event new \<and>
    f1_in dev' = (if report ! 0 = INPUT_REPORT_ID then decoded report else f1_in dev) \<and>
    mapped m (f1_out dev) (input_changes (f1_in dev') (f1_in dev)) = Inr (new, m', f1_out dev') \<and>
    out_holds rinv content (ji_out_buf jack') (es @ new) \<and>
    input_turn os ops w dev m jack =
      (case hid_write os w1 (f1_dev dev) (report_layout (f1_out dev')) of
         (w2, Inl e) \<Rightarrow> Inl e | (w2, Inr _) \<Rightarrow> Inr (w2, dev', m', jack'))"
proof -
  obtain p1 s where read: "f1_read os w dev = (w1, p1, Inr s)" and p1: "f1_old p1 = f1_in dev" "f1_out p1 = f1_out dev"
      "f1_dev p1 = f1_dev dev" "f1_in p1 = (if report ! 0 = INPUT_REPORT_ID then decoded report else f1_in dev)"
    using f1_read_ok [OF assms(2, 4)] by (auto simp: Let_def)
  have wf1: "wf_f1 p1" by (rule wf_f1_read [OF assms(2) read])
  let ?p2 = "generate_input_events p1" and ?evs = "input_changes (f1_in p1) (f1_in dev)"
  have wfi: "wf_input (f1_in dev)" using assms(2) by (simp add: wf_f1_def)
  have ok: "\<forall>ev \<in> set ?evs. event_ok ev"
  proof (cases "report ! 0 = INPUT_REPORT_ID")
    case True
    then show ?thesis
      using p1(4) assms(5) input_changes_ok [OF wf_decoded] by auto
  next
    case False
    then show ?thesis using p1(4) input_changes_empty_iff [OF wfi wfi] by simp
  qed
  have p2: "wf_f1 ?p2" "f1_out ?p2 = f1_out dev" "f1_dev ?p2 = f1_dev dev" "f1_events ?p2 = ?evs" "f1_in ?p2 = f1_in p1"
    using wf1 p1 by (simp_all add: generate_input_events_def wf_f1_def)
  have "length ?evs \<le> rbuf_room ops event_elem (ji_out_buf jack)"
    using length_input_changes [of "f1_in p1" "f1_in dev"] assms(7) by simp
  then obtain out m' jack' new where h: "fold_res (input_handler ops) ?evs (w1, ?p2, m, jack) = Inr (w1, ?p2\<lparr>f1_out := out\<rparr>, m', jack')"
      "io_ok m' out" "list_all wire_event new" "out_holds rinv content (ji_out_buf jack') (es @ new)"
      "mapped m (f1_out dev) ?evs = Inr (new, m', out)"
    using input_handler_fold [OF assms(1), of m ?p2 ?evs jack es w1] assms(3, 6) ok p2 by auto
  have ev: "f1_read_events os (input_handler ops) w dev (m, jack) = Inr (w1, ?p2\<lparr>f1_out := out\<rparr>, m', jack')"
    by (simp add: f1_read_events_def read Let_def p2(4) h(1))
  let ?d = "?p2\<lparr>f1_out := out\<rparr>"
  have o: "wf_output out" "dim_output out" using h(2) by (auto simp: io_ok_def)
  have "length (f1_out_report ?d) = 81" using p2(1) by (simp add: wf_f1_def)
  then have upd: "update_out_report ?d = Inr (?d\<lparr>f1_out_report := report_layout out\<rparr>)"
    using o by (simp add: update_out_report_def encode_report_eq)
  have "wf_f1 (?d\<lparr>f1_out_report := report_layout out\<rparr>)"
    using p2(1) o by (simp add: wf_f1_def)
  moreover have "input_turn os ops w dev m jack = (case hid_write os w1 (f1_dev dev) (report_layout out) of
         (w2, Inl e) \<Rightarrow> Inl e | (w2, Inr _) \<Rightarrow> Inr (w2, ?d\<lparr>f1_out_report := report_layout out\<rparr>, m', jack'))"
    by (auto simp: input_turn_def ev f1_write_def upd p2(3) split: prod.splits sum.splits)
  ultimately show ?thesis using h(2-5) p1(4) p2(5)
    by (intro exI [of _ "?d\<lparr>f1_out_report := report_layout out\<rparr>"] exI [of _ m'] exI [of _ jack'] exI [of _ new]) auto
qed

section \<open>Properties\<close>

text \<open>Nodes by index for the witnesses: the device information, or nothing where access is denied.\<close>

record fleet =
  fl_nodes :: "hidraw_devinfo option list"
  fl_errno :: int
  fl_closed :: "int list"

definition fleet_os :: "fleet posix" where
  "fleet_os = \<lparr>
     sys_open = (\<lambda>w path. case filter (\<lambda>i. dev_path i = path) [0..<length (fl_nodes w)] of
        [] \<Rightarrow> (w\<lparr>fl_errno := 2\<rparr>, -1)
      | i # _ \<Rightarrow> if fl_nodes w ! i = None then (w\<lparr>fl_errno := 13\<rparr>, -1) else (w, int i)),
     sys_close = (\<lambda>w n. (w\<lparr>fl_closed := fl_closed w @ [n]\<rparr>, 0)),
     sys_ioctl_rawinfo = (\<lambda>w n. case fl_nodes w ! nat n of
        None \<Rightarrow> (w, -1, \<lparr>di_bustype = 0, di_vendor = 0, di_product = 0\<rparr>) | Some i \<Rightarrow> (w, 0, i)),
     sys_write = (\<lambda>w n bs. (w, int (length bs))), sys_read = (\<lambda>w n len. (w, -1, [])),
     sys_errno = fl_errno\<rparr>"

definition sample_fleet :: fleet where
  "sample_fleet = \<lparr>fl_nodes = [None, Some \<lparr>di_bustype = 3, di_vendor = 1, di_product = 2\<rparr>,
      Some \<lparr>di_bustype = 3, di_vendor = 0x17cc, di_product = 0x1120\<rparr>], fl_errno = 0, fl_closed = []\<rparr>"

text \<open>Discovery takes the device at the first index that is an accessible Traktor Kontrol F1: nodes
  without permission and other devices, which it closes again, are passed over; the first other
  error ends the search.\<close>

theorem discover_first_device:
  assumes "passed_over os a b w [0..<k] w1" "k < 100"
  shows "discover_device os a b w = (case probe_device os a b w1 k of
     (w2, Found d) \<Rightarrow> (w2, Inr (Some d))
   | (w2, Go_on) \<Rightarrow> discover_from os a b [Suc k..<100] w2
   | (w2, Give_up) \<Rightarrow> (w2, Inr None)
   | (w2, Escapes e) \<Rightarrow> (w2, Inl e))"
proof -
  have "[0..<100] = [0..<k] @ k # [Suc k..<100]"
    using upt_add_eq_append [of 0 k "100 - k"] upt_conv_Cons [of k 100] assms(2) by simp
  then show ?thesis
    using discover_passed_over [OF assms(1), of "k # [Suc k..<100]"]
    by (simp add: discover_device_def MAX_HIDRAW_DEVICE_IDX_def)
qed

lemma discover_first_device_witness:
  "\<exists>d. discover_device fleet_os idle_input idle_input sample_fleet =
     (sample_fleet\<lparr>fl_errno := 13, fl_closed := [1]\<rparr>, Inr (Some d)) \<and> fd (f1_dev d) = 2"
proof -
  let ?w1 = "sample_fleet\<lparr>fl_errno := 13\<rparr>" and ?w2 = "sample_fleet\<lparr>fl_errno := 13, fl_closed := [1]\<rparr>"
  have "probe_device fleet_os idle_input idle_input sample_fleet 0 = (?w1, Go_on)"
    "probe_device fleet_os idle_input idle_input ?w1 1 = (?w2, Go_on)" by code_simp+
  note p = this
  have "passed_over fleet_os idle_input idle_input sample_fleet [0, 1] ?w2"
    by (rule passed_over.go_on [OF p(1) passed_over.go_on [OF p(2) passed_over.none]])
  moreover have "[0..<2] = [0, 1 :: nat]" by (simp add: numeral_2_eq_2)
  ultimately have "passed_over fleet_os idle_input idle_input sample_fleet [0..<2] ?w2" by simp
  note d = discover_first_device [OF this]
  obtain w3 r where wr: "probe_device fleet_os idle_input idle_input ?w2 2 = (w3, r)" by fastforce
  have "case probe_device fleet_os idle_input idle_input ?w2 2 of (w, Found f) \<Rightarrow> fd (f1_dev f) = 2 | _ \<Rightarrow> False"
    by code_simp
  then obtain f where f: "r = Found f" "fd (f1_dev f) = 2" unfolding wr by (cases r) auto
  have "fst (probe_device fleet_os idle_input idle_input ?w2 2) = ?w2" by code_simp
  then have "w3 = ?w2" unfolding wr fst_conv .
  with d f wr have "discover_device fleet_os idle_input idle_input sample_fleet = (?w2, Inr (Some f))"
    by (simp only: prod.case probe.case)
  with f show ?thesis by blast
qed

text \<open>C21: One turn of the input thread, given 12-bit positions and room for as many events as a report
  can cause (38), handles every change of the controls without failing: it queues, after what was
  queued, exactly the messages the mapper makes of the changes, all well-formed, keeps mapper and
  device in their invariants, and ends by sending the report of the new output state; only a
  failing device can stop it.\<close>

theorem input_turn_safe:
  assumes "jack_ring ops rinv content" "wf_f1 dev" "io_ok m (f1_out dev)"
    and "hid_read os w (f1_dev dev) (f1_in_report dev) = (w1, report, Inr ())"
    and "report ! 0 = INPUT_REPORT_ID \<Longrightarrow> positions_12bit (decoded report)"
    and "out_holds rinv content (ji_out_buf jack) es" "38 \<le> rbuf_room ops event_elem (ji_out_buf jack)"
  shows "\<exists>dev' m' jack' new. io_ok m' (f1_out dev') \<and> wf_f1 dev' \<and> list_all wire_event new \<and>
    f1_in dev' = (if report ! 0 = INPUT_REPORT_ID then decoded report else f1_in dev) \<and>
    mapped m (f1_out dev) (input_changes (f1_in dev') (f1_in dev)) = Inr (new, m', f1_out dev') \<and>
    out_holds rinv content (ji_out_buf jack') (es @ new) \<and>
    input_turn os ops w dev m jack =
      (case hid_write os w1 (f1_dev dev) (report_layout (f1_out dev')) of
         (w2, Inl e) \<Rightarrow> Inl e | (w2, Inr _) \<Rightarrow> Inr (w2, dev', m', jack'))"
  using input_turn_ok [OF assms] by blast

definition roomy_impl :: "ring jack_impl" where
  "roomy_impl = sample_impl\<lparr>ji_out_buf := \<lparr>buf = Some \<lparr>mem = replicate 256 0, rd = 0, wr = 0\<rparr>, buf_size = 64\<rparr>\<rparr>"

lemma good_main_mapper: "good_config main_mapper"
  by code_simp

lemma input_turn_safe_witness:
  "\<exists>r. input_turn mem_os ring_ops (sample_world [sample_report]) sample_f1 main_mapper roomy_impl = Inr r"
proof -
  have "io_ok main_mapper (f1_out sample_f1)"
    using good_main_mapper by (simp add: io_ok_def sample_f1_def)
  moreover have "hid_read mem_os (sample_world [sample_report]) (f1_dev sample_f1) (f1_in_report sample_f1) =
      (sample_world [], sample_report, Inr ())"
    by (simp add: hid_read_def mem_os_def sample_world_def sample_f1_def sample_report_def fd_get_def)
  moreover have "positions_12bit (decoded sample_report)" by code_simp
  moreover have "out_holds ring_ok ring_content (ji_out_buf roomy_impl) []"
    by (auto simp: rbuf_holds_def roomy_impl_def ring_ok_def ring_content_def ring_read_space_def)
  moreover have "rbuf_room ring_ops event_elem (ji_out_buf roomy_impl) = 63"
    by (simp add: rbuf_room_def roomy_impl_def ring_write_space_def ring_read_space_def event_elem_def)
  ultimately obtain dev' m' jack' where
    "input_turn mem_os ring_ops (sample_world [sample_report]) sample_f1 main_mapper roomy_impl =
      (case hid_write mem_os (sample_world []) (f1_dev sample_f1) (report_layout (f1_out dev')) of
         (w2, Inl e) \<Rightarrow> Inl e | (w2, Inr _) \<Rightarrow> Inr (w2, dev', m', jack'))"
    using input_turn_safe [OF ref_ring.jack_ring_axioms wf_sample_f1(1), of main_mapper mem_os "sample_world [sample_report]"
        "sample_world []" sample_report roomy_impl "[]"] by auto
  then show ?thesis by (simp add: hid_write_def mem_os_def)
qed

text \<open>C35: The MIDI loop takes up to 1024 events and applies all of them to the output state, but sends
  the state only if the last of them reported a change: changes made by earlier events of the
  batch are not shown.\<close>

theorem midi_turn_sends_last:
  assumes "takes ops addr jack es jack'" "length es \<le> 1024"
    and "process_MIDI_events m es (f1_out dev) = Inr (cs, out')"
  shows "midi_turn os ops addr w dev m jack = Some
    (if cs \<noteq> [] \<and> last cs then (case f1_write os w (dev\<lparr>f1_out := out'\<rparr>) of
        (w1, dev2, Inl e) \<Rightarrow> Inl e | (w1, dev2, Inr _) \<Rightarrow> Inr (w1, dev2, jack'))
     else Inr (w, dev\<lparr>f1_out := out'\<rparr>, jack'))"
  using midi_batch_takes [OF assms(1) _ assms(3), of BATCH_SIZE False] assms(2)
  by (simp add: midi_turn_def BATCH_SIZE_def Let_def)

definition batch_impl :: "nat \<Rightarrow> ring jack_impl" where
  "batch_impl n = sample_impl\<lparr>ji_in_buf := \<lparr>buf = Some \<lparr>mem = [0xb1, 70, 127, 0x80, 60, 0, 0, 0], rd = n, wr = 6\<rparr>, buf_size = 8\<rparr>\<rparr>"

lemma batch_impl_get:
  assumes "n < 6" "ring_content \<lparr>mem = [0xb1, 70, 127, 0x80, 60, 0, 0, 0], rd = n, wr = 6\<rparr> = bs"
  shows "jw_get ring_ops 1 (batch_impl n) =
    Some (Inr (batch_impl (n + (length bs - length (snd (parse_bytes bs)))), fst (parse_bytes bs)))"
proof -
  let ?r = "\<lparr>mem = [0xb1, 70, 127, 0x80, 60, 0, 0, 0], rd = n, wr = 6\<rparr> :: ring"
  have space: "ring_read_space ?r = 6 - n" 
  proof -
    have "n = 0 \<or> n = 1 \<or> n = 2 \<or> n = 3 \<or> n = 4 \<or> n = 5" using assms(1) by linarith
    then show ?thesis by (auto simp: ring_read_space_def)
  qed
  then have len: "length bs = 6 - n" using assms(2) by (auto simp: ring_content_def)
  have h: "in_holds ring_ok ring_content (ji_in_buf (batch_impl n)) bs"
    using assms by (simp add: rbuf_holds_def ring_ok_def batch_impl_def)
  have vec: "rb_get_read_vector ring_ops ?r = (ring_segment ?r n (6 - n), ring_segment ?r 0 0)"
    "seg_len (ring_segment ?r 0 0) = 0"
    using assms(1) space by (simp_all add: ring_read_vector_def ring_segment_def)
  have adv: "rb_read_advance ring_ops ?r k = \<lparr>mem = [0xb1, 70, 127, 0x80, 60, 0, 0, 0], rd = n + k, wr = 6\<rparr>"
    if "k \<le> 6 - n" for k
    using that assms(1) by (simp add: ring_read_advance_def)
  have b: "buf (ji_in_buf (batch_impl n)) = Some ?r" by (simp add: batch_impl_def)
  show ?thesis
    using jw_get_exact [OF ref_ring.jack_ring_axioms h _ b vec] adv [of "length bs - length (snd (parse_bytes bs))"] len
    by (simp add: batch_impl_def)
qed

lemma batch_impl_takes:
  "takes ring_ops 1 (batch_impl 0) [make_event CONTROL_CHANGE 1 70 127, make_event NOTE_OFF 0 60 0] (batch_impl 6)"
proof -
  have space: "read_bufsize ring_ops (batch_impl 0) = Inr 6" "read_bufsize ring_ops (batch_impl 3) = Inr 3"
    "read_bufsize ring_ops (batch_impl 6) = Inr 0" by code_simp+
  have c: "ring_content \<lparr>mem = [0xb1, 70, 127, 0x80, 60, 0, 0, 0], rd = 0, wr = 6\<rparr> = [0xb1, 70, 127, 0x80, 60, 0]"
    "ring_content \<lparr>mem = [0xb1, 70, 127, 0x80, 60, 0, 0, 0], rd = 3, wr = 6\<rparr> = [0x80, 60, 0]"
    by code_simp+
  have p: "parse_bytes [0xb1, 70, 127, 0x80, 60, 0] = (make_event CONTROL_CHANGE 1 70 127, [0x80, 60, 0])"
    "parse_bytes [0x80, 60, 0] = (make_event NOTE_OFF 0 60 0, [])" by code_simp+
  have "jw_get ring_ops 1 (batch_impl 0) = Some (Inr (batch_impl 3, make_event CONTROL_CHANGE 1 70 127))"
    "jw_get ring_ops 1 (batch_impl 3) = Some (Inr (batch_impl 6, make_event NOTE_OFF 0 60 0))"
    using batch_impl_get [OF _ c(1)] batch_impl_get [OF _ c(2)] by (simp_all add: p eval_nat_numeral)
  with space show ?thesis by (metis takes.intros zero_neq_numeral)
qed

lemma midi_turn_sends_last_witness:
  "midi_turn mem_os ring_ops 1 (sample_world []) sample_f1 cc_mapper (batch_impl 0) =
     Some (Inr (sample_world [], sample_f1\<lparr>f1_out := default_output\<lparr>os_matrix := WHITE # replicate 15 BLACK\<rparr>\<rparr>, batch_impl 6))"
proof -
  have "process_MIDI_events cc_mapper [make_event CONTROL_CHANGE 1 70 127, make_event NOTE_OFF 0 60 0] (f1_out sample_f1) =
      Inr ([True, False], default_output\<lparr>os_matrix := WHITE # replicate 15 BLACK\<rparr>)"
    by code_simp
  from midi_turn_sends_last [OF batch_impl_takes _ this, of mem_os "sample_world []"] show ?thesis
    by simp
qed

end
