(* ===== verification/Ring_Parse.thy ===== *)
theory Ring_Parse
  imports Ring_Iterator Midi_Event
begin

text \<open>
  \<open>MidiEvent::parse\<close> on the iterators of any ring.  On a ring whose readable part wraps around the parser reads other bytes than were written, but its
  iterator stays inside, so that what it takes is there; and the data bytes of its events are data
  bytes.
\<close>

definition iter_within :: "ring_iter \<Rightarrow> ring_iter \<Rightarrow> bool" where
  "iter_within it e \<longleftrightarrow> it_ringbuf it \<noteq> 0 \<and> it_offset it \<le> iter_total it \<and> e = it\<lparr>it_offset := iter_total it\<rparr>"

lemma iter_within_eq: "iter_within it e \<Longrightarrow> iter_eq it e \<longleftrightarrow> iter_total it \<le> it_offset it"
  by (auto simp: iter_within_def iter_eq_def iter_is_end_def iter_is_readable_def)

lemma iter_within_inc: "iter_within it e \<Longrightarrow> \<not> iter_eq it e \<Longrightarrow> iter_within (iter_inc it) e"
  by (auto simp: iter_within_eq, auto simp: iter_within_def iter_inc_def)

lemma iter_within_end: "iter_within it e \<Longrightarrow> iter_within e e"
  by (auto simp: iter_within_def)

lemma iter_within_deref: "iter_within it e \<Longrightarrow> \<not> iter_eq it e \<Longrightarrow> iter_deref it = Inl x \<Longrightarrow> x = Undefined_behaviour"
  by (auto simp: iter_within_eq, auto simp: iter_within_def iter_deref_observed split: option.splits)

definition skip_ok :: "ring_iter \<Rightarrow> ring_iter res option \<Rightarrow> bool" where
  "skip_ok e r \<longleftrightarrow> (\<exists>r'. r = Some r' \<and> (case r' of Inl x \<Rightarrow> x = Undefined_behaviour | Inr it \<Rightarrow>
     iter_within it e \<and> (iter_eq it e \<or> (\<exists>b. iter_deref it = Inr b \<and> is_status_byte b))))"

lemma skip_within: "iter_within it e \<Longrightarrow> skip_ok e (skip_to_status ring_iter_ops e it)"
proof (induction "iter_total it - it_offset it" arbitrary: it rule: less_induct)
  case less
  show ?case
  proof (cases "iter_eq it e")
    case True
    with less.prems show ?thesis by (simp add: skip_ok_def skip_to_status.simps)
  next
    case False
    show ?thesis
    proof (cases "iter_deref it")
      case (Inl x)
      with False iter_within_deref [OF less.prems False Inl] show ?thesis
        by (simp add: skip_ok_def skip_to_status.simps)
    next
      case (Inr b)
      have "iter_total (iter_inc it) - it_offset (iter_inc it) < iter_total it - it_offset it"
        using False less.prems by (simp add: iter_within_eq iter_inc_def iter_total_def)
      from less.hyps [OF this iter_within_inc [OF less.prems False]] Inr False less.prems show ?thesis
        by (subst skip_to_status.simps) (simp add: skip_ok_def)
    qed
  qed
qed

lemma read_data_within:
  "iter_within it e \<Longrightarrow> unat (ev_raw1 ev) < 128 \<Longrightarrow>
   (case read_data ring_iter_ops e js it ev of Inl x \<Rightarrow> x = Undefined_behaviour
    | Inr (it', ev') \<Rightarrow> iter_within it' e \<and> unat (ev_raw1 ev') < 128)"
proof (induction js arbitrary: it ev)
  case (Cons j js)
  show ?case
  proof (cases "iter_eq it e \<or> (\<exists>b. iter_deref it = Inr b \<and> is_status_byte b)")
    case True
    with Cons.prems show ?thesis by auto
  next
    case False
    show ?thesis
    proof (cases "iter_deref it")
      case (Inl x)
      with False iter_within_deref [OF Cons.prems(1) _ Inl] show ?thesis by simp
    next
      case (Inr b)
      with False have "unat (ev_raw1 (set_raw j b ev)) < 128" using Cons.prems(2) is_status_byte_iff [of b] by (cases j) auto
      from Cons.IH [OF iter_within_inc [OF Cons.prems(1)] this] False Inr show ?thesis by simp
    qed
  qed
qed simp

text \<open>What a parse comes to.\<close>

definition parse_ok :: "ring_iter \<Rightarrow> (midi_event \<times> ring_iter) res option \<Rightarrow> bool" where
  "parse_ok e r \<longleftrightarrow> (\<exists>r'. r = Some r' \<and> (case r' of Inl x \<Rightarrow> x = Undefined_behaviour
     | Inr (ev, it) \<Rightarrow> iter_within it e \<and> unat (ev_raw1 ev) < 128))"

lemma parse_ok_skip:
  assumes "iter_within it e" "unat (ev_raw1 ev) < 128"
  shows "parse_ok e (map_option (\<lambda>r. bind_res r (\<lambda>it4. Inr (ev, it4))) (skip_to_status ring_iter_ops e it))"
proof -
  from skip_within [OF assms(1)] obtain r' where "skip_to_status ring_iter_ops e it = Some r'"
    "case r' of Inl x \<Rightarrow> x = Undefined_behaviour | Inr it \<Rightarrow> iter_within it e \<and> (iter_eq it e \<or> (\<exists>b. iter_deref it = Inr b \<and> is_status_byte b))"
    unfolding skip_ok_def by blast
  with assms(2) show ?thesis by (cases r') (auto simp: parse_ok_def)
qed

lemma parse_within:
  assumes "iter_within it e"
  shows "parse_ok e (parse ring_iter_ops it e)"
proof -
  obtain r1 where r1: "skip_to_status ring_iter_ops e it = Some r1"
    "case r1 of Inl x \<Rightarrow> x = Undefined_behaviour | Inr it \<Rightarrow> iter_within it e \<and> (iter_eq it e \<or> (\<exists>b. iter_deref it = Inr b \<and> is_status_byte b))"
    using skip_within [OF assms] unfolding skip_ok_def by blast
  show ?thesis
  proof (cases r1)
    case (Inl x)
    with r1 show ?thesis by (simp add: parse_def parse_ok_def)
  next
    case (Inr it1)
    with r1(2) have w1: "iter_within it1 e" by simp
    show ?thesis
    proof (cases "iter_eq it1 e")
      case True
      with r1 Inr w1 iter_within_end show ?thesis by (auto simp: parse_def parse_ok_def default_event_def make_event_def)
    next
      case False
      with r1(2) Inr obtain s where s: "iter_deref it1 = Inr s" "is_status_byte s" by auto
      have d: "bind_res (iter_minus e it1) (\<lambda>d. assert_res (d \<noteq> 0)) = Inr ()"
        using w1 False by (auto simp: iter_within_eq, auto simp: iter_within_def iter_minus_def)
      let ?ev = "default_event\<lparr>ev_type := type_of_code (s AND TYPE_MASK), ev_channel := s AND CHANNEL_MASK\<rparr>"
      let ?it2 = "iter_inc it1"
      have w2: "iter_within ?it2 e" by (rule iter_within_inc [OF w1 False])
      have raw: "unat (ev_raw1 ?ev) < 128" by (simp add: default_event_def make_event_def)
      let ?tail = "\<lambda>r3. case r3 of Inl x \<Rightarrow> Some (Inl x) | Inr (it3, ev3) \<Rightarrow>
          map_option (\<lambda>r. bind_res r (\<lambda>it4. Inr (ev3, it4))) (skip_to_status ring_iter_ops e it3)"
      have p: "parse ring_iter_ops it e = Option.bind
          (if ev_type ?ev = SYSTEM_MESSAGE then map_option (\<lambda>r. bind_res r (\<lambda>it3. Inr (it3, ?ev))) (skip_to_status ring_iter_ops e ?it2)
           else Some (read_data ring_iter_ops e [0, 1] ?it2 ?ev)) ?tail"
        using r1(1) Inr False s d by (simp add: parse_def Let_def)
      show ?thesis
      proof (cases "ev_type ?ev = SYSTEM_MESSAGE")
        case True
        obtain r3 where r3: "skip_to_status ring_iter_ops e ?it2 = Some r3"
          "case r3 of Inl x \<Rightarrow> x = Undefined_behaviour | Inr it \<Rightarrow> iter_within it e \<and> (iter_eq it e \<or> (\<exists>b. iter_deref it = Inr b \<and> is_status_byte b))"
          using skip_within [OF w2] unfolding skip_ok_def by blast
        then show ?thesis
        proof (cases r3)
          case (Inl x)
          with r3 True show ?thesis unfolding p by (simp add: parse_ok_def)
        next
          case (Inr it3)
          with r3 have "iter_within it3 e" by simp
          from parse_ok_skip [OF this raw] show ?thesis unfolding p if_P [OF True] using r3(1) Inr by simp
        qed
      next
        case False
        note rd = read_data_within [OF w2 raw, of "[0, 1]"]
        show ?thesis
        proof (cases "read_data ring_iter_ops e [0, 1] ?it2 ?ev")
          case (Inl x)
          with rd show ?thesis unfolding p if_not_P [OF False] Inl by (simp add: parse_ok_def)
        next
          case (Inr y)
          obtain it3 ev3 where y: "y = (it3, ev3)" by fastforce
          with rd Inr have "iter_within it3 e" "unat (ev_raw1 ev3) < 128" by simp_all
          from parse_ok_skip [OF this] show ?thesis unfolding p if_not_P [OF False] Inr y by simp
        qed
      qed
    qed
  qed
qed

end
