(* ===== verification/Landlock.thy ===== *)
theory Landlock
  imports Prelude
begin

text \<open>
  The sandbox of \<open>driver/src/main.cpp\<close> (\<open>setup_landlock\<close>, compiled in with \<open>TKF1_HAVE_LANDLOCK\<close>; the
  rule for the address sanitizer is not modelled).  The Landlock library is a submodule and a
  parameter (\<open>landlock\<close>); what the driver relies on is the locale \<open>landlock_lib\<close>.
\<close>

section \<open>The library\<close>

datatype ll_action = FS_EXECUTE | FS_WRITE_FILE | FS_READ_FILE | FS_READ_DIR | FS_REMOVE_DIR
  | FS_REMOVE_FILE | FS_MAKE_CHAR | FS_MAKE_DIR | FS_MAKE_SOCK | FS_MAKE_FIFO | FS_MAKE_BLOCK
  | FS_MAKE_SYM | FS_REFER | FS_TRUNCATE

record ('w, 'r, 'l) landlock =
  ll_ruleset :: "'w \<Rightarrow> ll_action list \<Rightarrow> 'w \<times> 'l res"
  ll_rule :: 'r
  ll_add_path :: "'w \<Rightarrow> string \<Rightarrow> 'r \<Rightarrow> 'w \<times> 'r \<times> unit res"
  ll_add_action :: "ll_action \<Rightarrow> 'r \<Rightarrow> 'r"
  ll_add_rule :: "'w \<Rightarrow> 'r \<Rightarrow> 'l \<Rightarrow> 'w \<times> 'l \<times> unit res"
  ll_enforce :: "'w \<Rightarrow> 'l \<Rightarrow> 'w \<times> unit res"

text \<open>
  A rule has the paths and actions added to it, a ruleset the actions it handles and its rules; a
  path that cannot be added leaves the rule as it was.
\<close>

locale landlock_lib =
  fixes ll :: "('w, 'r, 'l) landlock"
    and paths :: "'r \<Rightarrow> string list"
    and actions :: "'r \<Rightarrow> ll_action list"
    and handled :: "'l \<Rightarrow> ll_action list"
    and rules :: "'l \<Rightarrow> (string list \<times> ll_action list) list"
  assumes rule_law: "paths (ll_rule ll) = [] \<and> actions (ll_rule ll) = []"
    and path_law: "ll_add_path ll w p r = (w', r', res) \<Longrightarrow>
      actions r' = actions r \<and> paths r' = (if res = Inr () then paths r @ [p] else paths r)"
    and action_law: "paths (ll_add_action ll a r) = paths r \<and> actions (ll_add_action ll a r) = actions r @ [a]"
    and ruleset_law: "ll_ruleset ll w as = (w', Inr l) \<Longrightarrow> handled l = as \<and> rules l = []"
    and add_law: "ll_add_rule ll w r l = (w', l', Inr ()) \<Longrightarrow>
      handled l' = handled l \<and> rules l' = rules l @ [(paths r, actions r)]"

section \<open>Paths\<close>

text \<open>
  \<open>std::filesystem\<close> on POSIX paths: \<open>absolute\<close> is the path in the current directory, and appending an
  absolute path with \<open>/\<close> replaces what is on its left.
\<close>

definition is_absolute :: "string \<Rightarrow> bool" where
  "is_absolute p \<longleftrightarrow> (p \<noteq> [] \<and> hd p = CHR ''/'')"

definition path_append :: "string \<Rightarrow> string \<Rightarrow> string" where
  "path_append p q =
     (if is_absolute q then q
      else if p = [] \<or> last p = CHR ''/'' then p @ q else p @ ''/'' @ q)"

definition path_absolute :: "string \<Rightarrow> string \<Rightarrow> string" where
  "path_absolute cwd p = path_append cwd p"

section \<open>The rules\<close>

definition ENOENT :: int where "ENOENT = 2"

definition HANDLED_ACTIONS :: "ll_action list" where
  "HANDLED_ACTIONS = [FS_EXECUTE, FS_WRITE_FILE, FS_READ_FILE, FS_READ_DIR, FS_REMOVE_DIR, FS_REMOVE_FILE,
     FS_MAKE_CHAR, FS_MAKE_DIR, FS_MAKE_SOCK, FS_MAKE_FIFO, FS_MAKE_BLOCK, FS_MAKE_SYM, FS_REFER, FS_TRUNCATE]"

text \<open>The first rule: the device nodes and the configuration of PipeWire.\<close>

definition device_rule :: "('w, 'r, 'l) landlock \<Rightarrow> string \<Rightarrow> 'w \<Rightarrow> 'w \<times> 'r res" where
  "device_rule ll cwd w =
     (case ll_add_path ll w (path_absolute cwd ''/dev'') (ll_rule ll) of
        (w1, _, Inl e) \<Rightarrow> (w1, Inl e)
      | (w1, r1, Inr _) \<Rightarrow> (case ll_add_path ll w1 ''/usr/share'' r1 of
          (w2, _, Inl e) \<Rightarrow> (w2, Inl e)
        | (w2, r2, Inr _) \<Rightarrow> (w2, Inr (fold (ll_add_action ll) [FS_READ_FILE, FS_WRITE_FILE, FS_READ_DIR] r2))))"

text \<open>
  The second rule: the directories of libjack, every path under every prefix.  A directory that
  does not exist is ignored, any other exception escapes.
\<close>

fun libjack_dirs :: "('w, 'r, 'l) landlock \<Rightarrow> string list \<Rightarrow> 'w \<Rightarrow> 'r \<Rightarrow> 'w \<times> 'r res" where
  "libjack_dirs ll [] w r = (w, Inr r)"
| "libjack_dirs ll (p # ps) w r = (case ll_add_path ll w p r of
     (w1, r1, Inr _) \<Rightarrow> libjack_dirs ll ps w1 r1
   | (w1, r1, Inl e) \<Rightarrow> if e = System_error ENOENT then libjack_dirs ll ps w1 r1 else (w1, Inl e))"

definition libjack_paths :: "string \<Rightarrow> string list" where
  "libjack_paths cwd = concat (map (\<lambda>path. map (\<lambda>prefix. path_append (path_absolute cwd prefix) (path_absolute cwd path))
     [''/'', ''/usr'', ''/usr/local'']) [''/bin'', ''/lib'', ''/lib32'', ''/lib64''])"

definition libjack_rule :: "('w, 'r, 'l) landlock \<Rightarrow> string \<Rightarrow> 'w \<Rightarrow> 'w \<times> 'r res" where
  "libjack_rule ll cwd w =
     libjack_dirs ll (libjack_paths cwd) w (fold (ll_add_action ll) [FS_READ_DIR, FS_READ_FILE, FS_EXECUTE] (ll_rule ll))"

definition build_ruleset :: "('w, 'r, 'l) landlock \<Rightarrow> string \<Rightarrow> 'w \<Rightarrow> 'w \<times> 'l res" where
  "build_ruleset ll cwd w =
     (case ll_ruleset ll w HANDLED_ACTIONS of
        (w1, Inl e) \<Rightarrow> (w1, Inl e)
      | (w1, Inr l) \<Rightarrow> (case device_rule ll cwd w1 of
          (w2, Inl e) \<Rightarrow> (w2, Inl e)
        | (w2, Inr r) \<Rightarrow> (case ll_add_rule ll w2 r l of
            (w3, l1, Inl e) \<Rightarrow> (w3, Inl e)
          | (w3, l1, Inr _) \<Rightarrow> (case libjack_rule ll cwd w3 of
              (w4, Inl e) \<Rightarrow> (w4, Inl e)
            | (w4, Inr r') \<Rightarrow> (case ll_add_rule ll w4 r' l1 of
                (w5, l2, Inl e) \<Rightarrow> (w5, Inl e)
              | (w5, l2, Inr _) \<Rightarrow> (w5, Inr l2))))))"

definition setup_landlock :: "('w, 'r, 'l) landlock \<Rightarrow> string \<Rightarrow> 'w \<Rightarrow> 'w \<times> unit res" where
  "setup_landlock ll cwd w = (case build_ruleset ll cwd w of
     (w1, Inl e) \<Rightarrow> (w1, Inl e) | (w1, Inr l) \<Rightarrow> ll_enforce ll w1 l)"

section \<open>What the rules allow\<close>

lemma path_absolute_simps [simp]: "path_absolute cwd (CHR ''/'' # p) = CHR ''/'' # p"
  by (simp add: path_absolute_def path_append_def is_absolute_def)

lemma libjack_paths_eq:
  "libjack_paths cwd = [''/bin'', ''/bin'', ''/bin'', ''/lib'', ''/lib'', ''/lib'',
     ''/lib32'', ''/lib32'', ''/lib32'', ''/lib64'', ''/lib64'', ''/lib64'']"
  by (simp add: libjack_paths_def path_append_def is_absolute_def)

context landlock_lib
begin

lemma device_rule_ok:
  assumes "device_rule ll cwd w = (w', Inr r)"
  shows "paths r = [''/dev'', ''/usr/share''] \<and> actions r = [FS_READ_FILE, FS_WRITE_FILE, FS_READ_DIR]"
proof -
  obtain w1 r1 x where a: "ll_add_path ll w ''/dev'' (ll_rule ll) = (w1, r1, x)" using prod_cases3 by blast
  obtain w2 r2 y where b: "ll_add_path ll w1 ''/usr/share'' r1 = (w2, r2, y)" using prod_cases3 by blast
  from assms have "x = Inr ()" "y = Inr ()" "r = fold (ll_add_action ll) [FS_READ_FILE, FS_WRITE_FILE, FS_READ_DIR] r2"
    by (auto simp: device_rule_def a b split: sum.splits)
  with path_law [OF a] path_law [OF b] rule_law show ?thesis by (simp add: action_law)
qed

lemma libjack_dirs_ok:
  "libjack_dirs ll ps w r = (w', Inr r') \<Longrightarrow>
    actions r' = actions r \<and> (\<exists>qs. paths r' = paths r @ qs \<and> set qs \<subseteq> set ps)"
proof (induction ps arbitrary: w r)
  case (Cons p ps)
  obtain w1 r1 x where a: "ll_add_path ll w p r = (w1, r1, x)" using prod_cases3 by blast
  with Cons.prems have d: "libjack_dirs ll ps w1 r1 = (w', Inr r')" by (auto split: sum.splits if_splits)
  from Cons.IH [OF d] obtain qs where "actions r' = actions r1" "paths r' = paths r1 @ qs" "set qs \<subseteq> set ps" by blast
  with path_law [OF a] show ?case by (cases "x = Inr ()") auto
qed auto

lemma build_ruleset_ok:
  assumes "build_ruleset ll cwd w = (w', Inr l)"
  shows "handled l = HANDLED_ACTIONS \<and> (\<exists>ps. set ps \<subseteq> {''/bin'', ''/lib'', ''/lib32'', ''/lib64''} \<and>
    rules l = [([''/dev'', ''/usr/share''], [FS_READ_FILE, FS_WRITE_FILE, FS_READ_DIR]),
      (ps, [FS_READ_DIR, FS_READ_FILE, FS_EXECUTE])])"
proof -
  obtain w1 l0 where a: "ll_ruleset ll w HANDLED_ACTIONS = (w1, Inr l0)"
    using assms by (auto simp: build_ruleset_def split: prod.splits sum.splits)
  obtain w2 r where b: "device_rule ll cwd w1 = (w2, Inr r)"
    using assms by (auto simp: build_ruleset_def a split: prod.splits sum.splits)
  obtain w3 l1 where c: "ll_add_rule ll w2 r l0 = (w3, l1, Inr ())"
    using assms by (auto simp: build_ruleset_def a b split: prod.splits sum.splits)
  obtain w4 r' where d: "libjack_rule ll cwd w3 = (w4, Inr r')"
    using assms by (auto simp: build_ruleset_def a b c split: prod.splits sum.splits)
  have e: "ll_add_rule ll w4 r' l1 = (w', l, Inr ())"
    using assms by (auto simp: build_ruleset_def a b c d split: prod.splits sum.splits)
  obtain ps where "actions r' = [FS_READ_DIR, FS_READ_FILE, FS_EXECUTE]" "paths r' = ps" "set ps \<subseteq> set (libjack_paths cwd)"
    using libjack_dirs_ok [OF d [unfolded libjack_rule_def]] rule_law by (auto simp: action_law)
  then show ?thesis
    using ruleset_law [OF a] device_rule_ok [OF b] add_law [OF c] add_law [OF e] by (auto simp: libjack_paths_eq)
qed

end

section \<open>A recording library\<close>

text \<open>The library on a world that is the list of the existing directories.\<close>

definition log_ll :: "(string list, string list \<times> ll_action list, ll_action list \<times> (string list \<times> ll_action list) list) landlock" where
  "log_ll = \<lparr>ll_ruleset = (\<lambda>w as. (w, Inr (as, []))), ll_rule = ([], []),
     ll_add_path = (\<lambda>w p r. if p \<in> set w then (w, (fst r @ [p], snd r), Inr ()) else (w, r, Inl (System_error 2))),
     ll_add_action = (\<lambda>a r. (fst r, snd r @ [a])), ll_add_rule = (\<lambda>w r l. (w, (fst l, snd l @ [r]), Inr ())),
     ll_enforce = (\<lambda>w l. (w, Inr ()))\<rparr>"

interpretation log_lib: landlock_lib log_ll fst snd fst snd
  by unfold_locales (auto simp: log_ll_def split: if_splits)

section \<open>Properties\<close>



end
