(* ===== verification/Driver_Program.thy ===== *)
theory Driver_Program
  imports Driver_Main Ring_Parse Landlock
begin

text \<open>
  The whole program of \<open>driver/src/main.cpp\<close>: the sandbox, the discovery, the mapper and the JACK
  client that \<open>main\<close> sets up, and then the turns of its two threads and of the JACK callback in any
  order (\<open>driver_program\<close>).  A turn is one step here; \<open>Driver_Steps\<close> breaks the turns up.
\<close>

section \<open>The program\<close>

definition NO_DEVICE_FOUND :: int where "NO_DEVICE_FOUND = 2"
definition DEFAULT_CLIENT_NAME :: string where "DEFAULT_CLIENT_NAME = ''Traktor Kontrol F1''"

record ('w, 'rb) driver_state =
  ds_world :: 'w
  ds_dev :: f1_impl
  ds_mapper :: io_mapper
  ds_jack :: "'rb jack_impl"

datatype ('w, 'rb) driver = Running "('w, 'rb) driver_state" | Ended int | Crashed failure

text \<open>
  \<open>sandbox\<close> is \<open>setup_landlock\<close>, or nothing in a build without it.
\<close>

definition driver_boot ::
    "('w \<Rightarrow> 'w \<times> unit res) \<Rightarrow> 'w posix \<Rightarrow> 'rb jack_rb \<Rightarrow> 'j jack_api \<Rightarrow>
     input_state \<Rightarrow> input_state \<Rightarrow> 'w \<Rightarrow> 'j \<Rightarrow> ('w, 'rb) driver" where
  "driver_boot sandbox os ops api a b w j =
     (case sandbox w of
        (w1, Inl e) \<Rightarrow> Crashed e
      | (w1, Inr _) \<Rightarrow> (case discover_device os a b w1 of
          (w2, Inl e) \<Rightarrow> Crashed e
        | (w2, Inr None) \<Rightarrow> Ended NO_DEVICE_FOUND
        | (w2, Inr (Some dev)) \<Rightarrow> (case jw_new api ops j DEFAULT_CLIENT_NAME of
            (j1, Inl e) \<Rightarrow> Crashed e
          | (j1, Inr jack) \<Rightarrow> (case jw_activate api j1 jack of
              (j2, jack1, Inl e) \<Rightarrow> Crashed e
            | (j2, jack1, Inr _) \<Rightarrow>
                Running \<lparr>ds_world = w2, ds_dev = dev, ds_mapper = main_mapper, ds_jack = jack1\<rparr>))))"

text \<open>The threads on the state they share; \<open>addr\<close> is the address of the input ring.\<close>

definition input_step ::
    "'w posix \<Rightarrow> 'rb jack_rb \<Rightarrow> ('w, 'rb) driver_state \<Rightarrow> ('w, 'rb) driver" where
  "input_step os ops s = (case input_turn os ops (ds_world s) (ds_dev s) (ds_mapper s) (ds_jack s) of
     Inl e \<Rightarrow> Crashed e
   | Inr (w, dev, m, jack) \<Rightarrow> Running \<lparr>ds_world = w, ds_dev = dev, ds_mapper = m, ds_jack = jack\<rparr>)"

definition midi_step ::
    "'w posix \<Rightarrow> 'rb jack_rb \<Rightarrow> nat \<Rightarrow> ('w, 'rb) driver_state \<Rightarrow> ('w, 'rb) driver option" where
  "midi_step os ops addr s = map_option (\<lambda>r. case r of
       Inl e \<Rightarrow> Crashed e
     | Inr (w, dev, jack) \<Rightarrow> Running (s\<lparr>ds_world := w, ds_dev := dev, ds_jack := jack\<rparr>))
     (midi_turn os ops addr (ds_world s) (ds_dev s) (ds_mapper s) (ds_jack s))"

definition callback_step ::
    "'rb jack_rb \<Rightarrow> 'b jack_midi \<Rightarrow> 'b \<Rightarrow> 'b \<Rightarrow> nat \<Rightarrow> ('w, 'rb) driver_state \<Rightarrow> ('w, 'rb) driver" where
  "callback_step ops jm out_port in_port nframes s =
     (case process_int ops jm (ds_jack s) out_port in_port nframes of
        Inl e \<Rightarrow> Crashed e
      | Inr (jack, out', r) \<Rightarrow> Running (s\<lparr>ds_jack := jack\<rparr>))"

inductive driver_program ::
    "'w posix \<Rightarrow> 'rb jack_rb \<Rightarrow> 'j jack_api \<Rightarrow> 'b jack_midi \<Rightarrow> ('w, 'rb) driver \<Rightarrow> bool" for os ops api jm where
  boot: "wf_input a \<Longrightarrow> wf_input b \<Longrightarrow> driver_program os ops api jm (driver_boot sandbox os ops api a b w j)"
| input: "driver_program os ops api jm (Running s) \<Longrightarrow> driver_program os ops api jm (input_step os ops s)"
| midi: "driver_program os ops api jm (Running s) \<Longrightarrow> addr \<noteq> 0 \<Longrightarrow> midi_step os ops addr s = Some p \<Longrightarrow>
    driver_program os ops api jm p"
| callback: "driver_program os ops api jm (Running s) \<Longrightarrow>
    driver_program os ops api jm (callback_step ops jm out_port in_port nframes s)"

section \<open>Taking from the input buffer\<close>

text \<open>A take of an event, of whatever the iterator shows: it ends; it fails only by a read outside the
  ring's memory; and else it leaves a buffer of bytes.\<close>

lemma jw_get_within:
  assumes "jack_ring ops rinv content" "in_holds rinv content (ji_in_buf p) bs" "addr \<noteq> 0"
  shows "\<exists>r. jw_get ops addr p = Some r \<and> (case r of Inl x \<Rightarrow> x = Undefined_behaviour
    | Inr (p', ev) \<Rightarrow> unat (ev_raw1 ev) < 128 \<and>
        (\<exists>q bs'. p' = p\<lparr>ji_in_buf := q\<rparr> \<and> in_holds rinv content q bs'))"
proof -
  obtain r where r: "buf (ji_in_buf p) = Some r" "rinv r" "content r = bs"
    using assms(2) by (auto simp: rbuf_holds_def)
  obtain s0 s1 where v: "rb_get_read_vector ops r = (s0, s1)" by fastforce
  note ie = jack_ring.iter_begin_eq [OF assms(1) v assms(3)] jack_ring.iter_end_eq [OF assms(1) v assms(3)]
  let ?it = "\<lparr>it_ringbuf = addr, it_seg0 = s0, it_seg1 = s1, it_offset = 0\<rparr>"
  let ?e = "\<lparr>it_ringbuf = addr, it_seg0 = s0, it_seg1 = s1, it_offset = seg_len s0 + seg_len s1\<rparr>"
  have "iter_within ?it ?e" using assms(3) by (simp add: iter_within_def iter_total_def)
  from parse_within [OF this] obtain r' where r': "parse ring_iter_ops ?it ?e = Some r'"
    "case r' of Inl x \<Rightarrow> x = Undefined_behaviour | Inr (ev, it) \<Rightarrow> iter_within it ?e \<and> unat (ev_raw1 ev) < 128"
    unfolding parse_ok_def by blast
  show ?thesis
  proof (cases r')
    case (Inl x)
    with r(1) ie r' show ?thesis by (simp add: jw_get_def rbuf_data_def)
  next
    case (Inr y)
    obtain ev nxt where y: "y = (ev, nxt)" by fastforce
    with r' Inr have nxt: "iter_within nxt ?e" "unat (ev_raw1 ev) < 128" by simp_all
    from nxt(1) have n: "it_ringbuf nxt = addr" "it_offset nxt \<le> seg_len s0 + seg_len s1"
      by (cases nxt, auto simp: iter_within_def iter_total_def)+
    then have minus: "iter_minus nxt ?it = Inr (it_offset nxt)" by (simp add: iter_minus_def)
    have "it_offset nxt \<le> length (content r)" using n(2) jack_ring.vector_length [OF assms(1) r(2) v] by simp
    from jack_ring.advance_law [OF assms(1) r(2) this] have
      "in_holds rinv content ((ji_in_buf p)\<lparr>buf := Some (rb_read_advance ops r (it_offset nxt))\<rparr>) (drop (it_offset nxt) bs)"
      using r(3) by (simp add: rbuf_holds_def)
    moreover have "jw_get ops addr p = Some (Inr (p\<lparr>ji_in_buf := (ji_in_buf p)\<lparr>buf := Some (rb_read_advance ops r (it_offset nxt))\<rparr>\<rparr>, ev))"
      using r(1) ie r'(1) Inr y minus by (simp add: jw_get_def rbuf_data_def)
    ultimately show ?thesis using nxt(2) by auto
  qed
qed

lemma midi_batch_within:
  assumes "jack_ring ops rinv content" "addr \<noteq> 0"
  shows "in_holds rinv content (ji_in_buf p) bs \<Longrightarrow> io_ok m out \<Longrightarrow>
    \<exists>r. midi_batch ops addr m k p out wh = Some r \<and> (case r of Inl x \<Rightarrow> x = Undefined_behaviour
      | Inr (p', out', c) \<Rightarrow> io_ok m out' \<and> (\<exists>q bs'. p' = p\<lparr>ji_in_buf := q\<rparr> \<and> in_holds rinv content q bs'))"
proof (induction k arbitrary: p bs out wh)
  case 0
  have "read_bufsize ops p = Inr (length bs)"
    using typed_ring.size_eq [OF jack_bytes [OF assms(1)] 0(1)] by (simp add: read_bufsize_def)
  with 0 show ?case by (auto intro!: exI [of _ "ji_in_buf p"])
next
  case (Suc k)
  have size: "read_bufsize ops p = Inr (length bs)"
    using typed_ring.size_eq [OF jack_bytes [OF assms(1)] Suc.prems(1)] by (simp add: read_bufsize_def)
  show ?case
  proof (cases "bs = []")
    case True
    with Suc.prems size show ?thesis by (auto intro!: exI [of _ "ji_in_buf p"])
  next
    case False
    obtain g where g: "jw_get ops addr p = Some g" "case g of Inl x \<Rightarrow> x = Undefined_behaviour
      | Inr (p', ev) \<Rightarrow> unat (ev_raw1 ev) < 128 \<and> (\<exists>q bs'. p' = p\<lparr>ji_in_buf := q\<rparr> \<and> in_holds rinv content q bs')"
      using jw_get_within [OF assms(1) Suc.prems(1) assms(2)] by blast
    show ?thesis
    proof (cases g)
      case (Inl x)
      with g size False show ?thesis by simp
    next
      case (Inr y)
      obtain p1 ev where y: "y = (p1, ev)" by fastforce
      with Inr g(2) obtain q bs' where q: "p1 = p\<lparr>ji_in_buf := q\<rparr>" "in_holds rinv content q bs'" "unat (ev_raw1 ev) < 128" by auto
      obtain c out1 where e: "process_MIDI_event m ev out = Inr (c, out1)" "io_ok m out1"
        using process_MIDI_event_ok [OF Suc.prems(2) q(3)] by blast
      have "in_holds rinv content (ji_in_buf p1) bs'" using q by simp
      from Suc.IH [OF this e(2), of c] obtain r where r: "midi_batch ops addr m k p1 out1 c = Some r"
        "case r of Inl x \<Rightarrow> x = Undefined_behaviour | Inr (p', out', c) \<Rightarrow> io_ok m out' \<and>
           (\<exists>q bs'. p' = p1\<lparr>ji_in_buf := q\<rparr> \<and> in_holds rinv content q bs')" by blast
      have "midi_batch ops addr m (Suc k) p out wh = Some r"
        using size False g(1) Inr y e(1) r(1) by simp
      moreover have "case r of Inl x \<Rightarrow> x = Undefined_behaviour | Inr (p', out', c) \<Rightarrow> io_ok m out' \<and>
           (\<exists>q bs'. p' = p\<lparr>ji_in_buf := q\<rparr> \<and> in_holds rinv content q bs')"
        using r(2) q(1) by (auto split: sum.splits)
      ultimately show ?thesis by blast
    qed
  qed
qed

section \<open>The invariant\<close>

definition driver_ok :: "('rb \<Rightarrow> bool) \<Rightarrow> ('rb \<Rightarrow> byte list) \<Rightarrow> ('w, 'rb) driver_state \<Rightarrow> bool" where
  "driver_ok rinv content s \<longleftrightarrow> wf_f1 (ds_dev s) \<and> io_ok (ds_mapper s) (f1_out (ds_dev s)) \<and>
     (\<exists>es. out_holds rinv content (ji_out_buf (ds_jack s)) es \<and> list_all wire_event es) \<and>
     (\<exists>bs. in_holds rinv content (ji_in_buf (ds_jack s)) bs)"

text \<open>The device reports positions of 12 bits.\<close>

definition reports_12bit :: "'w posix \<Rightarrow> bool" where
  "reports_12bit os \<longleftrightarrow> (\<forall>w f buffer w' report. length buffer = 22 \<longrightarrow> hid_read os w f buffer = (w', report, Inr ()) \<longrightarrow>
     report ! 0 = INPUT_REPORT_ID \<longrightarrow> positions_12bit (decoded report))"

definition keeps_state :: "('rb \<Rightarrow> bool) \<Rightarrow> ('rb \<Rightarrow> byte list) \<Rightarrow> ('w, 'rb) driver \<Rightarrow> bool" where
  "keeps_state rinv content p \<longleftrightarrow> (\<forall>s. p = Running s \<longrightarrow> driver_ok rinv content s)"

lemma keeps_state_simps [simp]:
  "keeps_state rinv content (Running s) = driver_ok rinv content s" "keeps_state rinv content (Crashed e)" "keeps_state rinv content (Ended c)"
  by (simp_all add: keeps_state_def)

section \<open>A turn of the input thread\<close>

text \<open>Device, mapper and output queue, while the handler runs over the events of a report.\<close>

definition handler_ok ::
    "('rb \<Rightarrow> bool) \<Rightarrow> ('rb \<Rightarrow> byte list) \<Rightarrow> 'rb ringbuffer \<Rightarrow> 'w \<times> f1_impl \<times> io_mapper \<times> 'rb jack_impl \<Rightarrow> bool" where
  "handler_ok rinv content inb st \<longleftrightarrow> (case st of (w, dev, m, jack) \<Rightarrow>
     wf_f1 dev \<and> io_ok m (f1_out dev) \<and> ji_in_buf jack = inb \<and>
     (\<exists>es. out_holds rinv content (ji_out_buf jack) es \<and> list_all wire_event es))"

lemma input_handler_outcome:
  assumes "jack_ring ops rinv content" "event_ok ev" "handler_ok rinv content inb st"
  shows "case input_handler ops ev st of Inl e \<Rightarrow> e = Assert_failed | Inr st' \<Rightarrow> handler_ok rinv content inb st'"
proof -
  obtain w dev m jack where st: "st = (w, dev, m, jack)" by (cases st) auto
  with assms(3) obtain es where h: "wf_f1 dev" "io_ok m (f1_out dev)" "ji_in_buf jack = inb"
      "out_holds rinv content (ji_out_buf jack) es" "list_all wire_event es"
    by (auto simp: handler_ok_def)
  obtain midi m' out where p: "process_HID_input m ev (f1_out dev) = Inr (midi, m', out)" "io_ok m' out"
      "\<forall>e. midi = Some e \<longrightarrow> wire_event e"
    using process_HID_input_ok [OF h(2) assms(2)] by auto
  have wf: "wf_f1 (dev\<lparr>f1_out := out\<rparr>)" using h(1) p(2) by (simp add: wf_f1_def io_ok_def)
  note t = jack_events [OF assms(1)]
  show ?thesis
  proof (cases midi)
    case None
    with p h wf show ?thesis by (auto simp: input_handler_def st handler_ok_def)
  next
    case (Some e)
    show ?thesis
    proof (cases "rbuf_room ops event_elem (ji_out_buf jack) = 0")
      case True
      then have "jw_put ops jack e = Inl Assert_failed" using typed_ring.full_eq [OF t h(4)] by (simp add: jw_put_def)
      with p(1) Some show ?thesis by (simp add: input_handler_def st)
    next
      case False
      then obtain q where q: "rbuf_push ops event_elem (ji_out_buf jack) e = Inr q" "out_holds rinv content q (es @ [e])"
        using typed_ring.push_room [OF t h(4), of e] by auto
      then have "jw_put ops jack e = Inr (jack\<lparr>ji_out_buf := q\<rparr>)"
        using typed_ring.full_eq [OF t h(4)] False by (simp add: jw_put_def)
      with p Some h wf q(2) show ?thesis
        by (auto simp: input_handler_def st handler_ok_def intro!: exI [of _ "es @ [e]"])
    qed
  qed
qed

lemma read_reports_ok:
  assumes "wf_f1 dev" "reports_12bit os" "f1_read os w dev = (w1, dev1, Inr s)"
  shows "wf_f1 (generate_input_events dev1) \<and> f1_out dev1 = f1_out dev \<and>
    (\<forall>ev \<in> set (f1_events (generate_input_events dev1)). event_ok ev)"
proof -
  obtain w' report r where h: "hid_read os w (f1_dev dev) (f1_in_report dev) = (w', report, r)" using prod_cases3 by blast
  have r: "r = Inr ()" using assms(3) h by (cases r) (auto simp: f1_read_def)
  note h' = h [unfolded r]
  have d1: "dev1 = dev\<lparr>f1_in_report := report, f1_old := f1_in dev,
      f1_in := if report ! 0 = INPUT_REPORT_ID then decoded report else f1_in dev\<rparr>"
    using f1_read_ok [OF assms(1) h'] assms(3) by (simp add: Let_def)
  have wfi: "wf_input (f1_in dev)" "length (f1_in_report dev) = 22" using assms(1) by (auto simp: wf_f1_def)
  have "event_ok ev" if "ev \<in> set (input_changes (f1_in dev1) (f1_in dev))" for ev
  proof (cases "report ! 0 = INPUT_REPORT_ID")
    case True
    then have "positions_12bit (decoded report)" using assms(2) h' wfi(2) unfolding reports_12bit_def by blast
    with that True d1 input_changes_ok [OF wf_decoded] show ?thesis by simp
  next
    case False
    with that d1 input_changes_empty_iff [OF wfi(1, 1)] show ?thesis by simp
  qed
  moreover have "wf_f1 (generate_input_events dev1)"
    using wf_f1_read [OF assms(1, 3)] by (simp add: wf_f1_def generate_input_events_def)
  ultimately show ?thesis using d1 by (simp add: generate_input_events_def)
qed

lemma input_step_outcome:
  assumes "jack_ring ops rinv content" "reports_12bit os" "driver_ok rinv content s"
  shows "keeps_state rinv content (input_step os ops s) \<and>
    (\<forall>e. input_step os ops s = Crashed e \<longrightarrow> e = Hid_error \<or> e = Assert_failed)"
proof -
  obtain w1 dev1 r where read: "f1_read os (ds_world s) (ds_dev s) = (w1, dev1, r)" using prod_cases3 by blast
  have d: "wf_f1 (ds_dev s)" "io_ok (ds_mapper s) (f1_out (ds_dev s))" using assms(3) by (auto simp: driver_ok_def)
  show ?thesis
  proof (cases r)
    case (Inl e)
    have "e = Hid_error" by (rule f1_read_fails [OF d(1) read [unfolded Inl]])
    with read Inl show ?thesis by (simp add: input_step_def input_turn_def f1_read_events_def)
  next
    case (Inr x)
    note ok = read_reports_ok [OF d(1) assms(2) read [unfolded Inr]]
    let ?p = "generate_input_events dev1" and ?inb = "ji_in_buf (ds_jack s)"
    have h0: "handler_ok rinv content ?inb (w1, ?p, ds_mapper s, ds_jack s)"
      using ok d assms(3) by (auto simp: handler_ok_def driver_ok_def generate_input_events_def)
    have "case fold_res (input_handler ops) (f1_events ?p) (w1, ?p, ds_mapper s, ds_jack s) of
        Inl e \<Rightarrow> e = Assert_failed | Inr st \<Rightarrow> handler_ok rinv content ?inb st"
      by (rule fold_res_outcome [where P = "handler_ok rinv content ?inb", OF _ h0]) (use ok in \<open>blast intro: input_handler_outcome [OF assms(1)]\<close>)
    then show ?thesis
    proof (cases "fold_res (input_handler ops) (f1_events ?p) (w1, ?p, ds_mapper s, ds_jack s)")
      case (Inl e)
      assume "case fold_res (input_handler ops) (f1_events ?p) (w1, ?p, ds_mapper s, ds_jack s) of
        Inl e \<Rightarrow> e = Assert_failed | Inr st \<Rightarrow> handler_ok rinv content ?inb st"
      with Inl read Inr show ?thesis by (simp add: input_step_def input_turn_def f1_read_events_def Let_def)
    next
      case (Inr st)
      assume f: "case fold_res (input_handler ops) (f1_events ?p) (w1, ?p, ds_mapper s, ds_jack s) of
        Inl e \<Rightarrow> e = Assert_failed | Inr st \<Rightarrow> handler_ok rinv content ?inb st"
      obtain w2 dev2 m2 jack2 where st: "st = (w2, dev2, m2, jack2)" by (cases st) auto
      obtain w3 dev3 r3 where wr: "f1_write os w2 dev2 = (w3, dev3, r3)" using prod_cases3 by blast
      have h: "handler_ok rinv content ?inb (w2, dev2, m2, jack2)" using f Inr st by simp
      then have "wf_f1 dev2" "dim_output (f1_out dev2)" by (auto simp: handler_ok_def io_ok_def)
      from f1_write_keeps [OF this wr] h assms(3) show ?thesis
        using Inr \<open>r = Inr x\<close> read st wr
        by (auto simp: input_step_def input_turn_def f1_read_events_def Let_def handler_ok_def driver_ok_def split: sum.split)
    qed
  qed
qed

section \<open>A turn of the MIDI loop, and the callback\<close>

lemma midi_step_outcome:
  assumes "jack_ring ops rinv content" "addr \<noteq> 0" "driver_ok rinv content s"
  shows "\<exists>p. midi_step os ops addr s = Some p \<and> keeps_state rinv content p \<and>
    (\<forall>e. p = Crashed e \<longrightarrow> e = Hid_error \<or> e = Undefined_behaviour)"
proof -
  let ?dev = "ds_dev s" and ?jack = "ds_jack s" and ?m = "ds_mapper s"
  obtain bs where bs: "in_holds rinv content (ji_in_buf ?jack) bs" using assms(3) by (auto simp: driver_ok_def)
  have d: "wf_f1 ?dev" "io_ok ?m (f1_out ?dev)" using assms(3) by (auto simp: driver_ok_def)
  obtain r where r: "midi_batch ops addr ?m BATCH_SIZE ?jack (f1_out ?dev) False = Some r"
    "case r of Inl x \<Rightarrow> x = Undefined_behaviour | Inr (p', out', c) \<Rightarrow> io_ok ?m out' \<and>
       (\<exists>q bs'. p' = ?jack\<lparr>ji_in_buf := q\<rparr> \<and> in_holds rinv content q bs')"
    using midi_batch_within [OF assms(1, 2) bs d(2)] by blast
  show ?thesis
  proof (cases r)
    case (Inl x)
    with r show ?thesis by (simp add: midi_step_def midi_turn_def)
  next
    case (Inr y)
    obtain jack1 out c where y: "y = (jack1, out, c)" by (cases y) auto
    with r(2) Inr obtain q bs' where q: "io_ok ?m out" "jack1 = ?jack\<lparr>ji_in_buf := q\<rparr>" "in_holds rinv content q bs'" by auto
    let ?dev1 = "?dev\<lparr>f1_out := out\<rparr>"
    have dev1: "wf_f1 ?dev1" "dim_output (f1_out ?dev1)" using d(1) q(1) by (auto simp: wf_f1_def io_ok_def)
    show ?thesis
    proof (cases c)
      case True
      obtain w2 dev2 r2 where wr: "f1_write os (ds_world s) ?dev1 = (w2, dev2, r2)" using prod_cases3 by blast
      from f1_write_keeps [OF dev1 wr] True r(1) Inr y wr q assms(3) show ?thesis
        by (cases r2) (auto simp: midi_step_def midi_turn_def driver_ok_def)
    next
      case False
      with r(1) Inr y q assms(3) dev1(1) show ?thesis
        by (auto simp: midi_step_def midi_turn_def driver_ok_def)
    qed
  qed
qed

text \<open>The callback's read side with any port: it stops at an event it cannot get.\<close>

lemma read_loop_keeps:
  assumes "jack_ring ops rinv content"
  shows "in_holds rinv content q bs \<Longrightarrow> \<exists>q' r bs'. read_loop ops jm b i q = Inr (q', r) \<and> in_holds rinv content q' bs'"
proof (induction "jm_event_count jm b - i" arbitrary: i q bs rule: less_induct)
  case less
  show ?case
  proof (cases "i < jm_event_count jm b \<and> jm_event_get jm b i \<noteq> None")
    case True
    then obtain ds where ds: "jm_event_get jm b i = Some ds" by blast
    obtain q1 full where q1: "push_bytes ops ds q = Inr (q1, full)" "in_holds rinv content q1 (bs @ take (rbuf_room ops byte_elem q) ds)"
      using push_bytes_ok [OF assms less.prems, of ds] by blast
    have "i < jm_event_count jm b" using True by simp
    then have "jm_event_count jm b - (i + 1) < jm_event_count jm b - i" by simp
    from less.hyps [OF this q1(2)] True ds q1 show ?thesis
      by (subst read_loop.simps) (cases full, auto)
  next
    case False
    with less.prems show ?thesis by (subst read_loop.simps) auto
  qed
qed

lemma callback_outcome:
  assumes "jack_ring ops rinv content" "port_accepts jm" "driver_ok rinv content s"
  shows "\<exists>s'. callback_step ops jm out_port in_port nframes s = Running s' \<and> driver_ok rinv content s'"
proof (cases "ji_callbacks_set (ds_jack s)")
  case True
  obtain es bs where h: "out_holds rinv content (ji_out_buf (ds_jack s)) es" "list_all wire_event es"
      "in_holds rinv content (ji_in_buf (ds_jack s)) bs"
    using assms(3) by (auto simp: driver_ok_def)
  have "\<forall>e \<in> set es. ev_type e \<noteq> SYSTEM_MESSAGE" using h(2) by (auto simp: list_all_iff wire_event_def)
  from write_loop_ok [OF assms(1, 2) h(1) this, of "nframes div 3" "jm_clear jm out_port"] obtain q' b' where
      q': "write_loop ops jm (nframes div 3) (ji_out_buf (ds_jack s)) (jm_clear jm out_port) = Inr (q', b')"
        "out_holds rinv content q' (drop (nframes div 3) es)"
    by blast
  obtain q2 r bs' where q2: "read_loop ops jm in_port 0 (ji_in_buf (ds_jack s)) = Inr (q2, r)" "in_holds rinv content q2 bs'"
    using read_loop_keeps [OF assms(1) h(3), of jm in_port 0] by blast
  have "list_all wire_event (drop (nframes div 3) es)" using h(2) by (meson in_set_dropD list_all_iff)
  with q' q2 True assms(3) show ?thesis
    by (auto simp: callback_step_def process_int_def write_callback_def read_callback_def driver_ok_def)
next
  case False
  with assms(3) show ?thesis by (simp add: callback_step_def process_int_def driver_ok_def)
qed

lemma callback_keeps:
  assumes "jack_ring ops rinv content" "driver_ok rinv content s"
  shows "keeps_state rinv content (callback_step ops jm out_port in_port nframes s)"
proof (cases "callback_step ops jm out_port in_port nframes s")
  case (Running s')
  obtain es bs where h: "out_holds rinv content (ji_out_buf (ds_jack s)) es" "list_all wire_event es"
      "in_holds rinv content (ji_in_buf (ds_jack s)) bs"
    using assms(2) by (auto simp: driver_ok_def)
  have w: "write_loop ops jm k q b = Inr (q', b') \<Longrightarrow> out_holds rinv content q es \<Longrightarrow> list_all wire_event es \<Longrightarrow>
      \<exists>es'. out_holds rinv content q' es' \<and> list_all wire_event es'" for k q b q' b' es
  proof (induction k arbitrary: q b es)
    case (Suc k)
    note t = jack_events [OF assms(1)]
    show ?case
    proof (cases es)
      case Nil
      with Suc.prems typed_ring.empty_eq [OF t Suc.prems(2)] show ?thesis by auto
    next
      case (Cons e es')
      obtain q1 where q1: "rbuf_pop ops event_elem q = Inr (q1, e)" "out_holds rinv content q1 es'"
        using typed_ring.pop_nonempty [OF t, of q e es'] Suc.prems(2) Cons by auto
      from Suc.prems(1) Cons q1(1) typed_ring.empty_eq [OF t Suc.prems(2)] obtain ds where
        "(case jm_event_write jm b 0 ds of (b1, res) \<Rightarrow> bind_res (assert_res (res = 0)) (\<lambda>_. write_loop ops jm k q1 b1)) = Inr (q', b')"
        by (auto simp: bind_res_Inr_iff)
      then obtain b1 where "write_loop ops jm k q1 b1 = Inr (q', b')"
        by (cases "jm_event_write jm b 0 ds") (auto simp: bind_res_Inr_iff)
      from Suc.IH [OF this q1(2)] Suc.prems(3) Cons show ?thesis by simp
    qed
  qed auto
  obtain q2 r bs' where q2: "read_loop ops jm in_port 0 (ji_in_buf (ds_jack s)) = Inr (q2, r)" "in_holds rinv content q2 bs'"
    using read_loop_keeps [OF assms(1) h(3), of jm in_port 0] by blast
  show ?thesis
  proof (cases "ji_callbacks_set (ds_jack s)")
    case False
    with assms(2) show ?thesis by (simp add: callback_step_def process_int_def)
  next
    case True
    with Running q2(1) obtain q' b' where q': "write_loop ops jm (nframes div 3) (ji_out_buf (ds_jack s)) (jm_clear jm out_port) = Inr (q', b')"
        "s' = s\<lparr>ds_jack := (ds_jack s)\<lparr>ji_out_buf := q', ji_in_buf := q2\<rparr>\<rparr>"
      by (auto simp: callback_step_def process_int_def write_callback_def read_callback_def bind_res_def split: sum.splits)
    from w [OF q'(1) h(1, 2)] q'(2) q2(2) assms(2) Running show ?thesis by (auto simp: driver_ok_def)
  qed
qed simp_all

section \<open>The start\<close>

lemma jw_new_bufs:
  assumes "jw_new api ops j name = (j', Inr p)"
  shows "rbuf_new ops byte_elem IN_BUF_SIZE = Inr (ji_in_buf p)" "rbuf_new ops event_elem OUT_BUF_SIZE = Inr (ji_out_buf p)"
  using assms
  by (auto simp: jw_new_def init_client_def init_ports_def init_process_callback_def init_xrun_callback_def Let_def bind_res_Inr_iff
      split: sum.splits prod.splits option.splits if_splits)

lemma driver_boot_ok:
  assumes "jack_ring ops rinv content" "wf_input a" "wf_input b"
  shows "keeps_state rinv content (driver_boot sandbox os ops api a b w j)"
proof (cases "driver_boot sandbox os ops api a b w j")
  case (Running s)
  then obtain w1 w2 d j1 j2 p jack where b: "discover_device os a b w1 = (w2, Inr (Some d))"
      "jw_new api ops j DEFAULT_CLIENT_NAME = (j1, Inr p)" "jw_activate api j1 p = (j2, jack, Inr ())"
      "s = \<lparr>ds_world = w2, ds_dev = d, ds_mapper = main_mapper, ds_jack = jack\<rparr>"
    by (auto simp: driver_boot_def split: prod.splits sum.splits option.splits)
  obtain f where "f1_new a b f = Inr d" using discover_from_new [OF b(1) [unfolded discover_device_def]] by blast
  note d = f1_new_ok [OF assms(2, 3) this]
  have "jack = p" using b(3) by (auto simp: jw_activate_def split: if_splits option.splits prod.splits)
  moreover note rbuf_new_holds [OF assms(1) jw_new_bufs(1) [OF b(2)]] rbuf_new_holds [OF assms(1) jw_new_bufs(2) [OF b(2)]]
  moreover have "io_ok main_mapper default_output" using good_main_mapper by (simp add: io_ok_def)
  ultimately show ?thesis using b(4) d Running by (auto simp: driver_ok_def intro: exI [of _ "[]"])
qed simp_all

lemma driver_program_ok:
  assumes "jack_ring ops rinv content" "reports_12bit os" "driver_program os ops api jm p"
  shows "keeps_state rinv content p"
  using assms(3)
proof induction
  case (boot a b sandbox w j)
  then show ?case by (intro driver_boot_ok [OF assms(1)])
next
  case (input s)
  then show ?case using input_step_outcome [OF assms(1, 2)] by simp
next
  case (midi s addr p)
  then show ?case using midi_step_outcome [OF assms(1), of addr s os] by auto
next
  case (callback s out_port in_port nframes)
  then show ?case using callback_keeps [OF assms(1)] by simp
qed

lemma input_step_room:
  assumes "jack_ring ops rinv content" "reports_12bit os" "driver_ok rinv content s"
    and "38 \<le> rbuf_room ops event_elem (ji_out_buf (ds_jack s))" "input_step os ops s = Crashed e"
  shows "e = Hid_error"
proof -
  obtain es where d: "wf_f1 (ds_dev s)" "io_ok (ds_mapper s) (f1_out (ds_dev s))" "out_holds rinv content (ji_out_buf (ds_jack s)) es"
    using assms(3) by (auto simp: driver_ok_def)
  obtain w1 report r where h: "hid_read os (ds_world s) (f1_dev (ds_dev s)) (f1_in_report (ds_dev s)) = (w1, report, r)"
    using prod_cases3 by blast
  show ?thesis
  proof (cases r)
    case (Inl x)
    with h hid_read_fails have "x = Hid_error" by metis
    with h Inl assms(5) show ?thesis
      by (auto simp: input_step_def input_turn_def f1_read_events_def f1_read_def)
  next
    case (Inr u)
    then have h': "hid_read os (ds_world s) (f1_dev (ds_dev s)) (f1_in_report (ds_dev s)) = (w1, report, Inr ())" using h by simp
    have "length (f1_in_report (ds_dev s)) = 22" using d(1) by (simp add: wf_f1_def)
    with assms(2) h' have pos: "report ! 0 = INPUT_REPORT_ID \<Longrightarrow> positions_12bit (decoded report)"
      unfolding reports_12bit_def by blast
    obtain dev' m' jack' where t: "input_turn os ops (ds_world s) (ds_dev s) (ds_mapper s) (ds_jack s) =
        (case hid_write os w1 (f1_dev (ds_dev s)) (report_layout (f1_out dev')) of
           (w2, Inl e) \<Rightarrow> Inl e | (w2, Inr _) \<Rightarrow> Inr (w2, dev', m', jack'))"
      using input_turn_ok [OF assms(1) d(1, 2) h' pos d(3) assms(4)] by blast
    obtain w2 r2 where wr: "hid_write os w1 (f1_dev (ds_dev s)) (report_layout (f1_out dev')) = (w2, r2)" by fastforce
    with t assms(5) have "r2 = Inl e" by (cases r2) (auto simp: input_step_def)
    with wr hid_write_fails show ?thesis by metis
  qed
qed

section \<open>Properties\<close>

text \<open>A device that repeats one report.\<close>

definition echo_os :: "mem_dev posix" where
  "echo_os = mem_os\<lparr>sys_read := (\<lambda>w n len. (w, int (length (take len sample_report)), take len sample_report))\<rparr>"

lemma echo_reports: "reports_12bit echo_os"
proof -
  have len: "length sample_report = 22" by (simp add: sample_report_def)
  have "positions_12bit (decoded sample_report)" by code_simp
  with len show ?thesis by (auto simp: reports_12bit_def hid_read_def echo_os_def split: if_splits)
qed

lemma echo_boot:
  "\<exists>s. driver_boot (\<lambda>w. (w, Inr ())) echo_os ring_ops log_api idle_input idle_input (sample_world []) [] = Running s"
proof -
  obtain w d where p: "probe_device echo_os idle_input idle_input (sample_world []) 0 = (w, Found d)"
  proof -
    have "case snd (probe_device echo_os idle_input idle_input (sample_world []) 0) of Found d \<Rightarrow> True | _ \<Rightarrow> False" by code_simp
    then show thesis using that
      by (cases "probe_device echo_os idle_input idle_input (sample_world []) 0") (auto split: probe.splits)
  qed
  have d: "discover_device echo_os idle_input idle_input (sample_world []) = (w, Inr (Some d))"
    using p upt_conv_Cons [of 0 100] by (simp add: discover_device_def MAX_HIDRAW_DEVICE_IDX_def)
  have b: "\<exists>i. rbuf_new ring_ops byte_elem IN_BUF_SIZE = Inr i" "\<exists>i. rbuf_new ring_ops event_elem OUT_BUF_SIZE = Inr i"
    by (simp_all add: rbuf_new_def rbuf_init_buf_def ring_create_def with_ring_def ring_read_space_def)
  then obtain j1 p where j: "jw_new log_api ring_ops [] DEFAULT_CLIENT_NAME = (j1, Inr p)" "ji_client p = Some 1" "\<not> ji_active p"
    by (auto simp: jw_new_def log_api_def init_client_def init_ports_def init_process_callback_def init_xrun_callback_def Let_def)
  then obtain j2 where "jw_activate log_api j1 p = (j2, p, Inr ())" by (simp add: jw_activate_def log_api_def)
  with d j show ?thesis by (simp add: driver_boot_def)
qed



end
