(* ===== verification/Driver_Steps.thy ===== *)
theory Driver_Steps
  imports Driver_Program
begin

text \<open>
  The two threads of \<open>driver/src/main.cpp\<close> in smaller steps.  They share the device, the mapper and the
  JACK wrapper without a lock; here a step is one call on them: the input thread reads a report,
  handles one event, or writes the device; the MIDI loop starts a batch, takes one event, or ends the
  batch; and the process callback runs between any two of these.
\<close>

section \<open>Steps\<close>

text \<open>
  Where the threads are: the events of the report that are still to be handled, if one was read; and
  how many more events the batch may take, if one was started, with the local \<open>write_hid\<close>.
\<close>

record ('w, 'rb) threads =
  th_shared :: "('w, 'rb) driver_state"
  th_events :: "input_event list option"
  th_batch :: "nat option"
  th_write_hid :: bool

datatype ('w, 'rb) stepped = Live "('w, 'rb) threads" | Dead failure

definition read_step :: "'w posix \<Rightarrow> ('w, 'rb) threads \<Rightarrow> ('w, 'rb) stepped" where
  "read_step os t = (let s = th_shared t in case f1_read os (ds_world s) (ds_dev s) of
     (w1, dev1, Inl e) \<Rightarrow> Dead e
   | (w1, dev1, Inr _) \<Rightarrow> let dev2 = generate_input_events dev1 in
       Live (t\<lparr>th_shared := s\<lparr>ds_world := w1, ds_dev := dev2\<rparr>, th_events := Some (f1_events dev2)\<rparr>))"

definition handle_step :: "'rb jack_rb \<Rightarrow> input_event \<Rightarrow> input_event list \<Rightarrow> ('w, 'rb) threads \<Rightarrow> ('w, 'rb) stepped" where
  "handle_step ops ev evs t = (let s = th_shared t in
     case input_handler ops ev (ds_world s, ds_dev s, ds_mapper s, ds_jack s) of
       Inl e \<Rightarrow> Dead e
     | Inr (w, dev, m, jack) \<Rightarrow>
         Live (t\<lparr>th_shared := \<lparr>ds_world = w, ds_dev = dev, ds_mapper = m, ds_jack = jack\<rparr>, th_events := Some evs\<rparr>))"

definition write_step :: "'w posix \<Rightarrow> ('w, 'rb) threads \<Rightarrow> ('w, 'rb) stepped" where
  "write_step os t = (let s = th_shared t in case f1_write os (ds_world s) (ds_dev s) of
     (w1, dev1, Inl e) \<Rightarrow> Dead e
   | (w1, dev1, Inr _) \<Rightarrow> Live (t\<lparr>th_shared := s\<lparr>ds_world := w1, ds_dev := dev1\<rparr>, th_events := None\<rparr>))"

definition batch_step :: "('w, 'rb) threads \<Rightarrow> ('w, 'rb) stepped" where
  "batch_step t = Live (t\<lparr>th_batch := Some BATCH_SIZE, th_write_hid := False\<rparr>)"

text \<open>One turn of the \<open>for\<close> loop: its condition, then its body; or its end, with the write.\<close>

definition take_step :: "'w posix \<Rightarrow> 'rb jack_rb \<Rightarrow> nat \<Rightarrow> nat \<Rightarrow> ('w, 'rb) threads \<Rightarrow> ('w, 'rb) stepped option" where
  "take_step os ops addr k t = (let s = th_shared t in
     case read_bufsize ops (ds_jack s) of
       Inl e \<Rightarrow> Some (Dead e)
     | Inr n \<Rightarrow>
         if 0 < n \<and> 0 < k then map_option (\<lambda>r. case bind_res r (\<lambda>(jack1, event).
               bind_res (process_MIDI_event (ds_mapper s) event (f1_out (ds_dev s))) (\<lambda>(changed, out). Inr (jack1, changed, out))) of
             Inl e \<Rightarrow> Dead e
           | Inr (jack1, changed, out) \<Rightarrow> Live (t\<lparr>th_shared := s\<lparr>ds_jack := jack1, ds_dev := (ds_dev s)\<lparr>f1_out := out\<rparr>\<rparr>,
               th_batch := Some (k - 1), th_write_hid := changed\<rparr>)) (jw_get ops addr (ds_jack s))
         else if th_write_hid t then Some (case f1_write os (ds_world s) (ds_dev s) of
             (w1, dev1, Inl e) \<Rightarrow> Dead e
           | (w1, dev1, Inr _) \<Rightarrow> Live (t\<lparr>th_shared := s\<lparr>ds_world := w1, ds_dev := dev1\<rparr>, th_batch := None\<rparr>))
         else Some (Live (t\<lparr>th_batch := None\<rparr>)))"

definition process_step :: "'rb jack_rb \<Rightarrow> 'b jack_midi \<Rightarrow> 'b \<Rightarrow> 'b \<Rightarrow> nat \<Rightarrow> ('w, 'rb) threads \<Rightarrow> ('w, 'rb) stepped" where
  "process_step ops jm out_port in_port nframes t =
     (case process_int ops jm (ds_jack (th_shared t)) out_port in_port nframes of
        Inl e \<Rightarrow> Dead e
      | Inr (jack, b, r) \<Rightarrow> Live (t\<lparr>th_shared := (th_shared t)\<lparr>ds_jack := jack\<rparr>\<rparr>))"

inductive thread_step :: "'w posix \<Rightarrow> 'rb jack_rb \<Rightarrow> 'b jack_midi \<Rightarrow> ('w, 'rb) threads \<Rightarrow> ('w, 'rb) stepped \<Rightarrow> bool" for os ops jm where
  reads: "th_events t = None \<Longrightarrow> thread_step os ops jm t (read_step os t)"
| handles: "th_events t = Some (ev # evs) \<Longrightarrow> thread_step os ops jm t (handle_step ops ev evs t)"
| writes: "th_events t = Some [] \<Longrightarrow> thread_step os ops jm t (write_step os t)"
| batches: "th_batch t = None \<Longrightarrow> thread_step os ops jm t (batch_step t)"
| takes: "th_batch t = Some k \<Longrightarrow> addr \<noteq> 0 \<Longrightarrow> take_step os ops addr k t = Some p \<Longrightarrow> thread_step os ops jm t p"
| processes: "thread_step os ops jm t (process_step ops jm out_port in_port nframes t)"

inductive interleaved :: "'w posix \<Rightarrow> 'rb jack_rb \<Rightarrow> 'j jack_api \<Rightarrow> 'b jack_midi \<Rightarrow> ('w, 'rb) stepped \<Rightarrow> bool" for os ops api jm where
  boots: "wf_input a \<Longrightarrow> wf_input b \<Longrightarrow> driver_boot sandbox os ops api a b w j = Running s \<Longrightarrow>
    interleaved os ops api jm (Live \<lparr>th_shared = s, th_events = None, th_batch = None, th_write_hid = False\<rparr>)"
| steps: "interleaved os ops api jm (Live t) \<Longrightarrow> thread_step os ops jm t p \<Longrightarrow> interleaved os ops api jm p"

section \<open>The invariant of every interleaving\<close>

definition threads_ok :: "('rb \<Rightarrow> bool) \<Rightarrow> ('rb \<Rightarrow> byte list) \<Rightarrow> ('w, 'rb) threads \<Rightarrow> bool" where
  "threads_ok rinv content t \<longleftrightarrow> driver_ok rinv content (th_shared t) \<and>
     (\<forall>evs. th_events t = Some evs \<longrightarrow> (\<forall>ev \<in> set evs. event_ok ev))"

text \<open>What a step comes to: the invariant, or an end for one of the reasons given.\<close>

definition step_ok :: "('rb \<Rightarrow> bool) \<Rightarrow> ('rb \<Rightarrow> byte list) \<Rightarrow> failure set \<Rightarrow> ('w, 'rb) stepped \<Rightarrow> bool" where
  "step_ok rinv content es p \<longleftrightarrow> (case p of Live t \<Rightarrow> threads_ok rinv content t | Dead e \<Rightarrow> e \<in> es)"

lemma step_ok_simps [simp]:
  "step_ok rinv content es (Live t) = threads_ok rinv content t" "step_ok rinv content es (Dead e) = (e \<in> es)"
  by (simp_all add: step_ok_def)

lemma read_step_ok:
  assumes "reports_12bit os" "threads_ok rinv content t"
  shows "step_ok rinv content {Hid_error} (read_step os t)"
proof -
  let ?s = "th_shared t"
  have d: "wf_f1 (ds_dev ?s)" "driver_ok rinv content ?s" using assms(2) by (auto simp: threads_ok_def driver_ok_def)
  obtain w1 dev1 r where rd: "f1_read os (ds_world ?s) (ds_dev ?s) = (w1, dev1, r)" using prod_cases3 by blast
  show ?thesis
  proof (cases r)
    case (Inl e)
    have "e = Hid_error" by (rule f1_read_fails [OF d(1) rd [unfolded Inl]])
    with rd Inl show ?thesis by (simp add: read_step_def Let_def)
  next
    case (Inr x)
    have "wf_f1 (generate_input_events dev1)" "f1_out dev1 = f1_out (ds_dev ?s)"
      "\<forall>ev \<in> set (f1_events (generate_input_events dev1)). event_ok ev"
      using read_reports_ok [OF d(1) assms(1) rd [unfolded Inr]] by simp_all
    with rd Inr d(2) show ?thesis
      by (auto simp: read_step_def Let_def threads_ok_def driver_ok_def generate_input_events_def)
  qed
qed

lemma handle_step_ok:
  assumes "jack_ring ops rinv content" "threads_ok rinv content t" "th_events t = Some (ev # evs)"
  shows "step_ok rinv content {Assert_failed} (handle_step ops ev evs t)"
proof -
  let ?s = "th_shared t"
  have ok: "event_ok ev" "\<forall>ev \<in> set evs. event_ok ev" "driver_ok rinv content ?s" using assms(2, 3) by (auto simp: threads_ok_def)
  then have h: "handler_ok rinv content (ji_in_buf (ds_jack ?s)) (ds_world ?s, ds_dev ?s, ds_mapper ?s, ds_jack ?s)"
    by (simp add: driver_ok_def handler_ok_def)
  note i = input_handler_outcome [OF assms(1) ok(1) h]
  show ?thesis
  proof (cases "input_handler ops ev (ds_world ?s, ds_dev ?s, ds_mapper ?s, ds_jack ?s)")
    case (Inl e)
    with i show ?thesis by (simp add: handle_step_def Let_def)
  next
    case (Inr st)
    obtain w dev m jack where st: "st = (w, dev, m, jack)" by (cases st) auto
    with i Inr ok(2, 3) show ?thesis
      by (auto simp: handle_step_def Let_def handler_ok_def threads_ok_def driver_ok_def)
  qed
qed

lemma write_step_ok:
  assumes "threads_ok rinv content t"
  shows "step_ok rinv content {Hid_error} (write_step os t)"
proof -
  let ?s = "th_shared t"
  obtain w1 dev1 r where wr: "f1_write os (ds_world ?s) (ds_dev ?s) = (w1, dev1, r)" using prod_cases3 by blast
  have "wf_f1 (ds_dev ?s)" "dim_output (f1_out (ds_dev ?s))" using assms by (auto simp: threads_ok_def driver_ok_def io_ok_def)
  from f1_write_keeps [OF this wr] wr assms show ?thesis
    by (cases r) (auto simp: write_step_def Let_def threads_ok_def driver_ok_def)
qed

lemma take_step_ok:
  assumes "jack_ring ops rinv content" "addr \<noteq> 0" "threads_ok rinv content t"
  shows "\<exists>p. take_step os ops addr k t = Some p \<and> step_ok rinv content {Hid_error, Undefined_behaviour} p"
proof -
  let ?s = "th_shared t"
  obtain bs where d: "in_holds rinv content (ji_in_buf (ds_jack ?s)) bs" "io_ok (ds_mapper ?s) (f1_out (ds_dev ?s))"
    "wf_f1 (ds_dev ?s)" "dim_output (f1_out (ds_dev ?s))"
    using assms(3) by (auto simp: threads_ok_def driver_ok_def io_ok_def)
  have size: "read_bufsize ops (ds_jack ?s) = Inr (length bs)"
    using typed_ring.size_eq [OF jack_bytes [OF assms(1)] d(1)] by (simp add: read_bufsize_def)
  show ?thesis
  proof (cases "bs \<noteq> [] \<and> 0 < k")
    case True
    obtain r where r: "jw_get ops addr (ds_jack ?s) = Some r" "case r of Inl x \<Rightarrow> x = Undefined_behaviour
        | Inr (p', ev) \<Rightarrow> unat (ev_raw1 ev) < 128 \<and> (\<exists>q bs'. p' = (ds_jack ?s)\<lparr>ji_in_buf := q\<rparr> \<and> in_holds rinv content q bs')"
      using jw_get_within [OF assms(1) d(1) assms(2)] by blast
    show ?thesis
    proof (cases r)
      case (Inl x)
      with r size True show ?thesis by (simp add: take_step_def Let_def)
    next
      case (Inr y)
      obtain p1 ev where y: "y = (p1, ev)" by fastforce
      with Inr r(2) obtain q bs' where q: "p1 = (ds_jack ?s)\<lparr>ji_in_buf := q\<rparr>" "in_holds rinv content q bs'" "unat (ev_raw1 ev) < 128" by auto
      obtain c out where e: "process_MIDI_event (ds_mapper ?s) ev (f1_out (ds_dev ?s)) = Inr (c, out)" "io_ok (ds_mapper ?s) out"
        using process_MIDI_event_ok [OF d(2) q(3)] by blast
      with r(1) Inr y size True q assms(3) show ?thesis
        by (auto simp: take_step_def Let_def threads_ok_def driver_ok_def wf_f1_def io_ok_def)
    qed
  next
    case False
    obtain w1 dev1 r where wr: "f1_write os (ds_world ?s) (ds_dev ?s) = (w1, dev1, r)" using prod_cases3 by blast
    from f1_write_keeps [OF d(3, 4) wr] wr size False assms(3) show ?thesis
      by (cases r) (auto simp: take_step_def Let_def threads_ok_def driver_ok_def)
  qed
qed

lemma process_step_callback:
  "process_step ops jm out_port in_port nframes t = (case callback_step ops jm out_port in_port nframes (th_shared t) of
     Running s \<Rightarrow> Live (t\<lparr>th_shared := s\<rparr>) | Ended c \<Rightarrow> Live t | Crashed e \<Rightarrow> Dead e)"
  by (simp add: process_step_def callback_step_def split: sum.split prod.split)

lemma process_step_ok:
  assumes "jack_ring ops rinv content" "threads_ok rinv content t"
  shows "step_ok rinv content UNIV (process_step ops jm out_port in_port nframes t)"
  using callback_keeps [OF assms(1), of "th_shared t" jm out_port in_port nframes] assms(2)
  by (auto simp: process_step_callback threads_ok_def split: driver.split)

lemma step_ok_mono: "step_ok rinv content es p \<Longrightarrow> es \<subseteq> es' \<Longrightarrow> step_ok rinv content es' p"
  by (auto simp: step_ok_def split: stepped.splits)

lemma thread_step_ok:
  assumes "jack_ring ops rinv content" "reports_12bit os" "threads_ok rinv content t" "thread_step os ops jm t p"
  shows "step_ok rinv content UNIV p"
  using assms(4)
proof cases
  case reads
  then show ?thesis using step_ok_mono [OF read_step_ok [OF assms(2, 3)]] by simp
next
  case (handles ev evs)
  then show ?thesis using step_ok_mono [OF handle_step_ok [OF assms(1, 3)]] by simp
next
  case writes
  then show ?thesis using step_ok_mono [OF write_step_ok [OF assms(3)]] by simp
next
  case batches
  then show ?thesis using assms(3) by (simp add: batch_step_def threads_ok_def)
next
  case (takes k addr)
  then show ?thesis using take_step_ok [OF assms(1) takes(2) assms(3), of os k] step_ok_mono by fastforce
next
  case (processes out_port in_port nframes)
  then show ?thesis using process_step_ok [OF assms(1, 3)] by simp
qed

lemma interleaved_ok:
  assumes "jack_ring ops rinv content" "reports_12bit os"
  shows "interleaved os ops api jm p \<Longrightarrow> step_ok rinv content UNIV p"
proof (induction rule: interleaved.induct)
  case (boots a b sandbox w j s)
  then show ?case using driver_boot_ok [OF assms(1) boots(1, 2), of sandbox os api w j] by (simp add: threads_ok_def)
next
  case (steps t p)
  then show ?case using thread_step_ok [OF assms] by simp
qed

section \<open>The turns as sequences of steps\<close>

text \<open>The threads outside of their loops' bodies.\<close>

definition between_turns :: "('w, 'rb) driver_state \<Rightarrow> bool \<Rightarrow> ('w, 'rb) threads" where
  "between_turns s wh = \<lparr>th_shared = s, th_events = None, th_batch = None, th_write_hid = wh\<rparr>"

lemma interleaved_handlers:
  assumes "fold_res (input_handler ops) evs (ds_world s, ds_dev s, ds_mapper s, ds_jack s) = Inr (w, dev, m, jack)"
    and "interleaved os ops api jm (Live \<lparr>th_shared = s, th_events = Some evs, th_batch = bt, th_write_hid = wh\<rparr>)"
  shows "interleaved os ops api jm (Live \<lparr>th_shared = \<lparr>ds_world = w, ds_dev = dev, ds_mapper = m, ds_jack = jack\<rparr>,
    th_events = Some [], th_batch = bt, th_write_hid = wh\<rparr>)"
  using assms
proof (induction evs arbitrary: s)
  case Nil
  then show ?case by (cases s) simp
next
  case (Cons ev evs)
  obtain w1 dev1 m1 jack1 where h: "input_handler ops ev (ds_world s, ds_dev s, ds_mapper s, ds_jack s) = Inr (w1, dev1, m1, jack1)"
    "fold_res (input_handler ops) evs (w1, dev1, m1, jack1) = Inr (w, dev, m, jack)"
    using Cons.prems(1) by (auto simp: bind_res_Inr_iff)
  let ?s = "\<lparr>ds_world = w1, ds_dev = dev1, ds_mapper = m1, ds_jack = jack1\<rparr>"
  let ?t = "\<lparr>th_shared = s, th_events = Some (ev # evs), th_batch = bt, th_write_hid = wh\<rparr>"
  have "thread_step os ops jm ?t (handle_step ops ev evs ?t)" by (rule thread_step.handles) simp
  from interleaved.steps [OF Cons.prems(2) this] h(1)
  have "interleaved os ops api jm (Live \<lparr>th_shared = ?s, th_events = Some evs, th_batch = bt, th_write_hid = wh\<rparr>)"
    by (simp add: handle_step_def)
  from Cons.IH [OF _ this] h(2) show ?case by simp
qed

lemma interleaved_input:
  assumes "interleaved os ops api jm (Live (between_turns s wh))" "input_step os ops s = Running s'"
  shows "interleaved os ops api jm (Live (between_turns s' wh))"
proof -
  obtain w1 dev1 r where rd: "f1_read os (ds_world s) (ds_dev s) = (w1, dev1, r)" using prod_cases3 by blast
  let ?dev = "generate_input_events dev1"
  obtain x w2 dev2 m2 jack2 where h: "r = Inr x" "fold_res (input_handler ops) (f1_events ?dev) (w1, ?dev, ds_mapper s, ds_jack s) = Inr (w2, dev2, m2, jack2)"
      and wr: "(case f1_write os w2 dev2 of (w3, dev3, Inl e) \<Rightarrow> Inl e | (w3, dev3, Inr _) \<Rightarrow> Inr (w3, dev3, m2, jack2)) =
        Inr (ds_world s', ds_dev s', ds_mapper s', ds_jack s')"
    using assms(2) rd
    by (auto simp: input_step_def input_turn_def f1_read_events_def bind_res_Inr_iff Let_def split: sum.splits prod.splits)
  obtain dev3 where w: "f1_write os w2 dev2 = (ds_world s', dev3, Inr ())" "dev3 = ds_dev s'" "m2 = ds_mapper s'" "jack2 = ds_jack s'"
    using wr by (auto split: prod.splits sum.splits)
  let ?t = "between_turns s wh"
  have "thread_step os ops jm ?t (read_step os ?t)" by (rule thread_step.reads) (simp add: between_turns_def)
  from interleaved.steps [OF assms(1) this] rd h(1)
  have "interleaved os ops api jm (Live \<lparr>th_shared = s\<lparr>ds_world := w1, ds_dev := ?dev\<rparr>, th_events = Some (f1_events ?dev),
      th_batch = None, th_write_hid = wh\<rparr>)"
    by (simp add: read_step_def between_turns_def Let_def)
  from interleaved_handlers [OF _ this] h(2)
  have i: "interleaved os ops api jm (Live \<lparr>th_shared = \<lparr>ds_world = w2, ds_dev = dev2, ds_mapper = m2, ds_jack = jack2\<rparr>,
      th_events = Some [], th_batch = None, th_write_hid = wh\<rparr>)" (is "interleaved _ _ _ _ (Live ?u)") by simp
  have "thread_step os ops jm ?u (write_step os ?u)" by (rule thread_step.writes) simp
  from interleaved.steps [OF i this] w show ?thesis by (cases s') (simp add: write_step_def between_turns_def)
qed

lemma interleaved_batch:
  assumes "midi_batch ops addr (ds_mapper s) k (ds_jack s) (f1_out (ds_dev s)) wh = Some (Inr (jack, out, wh'))" "addr \<noteq> 0"
    and "interleaved os ops api jm (Live \<lparr>th_shared = s, th_events = evs, th_batch = Some k, th_write_hid = wh\<rparr>)"
  shows "\<exists>k' n. interleaved os ops api jm (Live \<lparr>th_shared = s\<lparr>ds_dev := (ds_dev s)\<lparr>f1_out := out\<rparr>, ds_jack := jack\<rparr>,
      th_events = evs, th_batch = Some k', th_write_hid = wh'\<rparr>) \<and> read_bufsize ops jack = Inr n \<and> \<not> (0 < n \<and> 0 < k')"
  using assms(1, 3)
proof (induction k arbitrary: s wh)
  case 0
  then obtain n where "read_bufsize ops (ds_jack s) = Inr n" by (auto simp: bind_res_Inr_iff)
  with 0 show ?case by (intro exI [of _ 0] exI [of _ n]) (auto simp: bind_res_Inr_iff)
next
  case (Suc k)
  obtain n where n: "read_bufsize ops (ds_jack s) = Inr n"
    using Suc.prems(1) by (cases "read_bufsize ops (ds_jack s)") simp_all
  show ?case
  proof (cases "n = 0")
    case True
    with Suc.prems n show ?thesis by (auto intro!: exI [of _ "Suc k"])
  next
    case False
    with Suc.prems(1) n obtain jack1 event changed out1 where e: "jw_get ops addr (ds_jack s) = Some (Inr (jack1, event))"
        "process_MIDI_event (ds_mapper s) event (f1_out (ds_dev s)) = Inr (changed, out1)"
        "midi_batch ops addr (ds_mapper s) k jack1 out1 changed = Some (Inr (jack, out, wh'))"
      by (auto split: sum.splits bind_splits)
    let ?t = "\<lparr>th_shared = s, th_events = evs, th_batch = Some (Suc k), th_write_hid = wh\<rparr>"
    let ?s = "s\<lparr>ds_dev := (ds_dev s)\<lparr>f1_out := out1\<rparr>, ds_jack := jack1\<rparr>"
    let ?p = "Live \<lparr>th_shared = ?s, th_events = evs, th_batch = Some k, th_write_hid = changed\<rparr>"
    have "take_step os ops addr (Suc k) ?t = Some ?p"
      using n False e(1, 2) by (simp add: take_step_def Let_def)
    then have "interleaved os ops api jm ?p"
      by (intro interleaved.steps [OF Suc.prems(2)] thread_step.takes [OF _ assms(2)]) simp_all
    from Suc.IH [OF _ this] e(3) show ?thesis by simp
  qed
qed

lemma interleaved_midi:
  assumes "interleaved os ops api jm (Live (between_turns s wh))" "midi_step os ops addr s = Some (Running s')" "addr \<noteq> 0"
  shows "\<exists>wh'. interleaved os ops api jm (Live (between_turns s' wh'))"
proof -
  obtain jack out wh' where b: "midi_batch ops addr (ds_mapper s) BATCH_SIZE (ds_jack s) (f1_out (ds_dev s)) False = Some (Inr (jack, out, wh'))"
    and r: "(if wh' then case f1_write os (ds_world s) ((ds_dev s)\<lparr>f1_out := out\<rparr>) of
        (w1, dev2, Inl e) \<Rightarrow> Inl e | (w1, dev2, Inr _) \<Rightarrow> Inr (w1, dev2, jack)
      else Inr (ds_world s, (ds_dev s)\<lparr>f1_out := out\<rparr>, jack)) = Inr (ds_world s', ds_dev s', ds_jack s')" "ds_mapper s' = ds_mapper s"
  proof -
    obtain r where r: "midi_turn os ops addr (ds_world s) (ds_dev s) (ds_mapper s) (ds_jack s) = Some r"
      "(case r of Inl e \<Rightarrow> Crashed e | Inr (w, dev, jack) \<Rightarrow> Running (s\<lparr>ds_world := w, ds_dev := dev, ds_jack := jack\<rparr>)) = Running s'"
      using assms(2) by (auto simp: midi_step_def)
    then obtain w dev jack where "r = Inr (w, dev, jack)" "s' = s\<lparr>ds_world := w, ds_dev := dev, ds_jack := jack\<rparr>"
      by (auto split: sum.splits)
    with r(1) show thesis using that by (auto simp: midi_turn_def bind_res_Inr_iff Let_def)
  qed
  let ?t = "between_turns s wh"
  have "thread_step os ops jm ?t (batch_step ?t)" by (rule thread_step.batches) (simp add: between_turns_def)
  from interleaved.steps [OF assms(1) this]
  have "interleaved os ops api jm (Live \<lparr>th_shared = s, th_events = None, th_batch = Some BATCH_SIZE, th_write_hid = False\<rparr>)"
    by (simp add: batch_step_def between_turns_def)
  from interleaved_batch [OF b assms(3) this] obtain k n where
      i: "interleaved os ops api jm (Live \<lparr>th_shared = s\<lparr>ds_dev := (ds_dev s)\<lparr>f1_out := out\<rparr>, ds_jack := jack\<rparr>,
        th_events = None, th_batch = Some k, th_write_hid = wh'\<rparr>)" (is "interleaved _ _ _ _ (Live ?u)")
      and n: "read_bufsize ops jack = Inr n" "\<not> (0 < n \<and> 0 < k)"
    by blast
  have "take_step os ops addr k ?u = Some (Live (between_turns s' wh'))"
    using r n by (cases s') (auto simp: take_step_def Let_def between_turns_def split: if_splits prod.splits sum.splits)
  then have "interleaved os ops api jm (Live (between_turns s' wh'))"
    by (intro interleaved.steps [OF i] thread_step.takes [OF _ assms(3)]) simp_all
  then show ?thesis by blast
qed

lemma interleaved_callback:
  assumes "interleaved os ops api jm (Live (between_turns s wh))" "callback_step ops jm out_port in_port nframes s = Running s'"
  shows "interleaved os ops api jm (Live (between_turns s' wh))"
  using interleaved.steps [OF assms(1) thread_step.processes, of out_port in_port nframes] assms(2)
  by (simp add: process_step_callback between_turns_def)

lemma turns_interleaved:
  assumes "driver_program os ops api jm p"
  shows "\<forall>s. p = Running s \<longrightarrow> (\<exists>wh. interleaved os ops api jm (Live (between_turns s wh)))"
  using assms
proof (induction rule: driver_program.induct)
  case (boot a b sandbox w j)
  then show ?case using interleaved.boots [OF boot, of sandbox os ops api w j] unfolding between_turns_def by metis
next
  case (input s)
  then show ?case using interleaved_input by metis
next
  case (midi s addr p)
  then show ?case using interleaved_midi by metis
next
  case (callback s out_port in_port nframes)
  then show ?case using interleaved_callback by metis
qed

section \<open>Properties\<close>


lemma echo_interleaved: "\<exists>t. interleaved echo_os ring_ops log_api list_midi (Live t) \<and> th_events t = None \<and> th_batch t = None"
proof -
  obtain s where s: "driver_boot (\<lambda>w. (w, Inr ())) echo_os ring_ops log_api idle_input idle_input (sample_world []) [] = Running s"
    using echo_boot by blast
  have "wf_input idle_input" by (simp add: wf_input_def idle_input_def)
  from interleaved.boots [OF this this s, of list_midi] show ?thesis by fastforce
qed




end
