(* ===== verification/Jack_Test.thy ===== *)
theory Jack_Test
  imports Jack_Wrapper
begin

text \<open>
  The manual test of libjack in \<open>driver-osc\<close> (\<open>exe/test_jack.cpp\<close>): the set-up in \<open>main\<close>, which asserts
  every step, and the process callback, which copies the events of the input port to the output
  port.  The callback starts with two calls of port functions on ring buffers; libjack does not say
  what they do, so they are parameters that may fail in any way.
\<close>

section \<open>libjack\<close>

record 'j tj_api =
  tj_open :: "'j \<Rightarrow> string \<Rightarrow> 'j \<times> nat option \<times> 32 word"
  tj_register :: "'j \<Rightarrow> nat \<Rightarrow> string \<Rightarrow> bool \<Rightarrow> 'j \<times> nat option"
  tj_set_process :: "'j \<Rightarrow> nat \<Rightarrow> 'j \<times> int"
  tj_activate :: "'j \<Rightarrow> nat \<Rightarrow> 'j \<times> int"

text \<open>\<open>jack_midi_clear_buffer\<close> and \<open>jack_midi_get_event_count\<close> on the memory of a ring buffer.\<close>

record 'rb misuse =
  mu_clear :: "'rb \<Rightarrow> 'rb res"
  mu_count :: "'rb \<Rightarrow> nat res"

definition JACK_FAILURE :: "32 word" where "JACK_FAILURE = 1"
definition CLIENT_NAME :: string where "CLIENT_NAME = ''my''"
definition RINGBUFFER_SIZE :: nat where "RINGBUFFER_SIZE = 1024"

record 'rb process_metadata =
  pm_client :: nat
  pm_in :: nat
  pm_out :: nat
  pm_in_buf :: 'rb
  pm_out_buf :: 'rb
  pm_buf_size :: nat
  pm_frames_processed :: nat

section \<open>The callback\<close>

text \<open>The loop over the events, from one on: the output port, how many were copied, and the result.\<close>

partial_function (option) echo_loop ::
    "'b jack_midi \<Rightarrow> 'b \<Rightarrow> 'b \<Rightarrow> nat \<Rightarrow> nat \<Rightarrow> ('b \<times> nat \<times> int) option" where
  "echo_loop jm in_buf out_buf idx frames = (case jm_event_get jm in_buf idx of
     None \<Rightarrow> Some (out_buf, frames, 0)
   | Some bytes \<Rightarrow> (case jm_event_write jm out_buf idx bytes of (out_buf', res) \<Rightarrow>
       if res \<noteq> 0 then Some (out_buf', frames, 1)
       else echo_loop jm in_buf out_buf' (idx + 1) (frames + 1)))"

text \<open>The counters \<open>idx\<close> and \<open>frame\<close> run together; the event count is only passed on to libjack.\<close>

definition test_process ::
    "'rb misuse \<Rightarrow> 'b jack_midi \<Rightarrow> 'b \<Rightarrow> 'b \<Rightarrow> 'rb process_metadata \<Rightarrow> ('b \<times> 'rb process_metadata \<times> int) res option" where
  "test_process mu jm in_port out_port meta =
     (case bind_res (mu_clear mu (pm_out_buf meta)) (\<lambda>out_buf. bind_res (mu_count mu (pm_in_buf meta)) (\<lambda>_. Inr out_buf)) of
        Inl e \<Rightarrow> Some (Inl e)
      | Inr out_buf \<Rightarrow> map_option (\<lambda>(out_port', frames, res).
            Inr (out_port', meta\<lparr>pm_out_buf := out_buf, pm_frames_processed := frames\<rparr>, res))
          (echo_loop jm in_port (jm_clear jm out_port) 0 (pm_frames_processed meta)))"

section \<open>The set-up\<close>

definition open_test_client :: "'j tj_api \<Rightarrow> 'j \<Rightarrow> 'j \<times> (nat \<times> 32 word) res" where
  "open_test_client api j = (case tj_open api j CLIENT_NAME of
     (j1, None, status) \<Rightarrow> (j1, Inl Assert_failed)
   | (j1, Some c, status) \<Rightarrow> (j1, bind_res (assert_res (status AND JACK_FAILURE = 0)) (\<lambda>_. Inr (c, status))))"

text \<open>The status tested after a port was registered is still the one of the client.\<close>

definition register_test_port :: "'j tj_api \<Rightarrow> 'j \<Rightarrow> nat \<Rightarrow> 32 word \<Rightarrow> string \<Rightarrow> bool \<Rightarrow> 'j \<times> nat res" where
  "register_test_port api j c status name inp = (case tj_register api j c name inp of
     (j1, None) \<Rightarrow> (j1, Inl Assert_failed)
   | (j1, Some p) \<Rightarrow> (j1, bind_res (assert_res (status AND JACK_FAILURE = 0)) (\<lambda>_. Inr p)))"

definition create_test_ring :: "'rb jack_rb \<Rightarrow> 'rb res" where
  "create_test_ring ops = (case rb_create ops RINGBUFFER_SIZE of None \<Rightarrow> Inl Assert_failed | Some r \<Rightarrow> Inr r)"

definition start_test_client :: "'j tj_api \<Rightarrow> 'j \<Rightarrow> nat \<Rightarrow> 'j \<times> unit res" where
  "start_test_client api j c = (case tj_set_process api j c of (j1, r) \<Rightarrow>
     if r \<noteq> 0 then (j1, Inl Assert_failed)
     else (case tj_activate api j1 c of (j2, r) \<Rightarrow> (j2, assert_res (r = 0))))"

definition test_main :: "'j tj_api \<Rightarrow> 'rb jack_rb \<Rightarrow> 'j \<Rightarrow> 'j \<times> 'rb process_metadata res" where
  "test_main api ops j = (case open_test_client api j of
     (j1, Inl e) \<Rightarrow> (j1, Inl e)
   | (j1, Inr (c, status)) \<Rightarrow> (case register_test_port api j1 c status ''in'' True of
     (j2, Inl e) \<Rightarrow> (j2, Inl e)
   | (j2, Inr inp) \<Rightarrow> (case register_test_port api j2 c status ''out'' False of
     (j3, Inl e) \<Rightarrow> (j3, Inl e)
   | (j3, Inr out) \<Rightarrow> (case bind_res (create_test_ring ops) (\<lambda>r1. bind_res (create_test_ring ops) (\<lambda>r2. Inr (r1, r2))) of
     Inl e \<Rightarrow> (j3, Inl e)
   | Inr (r1, r2) \<Rightarrow> (case start_test_client api j3 c of
     (j4, Inl e) \<Rightarrow> (j4, Inl e)
   | (j4, Inr _) \<Rightarrow> (j4, Inr \<lparr>pm_client = c, pm_in = inp, pm_out = out, pm_in_buf = r1, pm_out_buf = r2,
       pm_buf_size = RINGBUFFER_SIZE, pm_frames_processed = 0\<rparr>))))))"

section \<open>What the callback copies\<close>

text \<open>The events from index \<open>i\<close> on, each written at the frame that is its index.\<close>

fun port_echo :: "'b jack_midi \<Rightarrow> nat \<Rightarrow> byte list list \<Rightarrow> 'b \<Rightarrow> 'b" where
  "port_echo jm i [] b = b"
| "port_echo jm i (ev # evs) b = port_echo jm (i + 1) evs (fst (jm_event_write jm b i ev))"

lemma echo_loop_all:
  assumes "port_accepts jm" "\<And>k. jm_event_get jm in_buf k = (if k < n then Some (evs ! k) else None)" "length evs = n"
  shows "i \<le> n \<Longrightarrow> echo_loop jm in_buf b i frames = Some (port_echo jm i (drop i evs) b, frames + (n - i), 0)"
proof (induction "n - i" arbitrary: i b frames)
  case 0
  with assms(2) [of i] assms(3) show ?case by (subst echo_loop.simps) simp
next
  case (Suc m)
  then have i: "i < n" by simp
  obtain b1 r where w: "jm_event_write jm b i (evs ! i) = (b1, r)" by fastforce
  then have "r = 0" using assms(1) unfolding port_accepts_def by (metis snd_conv)
  moreover have d: "drop i evs = evs ! i # drop (Suc i) evs" using i assms(3) by (simp add: Cons_nth_drop_Suc)
  moreover have "echo_loop jm in_buf b1 (Suc i) (frames + 1) = Some (port_echo jm (Suc i) (drop (Suc i) evs) b1, frames + 1 + (n - Suc i), 0)"
    by (rule Suc.hyps(1)) (use Suc.hyps(2) i in simp_all)
  ultimately show ?case using assms(2) [of i] i w by (subst echo_loop.simps) simp
qed

text \<open>When the two calls on the ring buffers return, the callback copies every event of the input port, in
  order, the event with index \<open>i\<close> at frame \<open>i\<close> whatever its own time was, and counts them.\<close>

lemma test_process_echoes:
  assumes "port_accepts jm" "\<And>k. jm_event_get jm in_port k = (if k < length evs then Some (evs ! k) else None)"
    and "mu_clear mu (pm_out_buf meta) = Inr r" "mu_count mu (pm_in_buf meta) = Inr n"
  shows "test_process mu jm in_port out_port meta = Some (Inr (port_echo jm 0 evs (jm_clear jm out_port),
    meta\<lparr>pm_out_buf := r, pm_frames_processed := pm_frames_processed meta + length evs\<rparr>, 0))"
  using echo_loop_all [OF assms(1, 2) refl, of 0] assms(3, 4) by (simp add: test_process_def)

lemma test_process_example:
  "test_process \<lparr>mu_clear = Inr, mu_count = (\<lambda>_. Inr 0)\<rparr> list_midi [(5, [0x90, 60, 100]), (9, [0x80, 60, 0])] []
     \<lparr>pm_client = 1, pm_in = 1, pm_out = 2, pm_in_buf = (), pm_out_buf = (), pm_buf_size = 1024, pm_frames_processed = 0\<rparr> =
   Some (Inr ([(0, [0x90, 60, 100]), (1, [0x80, 60, 0])],
     \<lparr>pm_client = 1, pm_in = 1, pm_out = 2, pm_in_buf = (), pm_out_buf = (), pm_buf_size = 1024, pm_frames_processed = 2\<rparr>, 0))"
proof -
  have "port_accepts list_midi" by (simp add: port_accepts_def list_midi_def)
  moreover have get: "jm_event_get list_midi [(5, [0x90, 60, 100]), (9, [0x80, 60, 0])] k =
      (if k < length [[0x90, 60, 100], [0x80, 60, 0]] then Some ([[0x90, 60, 100], [0x80, 60, 0]] ! k) else None)" for k
    by (auto simp: list_midi_def less_Suc_eq numeral_2_eq_2)
  ultimately have e: "mu_clear mu (pm_out_buf meta) = Inr r \<Longrightarrow> mu_count mu (pm_in_buf meta) = Inr n \<Longrightarrow>
      test_process mu list_midi [(5, [0x90, 60, 100]), (9, [0x80, 60, 0])] [] meta = Some (Inr ([(0, [0x90, 60, 100]), (1, [0x80, 60, 0])],
        meta\<lparr>pm_out_buf := r, pm_frames_processed := pm_frames_processed meta + 2\<rparr>, 0))"
    for mu :: "unit misuse" and meta r n
    using test_process_echoes [OF _ get, of mu meta r n "[]"] by (simp add: list_midi_def)
  show ?thesis by (subst e) simp_all
qed

text \<open>A set-up that succeeds has passed every assertion: the client opened without failure, both ports were
  registered and the process callback was set before the client was activated.\<close>

lemma test_main_ok:
  assumes "test_main api ops j = (j', Inr meta)"
  shows "\<exists>j1 status j2 j3 j4. tj_open api j ''my'' = (j1, Some (pm_client meta), status) \<and> status AND 1 = 0 \<and>
    tj_register api j1 (pm_client meta) ''in'' True = (j2, Some (pm_in meta)) \<and>
    tj_register api j2 (pm_client meta) ''out'' False = (j3, Some (pm_out meta)) \<and>
    tj_set_process api j3 (pm_client meta) = (j4, 0) \<and> tj_activate api j4 (pm_client meta) = (j', 0)"
proof -
  from assms obtain j1 c status where a: "open_test_client api j = (j1, Inr (c, status))"
    by (auto simp: test_main_def split: prod.splits sum.splits)
  from assms a obtain j2 i where b: "register_test_port api j1 c status ''in'' True = (j2, Inr i)"
    by (auto simp: test_main_def split: prod.splits sum.splits)
  from assms a b obtain j3 k where d: "register_test_port api j2 c status ''out'' False = (j3, Inr k)"
    by (auto simp: test_main_def split: prod.splits sum.splits)
  from assms a b d have e: "start_test_client api j3 c = (j', Inr ())" "pm_client meta = c" "pm_in meta = i" "pm_out meta = k"
    by (auto simp: test_main_def split: prod.splits sum.splits)
  have "tj_open api j ''my'' = (j1, Some c, status) \<and> status AND 1 = 0"
    using a by (auto simp: open_test_client_def CLIENT_NAME_def JACK_FAILURE_def bind_res_Inr_iff split: prod.splits option.splits)
  moreover have "tj_register api j1 c ''in'' True = (j2, Some i)" "tj_register api j2 c ''out'' False = (j3, Some k)"
    using b d by (auto simp: register_test_port_def bind_res_Inr_iff split: prod.splits option.splits)
  moreover obtain j4 where "tj_set_process api j3 c = (j4, 0)" "tj_activate api j4 c = (j', 0)"
    using e(1) by (auto simp: start_test_client_def split: prod.splits if_splits)
  ultimately show ?thesis using e(2-4) by blast
qed

end
