(* ===== verification/Devtest.thy ===== *)
theory Devtest
  imports Driver_Main
begin

text \<open>
  The device test \<open>driver/src/devtest.cpp\<close>: the search for the device (the loop of
  \<open>discover_device\<close>, written out in \<open>main\<close>), the thread that moves a pattern over the lights, and the
  loop that reads and prints the input.  The two share the device and the input state; a turn of
  either is one step.  The percentages are computed but their formatting is not modelled.
\<close>

section \<open>The lights\<close>

definition devtest_button :: "byte \<Rightarrow> nat \<Rightarrow> output_state \<Rightarrow> output_state res" where
  "devtest_button offset i output =
     (let brightness = word_of_nat (((i + 1) * 8 + unat offset) mod unat MAX_BRIGHTNESS) :: byte;
          shifted = (\<lambda>n. word_of_nat ((unat brightness + n) mod unat MAX_BRIGHTNESS) :: byte);
          color = (brightness, shifted (unat MAX_BRIGHTNESS div 3), shifted ((unat MAX_BRIGHTNESS div 3) * 2))
      in bind_res (set_at_res (os_matrix output) i color) (\<lambda>matrix.
         bind_res (if i < STOP_BUTTONS_NUM then set_at_res (os_stop output) i brightness else Inr (os_stop output))
           (\<lambda>stop. Inr (output\<lparr>os_matrix := matrix, os_stop := stop\<rparr>))))"

definition devtest_lights :: "byte \<Rightarrow> bool list \<Rightarrow> output_state \<Rightarrow> output_state res" where
  "devtest_lights offset special output =
     bind_res (fold_res (devtest_button offset) [0..<MATRIX_BUTTONS_NUM] output) (\<lambda>output1.
     bind_res (fold_res (\<lambda>i xs. bind_res (sub_res special i) (\<lambda>on.
         set_at_res xs i (if on then FULL_BRIGHTNESS else offset mod MAX_BRIGHTNESS)))
       [0..<SPECIAL_BUTTONS_NUM] (os_special output1)) (\<lambda>sp.
     bind_res (num_to_segments (offset mod MAX_SEGMENT_NUM)) (\<lambda>(left, right).
       Inr (output1\<lparr>os_special := sp, os_left_char := left, os_right_char := right,
         os_left_brightness := FULL_BRIGHTNESS, os_right_brightness := FULL_BRIGHTNESS,
         os_left_dot := (if (offset div 10) mod 2 = 0 then FULL_BRIGHTNESS else DARK),
         os_right_dot := (if (offset div 10) mod 2 = 0 then DARK else offset mod MAX_BRIGHTNESS)\<rparr>))))"

section \<open>The text\<close>

definition NL :: string where "NL = [CHR 0x0A]"

definition devtest_percentage :: "u16 \<Rightarrow> u16 \<Rightarrow> rat" where
  "devtest_percentage val maximum = fl 24 (fl 24 (of_nat (unat val) / of_nat (unat maximum)) * 100)"

definition devtest_percentages :: "input_state \<Rightarrow> (rat list \<times> rat list) res" where
  "devtest_percentages input =
     bind_res (fold_res (\<lambda>i ps. bind_res (at_res (in_knobs input) i) (\<lambda>v. Inr (ps @ [devtest_percentage v KNOBS_MAX])))
       [0..<KNOBS_NUM] []) (\<lambda>knobs.
     bind_res (fold_res (\<lambda>i ps. bind_res (at_res (in_faders input) i) (\<lambda>v. Inr (ps @ [devtest_percentage v FADERS_MAX])))
       [0..<FADERS_NUM] []) (\<lambda>faders. Inr (knobs, faders)))"

definition RULER :: string where "RULER = ''+---+---+---+---+'' @ NL"

text \<open>What is printed from the wheel on.\<close>

definition devtest_text :: "input_state \<Rightarrow> string res" where
  "devtest_text input =
     bind_res (fold_res (\<lambda>i out. bind_res (sub_res (in_special input) i) (\<lambda>on.
         Inr (if on then out @ '' '' @ special_btn_name (word_of_nat i) else out))) [0..<SPECIAL_BUTTONS_NUM]
       (NL @ ''WHEEL: '' @ show_nat (unat (in_wheel input)) @ NL @ ''SP:'')) (\<lambda>out.
     bind_res (fold_res (\<lambda>i out.
         bind_res (fold_res (\<lambda>j out. bind_res (sub_res (in_matrix input) (unat (matrix_pos (word_of_nat j) (word_of_nat i))))
             (\<lambda>on. Inr (out @ ''| '' @ (if on then ''x '' else ''  '')))) [0..<4] (out @ RULER))
           (\<lambda>out. Inr (out @ ''|'' @ NL))) [0..<4] (out @ NL)) (\<lambda>out.
     bind_res (fold_res (\<lambda>i out. bind_res (sub_res (in_stop input) i)
         (\<lambda>on. Inr (out @ (if on then ''|STP'' else ''|   '')))) [0..<4] (out @ RULER @ RULER)) (\<lambda>out.
       Inr (out @ ''|'' @ NL @ RULER))))"

section \<open>The program\<close>

record 'w devtest_state =
  dt_world :: 'w
  dt_dev :: f1_impl
  dt_offset :: byte
  dt_input :: input_state
  dt_out :: "(rat list \<times> rat list \<times> string) list"

datatype 'w devtest = Testing "'w devtest_state" | Test_ended int | Test_crashed failure

text \<open>The local \<open>input_state\<close> starts indeterminate, like those of the device.\<close>

definition devtest_start :: "'w posix \<Rightarrow> input_state \<Rightarrow> input_state \<Rightarrow> input_state \<Rightarrow> 'w \<Rightarrow> 'w devtest" where
  "devtest_start os a b c w = (case discover_from os a b [0..<100] w of
     (w1, Inl e) \<Rightarrow> Test_crashed e
   | (w1, Inr None) \<Rightarrow> Test_ended 2
   | (w1, Inr (Some dev)) \<Rightarrow> Testing \<lparr>dt_world = w1, dt_dev = dev, dt_offset = 0, dt_input = c, dt_out = []\<rparr>)"

definition light_turn :: "'w posix \<Rightarrow> 'w devtest_state \<Rightarrow> 'w devtest" where
  "light_turn os s =
     (let offset = dt_offset s + 1; dev = dt_dev s in
      case devtest_lights offset (in_special (dt_input s)) (f1_out dev) of
        Inl e \<Rightarrow> Test_crashed e
      | Inr out \<Rightarrow> (case f1_write os (dt_world s) (dev\<lparr>f1_out := out\<rparr>) of
          (w1, dev1, Inl e) \<Rightarrow> Test_crashed e
        | (w1, dev1, Inr _) \<Rightarrow> Testing (s\<lparr>dt_world := w1, dt_dev := dev1, dt_offset := offset\<rparr>)))"

definition print_turn :: "'w posix \<Rightarrow> 'w devtest_state \<Rightarrow> 'w devtest" where
  "print_turn os s = (case f1_read os (dt_world s) (dt_dev s) of
     (w1, dev1, Inl e) \<Rightarrow> Test_crashed e
   | (w1, dev1, Inr input) \<Rightarrow> (case bind_res (devtest_percentages input) (\<lambda>(knobs, faders).
         bind_res (devtest_text input) (\<lambda>txt. Inr (knobs, faders, txt))) of
       Inl e \<Rightarrow> Test_crashed e
     | Inr out \<Rightarrow> Testing (s\<lparr>dt_world := w1, dt_dev := dev1, dt_input := input, dt_out := dt_out s @ [out]\<rparr>)))"

inductive devtest_run :: "'w posix \<Rightarrow> 'w devtest \<Rightarrow> bool" for os where
  start: "wf_input a \<Longrightarrow> wf_input b \<Longrightarrow> wf_input c \<Longrightarrow> devtest_run os (devtest_start os a b c w)"
| light: "devtest_run os (Testing s) \<Longrightarrow> devtest_run os (light_turn os s)"
| print: "devtest_run os (Testing s) \<Longrightarrow> devtest_run os (print_turn os s)"

section \<open>The lights stay in range\<close>

lemma num_to_segments_total: "\<exists>l r. num_to_segments (n mod MAX_SEGMENT_NUM) = Inr (l, r)"
proof -
  have "unat (n mod MAX_SEGMENT_NUM) < 100" by (simp add: MAX_SEGMENT_NUM_def unat_mod)
  then show ?thesis by (simp add: num_to_segments_table)
qed

lemma dim_mod: "(b :: byte) mod MAX_BRIGHTNESS < MAX_BRIGHTNESS"
  by (simp add: MAX_BRIGHTNESS_def word_less_nat_alt unat_mod)

lemma dim_of_mod: "word_of_nat (n mod unat MAX_BRIGHTNESS) < MAX_BRIGHTNESS"
proof -
  have "unat (word_of_nat (n mod 128) :: byte) \<le> n mod 128" by (simp add: unat_of_nat)
  also have "\<dots> < 128" by simp
  finally show ?thesis by (simp add: MAX_BRIGHTNESS_def word_less_nat_alt)
qed

lemma devtest_button_ok:
  assumes "i < 16" "wf_output out" "dim_output out"
  shows "\<exists>out'. devtest_button offset i out = Inr out' \<and> wf_output out' \<and> dim_output out'"
proof -
  define b :: byte where "b = word_of_nat (((i + 1) * 8 + unat offset) mod unat MAX_BRIGHTNESS)"
  define c :: button_color where "c = (b, word_of_nat ((unat b + unat MAX_BRIGHTNESS div 3) mod unat MAX_BRIGHTNESS),
    word_of_nat ((unat b + (unat MAX_BRIGHTNESS div 3) * 2) mod unat MAX_BRIGHTNESS))"
  have "b < MAX_BRIGHTNESS" "dim_color c" by (simp_all add: b_def c_def dim_color_def dim_of_mod)
  moreover have "devtest_button offset i out = Inr (out\<lparr>os_matrix := (os_matrix out)[i := c],
      os_stop := (if i < 4 then (os_stop out)[i := b] else os_stop out)\<rparr>)"
    using assms(1, 2) by (simp add: devtest_button_def wf_output_def STOP_BUTTONS_NUM_def b_def c_def Let_def)
  ultimately show ?thesis
    using assms by (auto simp: wf_output_def dim_output_def intro: list_all_update)
qed

lemma devtest_special_ok:
  assumes "length special = 9" "length xs = 9" "list_all (\<lambda>b. b < MAX_BRIGHTNESS) (tl xs)"
  shows "\<exists>ys. fold_res (\<lambda>i xs. bind_res (sub_res special i) (\<lambda>on.
         set_at_res xs i (if on then FULL_BRIGHTNESS else offset mod MAX_BRIGHTNESS))) [0..<9] xs = Inr ys \<and>
    length ys = 9 \<and> list_all (\<lambda>b. b < MAX_BRIGHTNESS) (tl ys)"
proof -
  let ?v = "\<lambda>i. if special ! i then FULL_BRIGHTNESS else offset mod MAX_BRIGHTNESS"
  let ?P = "\<lambda>xs :: byte list. length xs = 9 \<and> list_all (\<lambda>b. b < MAX_BRIGHTNESS) (tl xs)"
  have dim: "?v i < MAX_BRIGHTNESS" for i
    by (simp add: dim_mod) (simp add: FULL_BRIGHTNESS_def MAX_BRIGHTNESS_def)
  have step: "?P (xs[i := ?v i])" if "?P xs" for xs i
    using that list_all_tl_update [where P = "\<lambda>b. b < MAX_BRIGHTNESS" and x = "?v i", OF _ dim] by simp
  have "fold_res (\<lambda>i xs. bind_res (sub_res special i) (\<lambda>on.
         set_at_res xs i (if on then FULL_BRIGHTNESS else offset mod MAX_BRIGHTNESS))) [0..<9] xs =
      Inr (fold (\<lambda>i xs. xs[i := ?v i]) [0..<9] xs)"
  proof (rule fold_res_pure [where P = ?P])
    show "?P xs" using assms by simp
    show "?P (s[x := ?v x])" if "?P s" for x s using that by (rule step)
  qed (use assms in auto)
  moreover have "?P (fold (\<lambda>i xs. xs[i := ?v i]) [0..<9] xs)"
  proof (rule fold_invariant)
    show "?P xs" using assms by simp
    show "?P (s[x := ?v x])" if "?P s" for x s using that by (rule step)
  qed
  ultimately show ?thesis by blast
qed

lemma devtest_lights_ok:
  assumes "length special = 9" "wf_output out" "dim_output out" "length report = 81"
  shows "\<exists>out'. devtest_lights offset special out = Inr out' \<and> wf_output out' \<and> dim_output out' \<and>
    encode_report out' report = Inr (report_layout out')"
proof -
  have "\<exists>out1. fold_res (devtest_button offset) ks out = Inr out1 \<and> wf_output out1 \<and> dim_output out1"
    if "\<forall>i \<in> set ks. i < 16" for ks
    using that assms(2, 3)
  proof (induction ks arbitrary: out)
    case (Cons i ks)
    then obtain out1 where "devtest_button offset i out = Inr out1" "wf_output out1" "dim_output out1"
      using devtest_button_ok by fastforce
    with Cons.IH [of out1] Cons.prems(1) show ?case by auto
  qed simp
  from this [of "[0..<16]"] obtain out1 where o: "fold_res (devtest_button offset) [0..<16] out = Inr out1"
      "wf_output out1" "dim_output out1"
    by auto
  obtain ys where ys: "fold_res (\<lambda>i xs. bind_res (sub_res special i) (\<lambda>on.
         set_at_res xs i (if on then FULL_BRIGHTNESS else offset mod MAX_BRIGHTNESS))) [0..<9] (os_special out1) = Inr ys"
      "length ys = 9" "list_all (\<lambda>b. b < MAX_BRIGHTNESS) (tl ys)"
    using devtest_special_ok [OF assms(1), of "os_special out1" offset] o(2, 3)
    by (auto simp: wf_output_def dim_output_def)
  obtain l r where n: "num_to_segments (offset mod MAX_SEGMENT_NUM) = Inr (l, r)"
    using num_to_segments_total [of offset] by auto
  have small: "DARK < MAX_BRIGHTNESS" "FULL_BRIGHTNESS < MAX_BRIGHTNESS"
    by (simp_all add: DARK_def FULL_BRIGHTNESS_def MAX_BRIGHTNESS_def)
  from o ys small obtain out' where out': "devtest_lights offset special out = Inr out'" "wf_output out'" "dim_output out'"
    by (simp add: devtest_lights_def f1_sizes n Let_def wf_output_def dim_output_def dim_mod)
  with encode_report_eq [OF out'(2) assms(4)] show ?thesis by auto
qed

section \<open>The text is complete\<close>

lemma percentages_eq:
  assumes "wf_input s"
  shows "devtest_percentages s = Inr (map (\<lambda>v. devtest_percentage v 0xfff) (in_knobs s), map (\<lambda>v. devtest_percentage v 0xfff) (in_faders s))"
proof -
  have all: "fold_res (\<lambda>i ps. bind_res (at_res xs i) (\<lambda>v. Inr (ps @ [g v]))) ks ps = Inr (ps @ map (\<lambda>i. g (xs ! i)) ks)"
    if "\<forall>i \<in> set ks. i < length xs" for ks ps and xs :: "u16 list" and g :: "u16 \<Rightarrow> rat"
    using that by (induction ks arbitrary: ps) (simp_all add: at_res_def)
  have "map (\<lambda>i. g (xs ! i)) [0..<4] = map g xs" if "length xs = 4" for xs :: "u16 list" and g :: "u16 \<Rightarrow> rat"
    using that by (auto intro!: nth_equalityI simp del: upt.simps)
  with assms all [of "[0..<4]" "in_knobs s"] all [of "[0..<4]" "in_faders s"] show ?thesis
    by (simp add: devtest_percentages_def wf_input_def KNOBS_NUM_def FADERS_NUM_def KNOBS_MAX_def FADERS_MAX_def del: upt.simps)
qed

lemma devtest_text_total:
  assumes "wf_input s"
  shows "\<exists>txt. devtest_text s = Inr txt"
proof -
  have len: "length (in_special s) = 9" "length (in_matrix s) = 16" "length (in_stop s) = 4"
    using assms by (simp_all add: wf_input_def)
  have pos: "unat (matrix_pos (word_of_nat j) (word_of_nat i)) < 16" if "i < 4" "j < 4" for i j
  proof -
    have "i = 0 \<or> i = 1 \<or> i = 2 \<or> i = 3" "j = 0 \<or> j = 1 \<or> j = 2 \<or> j = 3" using that by linarith+
    then show ?thesis by (auto simp: matrix_pos_def)
  qed
  have "\<exists>out'. fold_res (\<lambda>i out. bind_res (sub_res (in_special s) i) (\<lambda>on.
         Inr (if on then out @ '' '' @ special_btn_name (word_of_nat i) else out))) [0..<9] out = Inr out'" for out
    by (rule fold_res_total) (simp add: sub_res_def len)
  moreover have row: "\<exists>out'. fold_res (\<lambda>j out. bind_res (sub_res (in_matrix s) (unat (matrix_pos (word_of_nat j) (word_of_nat i))))
             (\<lambda>on. Inr (out @ ''| '' @ (if on then ''x '' else ''  '')))) [0..<4] out = Inr out'" if "i < 4" for i out
    by (rule fold_res_total) (use pos [OF that] in \<open>simp add: sub_res_def len\<close>)
  have "\<exists>out'. fold_res (\<lambda>i out.
         bind_res (fold_res (\<lambda>j out. bind_res (sub_res (in_matrix s) (unat (matrix_pos (word_of_nat j) (word_of_nat i))))
             (\<lambda>on. Inr (out @ ''| '' @ (if on then ''x '' else ''  '')))) [0..<4] (out @ RULER))
           (\<lambda>out. Inr (out @ ''|'' @ NL))) [0..<4] out = Inr out'" for out
  proof (rule fold_res_total)
    fix i out assume "i \<in> set [0..<4 :: nat]"
    then have "i < 4" by simp
    from row [OF this, of "out @ RULER"] show "\<exists>out'. bind_res (fold_res (\<lambda>j out. bind_res (sub_res (in_matrix s) (unat (matrix_pos (word_of_nat j) (word_of_nat i))))
             (\<lambda>on. Inr (out @ ''| '' @ (if on then ''x '' else ''  '')))) [0..<4] (out @ RULER)) (\<lambda>out. Inr (out @ ''|'' @ NL)) = Inr out'"
      by auto
  qed
  moreover have "\<exists>out'. fold_res (\<lambda>i out. bind_res (sub_res (in_stop s) i)
         (\<lambda>on. Inr (out @ (if on then ''|STP'' else ''|   '')))) [0..<4] out = Inr out'" for out
    by (rule fold_res_total) (simp add: sub_res_def len)
  ultimately show ?thesis
    unfolding devtest_text_def SPECIAL_BUTTONS_NUM_def by (simp add: bind_res_Inr_iff del: upt.simps) metis
qed

section \<open>Properties\<close>

definition devtest_ok :: "'w devtest_state \<Rightarrow> bool" where
  "devtest_ok s \<longleftrightarrow> wf_f1 (dt_dev s) \<and> dim_output (f1_out (dt_dev s)) \<and> wf_input (dt_input s)"

text \<open>What a turn comes to: a state with the invariant, or the end for a failing device.\<close>

definition turn_ok :: "'w devtest \<Rightarrow> bool" where
  "turn_ok p \<longleftrightarrow> (case p of Testing s \<Rightarrow> devtest_ok s | Test_ended c \<Rightarrow> False | Test_crashed e \<Rightarrow> e = Hid_error)"

lemma light_turn_ok:
  assumes "devtest_ok s"
  shows "turn_ok (light_turn os s)"
proof -
  let ?dev = "dt_dev s"
  have d: "length (in_special (dt_input s)) = 9" "wf_output (f1_out ?dev)" "dim_output (f1_out ?dev)" "length (f1_out_report ?dev) = 81"
    using assms by (auto simp: devtest_ok_def wf_f1_def wf_input_def)
  obtain out where out: "devtest_lights (dt_offset s + 1) (in_special (dt_input s)) (f1_out ?dev) = Inr out" "wf_output out" "dim_output out"
    using devtest_lights_ok [OF d] by blast
  obtain w1 dev1 r where wr: "f1_write os (dt_world s) (?dev\<lparr>f1_out := out\<rparr>) = (w1, dev1, r)" using prod_cases3 by blast
  have "wf_f1 (?dev\<lparr>f1_out := out\<rparr>)" "dim_output (f1_out (?dev\<lparr>f1_out := out\<rparr>))"
    using assms out by (auto simp: devtest_ok_def wf_f1_def)
  from f1_write_keeps [OF this wr] assms out wr show ?thesis
    by (cases r) (auto simp: light_turn_def turn_ok_def devtest_ok_def)
qed

lemma print_turn_ok:
  assumes "devtest_ok s"
  shows "turn_ok (print_turn os s)"
proof -
  have wf: "wf_f1 (dt_dev s)" using assms by (simp add: devtest_ok_def)
  obtain w1 dev1 r where rd: "f1_read os (dt_world s) (dt_dev s) = (w1, dev1, r)" using prod_cases3 by blast
  show ?thesis
  proof (cases r)
    case (Inl e)
    with rd f1_read_fails [OF wf] show ?thesis by (auto simp: print_turn_def turn_ok_def)
  next
    case (Inr input)
    have wf1: "wf_f1 dev1" by (rule wf_f1_read [OF wf rd])
    have same: "input = f1_in dev1" "f1_out dev1 = f1_out (dt_dev s)"
      using rd Inr by (auto simp: f1_read_def update_in_state_def Let_def bind_res_Inr_iff split: prod.splits sum.splits if_splits)
    then have "wf_input input" using wf1 by (simp add: wf_f1_def)
    from percentages_eq [OF this] devtest_text_total [OF this] rd Inr wf1 same assms show ?thesis
      by (auto simp: print_turn_def turn_ok_def devtest_ok_def wf_f1_def)
  qed
qed

lemma devtest_run_ok: "devtest_run os p \<Longrightarrow> (\<forall>s. p = Testing s \<longrightarrow> devtest_ok s)"
proof (induction rule: devtest_run.induct)
  case (start a b c w)
  have dim: "dim_output default_output" using good_main_mapper by code_simp
  show ?case
  proof (intro allI impI)
    fix s assume "devtest_start os a b c w = Testing s"
    then obtain w1 d where d: "discover_from os a b [0..<100] w = (w1, Inr (Some d))" "dt_dev s = d" "dt_input s = c"
      by (auto simp: devtest_start_def split: prod.splits sum.splits option.splits)
    obtain f where "f1_new a b f = Inr d" using discover_from_new [OF d(1)] by blast
    from f1_new_ok [OF start(1, 2) this] d dim start(3) show "devtest_ok s" by (simp add: devtest_ok_def)
  qed
next
  case (light s)
  then show ?case using light_turn_ok [of s os] by (auto simp: turn_ok_def)
next
  case (print s)
  then show ?case using print_turn_ok [of s os] by (auto simp: turn_ok_def)
qed

text \<open>C38: The device test runs until the device fails: after any turns of its two threads, whatever the
  offset and the input, the pattern and the text are computed without an index out of range, the
  two digits exist, the lights meet the assertions of the report encoder, and the next turn of
  either thread goes on or ends with the exception of a failing device.\<close>

theorem devtest_run_safe:
  assumes "devtest_run os (Testing s)"
  shows "wf_f1 (dt_dev s) \<and> dim_output (f1_out (dt_dev s)) \<and>
    (\<forall>e. light_turn os s = Test_crashed e \<longrightarrow> e = Hid_error) \<and> (\<forall>e. print_turn os s = Test_crashed e \<longrightarrow> e = Hid_error) \<and>
    light_turn os s \<noteq> Test_ended c \<and> print_turn os s \<noteq> Test_ended c"
  using devtest_run_ok [OF assms] light_turn_ok [of s os] print_turn_ok [of s os]
  by (auto simp: devtest_ok_def turn_ok_def)

lemma devtest_run_safe_witness:
  "\<exists>s. devtest_run mem_os (Testing s) \<and> dt_offset s = 1 \<and> dim_output (f1_out (dt_dev s)) \<and>
     print_turn mem_os s = Test_crashed Hid_error"
proof -
  have wf: "wf_input idle_input" by (simp add: wf_input_def idle_input_def)
  obtain s0 where s0: "devtest_start mem_os idle_input idle_input idle_input (sample_world []) = Testing s0" "dt_world s0 = sample_world []"
    "dt_offset s0 = 0"
  proof -
    have "case devtest_start mem_os idle_input idle_input idle_input (sample_world []) of
        Testing s \<Rightarrow> dt_world s = sample_world [] \<and> dt_offset s = 0 | _ \<Rightarrow> False" by code_simp
    then show thesis using that by (auto split: devtest.splits)
  qed
  have r0: "devtest_run mem_os (Testing s0)" using devtest_run.start [OF wf wf wf, of mem_os "sample_world []"] s0(1) by simp
  obtain s1 where s1: "light_turn mem_os s0 = Testing s1" "md_rx (dt_world s1) = []" "dt_offset s1 = 1"
  proof -
    have "turn_ok (light_turn mem_os s0)" using light_turn_ok devtest_run_ok [OF r0] by blast
    moreover have "light_turn mem_os s0 \<noteq> Test_crashed Hid_error"
    proof -
      have "devtest_ok s0" using devtest_run_ok [OF r0] by blast
      then have d: "length (in_special (dt_input s0)) = 9" "wf_output (f1_out (dt_dev s0))" "dim_output (f1_out (dt_dev s0))" "length (f1_out_report (dt_dev s0)) = 81"
        by (auto simp: devtest_ok_def wf_f1_def wf_input_def)
      obtain out where "devtest_lights (dt_offset s0 + 1) (in_special (dt_input s0)) (f1_out (dt_dev s0)) = Inr out"
          "encode_report out (f1_out_report (dt_dev s0)) = Inr (report_layout out)"
        using devtest_lights_ok [OF d] by blast
      then show ?thesis by (simp add: light_turn_def f1_write_def update_out_report_def hid_write_def mem_os_def)
    qed
    ultimately show thesis using that s0(2, 3)
      by (auto simp: turn_ok_def light_turn_def f1_write_def hid_write_def mem_os_def sample_world_def Let_def
          split: devtest.splits sum.splits prod.splits)
  qed
  have run: "devtest_run mem_os (Testing s1)" using devtest_run.light [OF r0] s1(1) by simp
  have "print_turn mem_os s1 = Test_crashed Hid_error"
    using s1(2) devtest_run_ok [OF run] by (simp add: print_turn_def f1_read_def hid_read_def mem_os_def throw_strerror_def devtest_ok_def wf_f1_def)
  with devtest_run_safe [OF run] run s1(3) show ?thesis by blast
qed

end
