(* ===== verification/Osc_Input.thy ===== *)
theory Osc_Input
  imports F1_Device
begin

text \<open>
  The input side of \<open>driver-osc\<close>: \<open>F1InpuState\<close> and the difference of two states
  (\<open>F1InputState.hpp\<close>, \<open>.cpp\<close>), and the device \<open>F1HidDev\<close> (\<open>F1HidDev.hpp\<close>, \<open>.cpp\<close>), with the
  decoder and the encoder it has of its own.  Both are shown equal to those of \<open>driver\<close>.

  \<open>F1InpuState\<close> has the fields of \<open>F1Device::InputState\<close> and shares the record \<open>input_state\<close>.
\<close>

section \<open>Changes\<close>

type_synonym f1_inpu_state = input_state

record btn_diff =
  bd_matrix :: "byte list"
  bd_stop :: "byte list"
  bd_special :: "byte list"

record f1_input_change =
  pressed_buttons :: btn_diff
  released_buttons :: btn_diff
  wheel_diff :: "8 word"
  ch_wheel :: byte
  ch_knobs :: "(byte \<times> u16) list"
  ch_faders :: "(byte \<times> u16) list"

text \<open>
  One loop over the buttons: the indices pressed and the indices released.  \<open>wheel_diff\<close> is an
  \<open>int8_t\<close>, which the difference of the two bytes wraps into; \<open>sint\<close> reads it.
\<close>

definition btn_changes :: "bool list \<Rightarrow> bool list \<Rightarrow> nat \<Rightarrow> byte list \<times> byte list" where
  "btn_changes new old n = fold (\<lambda>i (pressed, released).
     if \<not> old ! i \<and> new ! i then (pressed @ [of_nat i], released)
     else if old ! i \<and> \<not> new ! i then (pressed, released @ [of_nat i])
     else (pressed, released)) [0..<n] ([], [])"

definition enc_changes :: "u16 list \<Rightarrow> u16 list \<Rightarrow> nat \<Rightarrow> (byte \<times> u16) list" where
  "enc_changes new old n = fold (\<lambda>i xs. if new ! i \<noteq> old ! i then xs @ [(of_nat i, new ! i)] else xs) [0..<n] []"

definition state_minus :: "f1_inpu_state \<Rightarrow> f1_inpu_state \<Rightarrow> f1_input_change" where
  "state_minus new_state old_state =
     (let matrix = btn_changes (in_matrix new_state) (in_matrix old_state) 16;
          special = btn_changes (in_special new_state) (in_special old_state) 9;
          stop = btn_changes (in_stop new_state) (in_stop old_state) 4
      in \<lparr>pressed_buttons = \<lparr>bd_matrix = fst matrix, bd_stop = fst stop, bd_special = fst special\<rparr>,
          released_buttons = \<lparr>bd_matrix = snd matrix, bd_stop = snd stop, bd_special = snd special\<rparr>,
          wheel_diff = in_wheel new_state - in_wheel old_state,
          ch_wheel = in_wheel new_state,
          ch_knobs = enc_changes (in_knobs new_state) (in_knobs old_state) 4,
          ch_faders = enc_changes (in_faders new_state) (in_faders old_state) 4\<rparr>)"

definition no_change :: f1_input_change where
  "no_change = \<lparr>pressed_buttons = \<lparr>bd_matrix = [], bd_stop = [], bd_special = []\<rparr>,
     released_buttons = \<lparr>bd_matrix = [], bd_stop = [], bd_special = []\<rparr>,
     wheel_diff = 0, ch_wheel = 0, ch_knobs = [], ch_faders = []\<rparr>"

section \<open>The device\<close>

record f1_hid_dev =
  hd_fd :: int
  hd_input :: f1_inpu_state

definition hid_dev_new :: "int \<Rightarrow> f1_hid_dev" where
  "hid_dev_new n = \<lparr>hd_fd = n, hd_input = idle_input\<rparr>"

definition read_cached :: "f1_hid_dev \<Rightarrow> f1_inpu_state" where
  "read_cached dev = hd_input dev"

lemmas hid_dev_simps [simp] = hid_dev_new_def read_cached_def

definition INPUT_BUF_SIZE :: nat where "INPUT_BUF_SIZE = 22"

text \<open>\<open>(1 << n) & raw_input[pos]\<close>, converted to \<open>bool\<close>.  Subscripts are unchecked.\<close>

definition raw_bit :: "byte list \<Rightarrow> nat \<Rightarrow> nat \<Rightarrow> bool res" where
  "raw_bit raw pos n = bind_res (sub_res raw pos) (\<lambda>b. Inr ((push_bit n (1 :: 32 word) AND ucast b) \<noteq> 0))"

definition raw_knob :: "byte list \<Rightarrow> nat \<Rightarrow> u16 res" where
  "raw_knob raw i =
     bind_res (sub_res raw (6 + i * 2)) (\<lambda>lo.
     bind_res (sub_res raw (7 + i * 2)) (\<lambda>hi.
       Inr (ucast ((ucast lo :: 32 word) OR push_bit 8 (ucast hi)))))"

definition raw_fader :: "byte list \<Rightarrow> nat \<Rightarrow> u16 res" where
  "raw_fader raw i =
     bind_res (sub_res raw (14 + i * 2)) (\<lambda>lo.
     bind_res (sub_res raw (15 + i * 2)) (\<lambda>hi.
       Inr (ucast ((ucast lo :: 32 word) OR push_bit 8 (ucast (hi AND 0xff))))))"

definition decode_input :: "byte list \<Rightarrow> f1_inpu_state \<Rightarrow> f1_inpu_state res" where
  "decode_input raw s =
     bind_res (sub_res raw 0) (\<lambda>rid.
     bind_res (fold_res (\<lambda>i xs. bind_res (raw_bit raw 1 (7 - i)) (set_sub_res xs i)) [0..<8] (in_matrix s)) (\<lambda>matrix1.
     bind_res (fold_res (\<lambda>i xs. bind_res (raw_bit raw 2 (7 - i)) (set_sub_res xs (i + 8))) [0..<8] matrix1) (\<lambda>matrix.
     bind_res (fold_res (\<lambda>i xs. bind_res (raw_bit raw 3 i) (set_sub_res xs (i - 2))) [2..<8] (in_special s)) (\<lambda>special1.
     bind_res (fold_res (\<lambda>i xs. bind_res (raw_bit raw 4 i) (set_sub_res xs (i + 5))) [1..<4] special1) (\<lambda>special.
     bind_res (fold_res (\<lambda>i xs. bind_res (raw_bit raw 4 (4 + (3 - i))) (set_sub_res xs i)) [0..<4] (in_stop s)) (\<lambda>stop.
     bind_res (sub_res raw 5) (\<lambda>wheel.
     bind_res (fold_res (\<lambda>i xs. bind_res (raw_knob raw i) (set_sub_res xs i)) [0..<4] (in_knobs s)) (\<lambda>knobs.
     bind_res (fold_res (\<lambda>i xs. bind_res (raw_fader raw i) (set_sub_res xs i)) [0..<4] (in_faders s)) (\<lambda>faders.
       Inr (s\<lparr>in_report_id := rid, in_matrix := matrix, in_special := special,
              in_stop := stop, in_wheel := wheel, in_knobs := knobs, in_faders := faders\<rparr>))))))))))"

text \<open>
  \<open>raw_input\<close> is an uninitialised array on the stack, here the argument \<open>stack\<close>; a short read
  leaves its end as it was.  The report id is stored, not checked.
\<close>

definition osc_read ::
    "'w posix \<Rightarrow> 'w \<Rightarrow> byte list \<Rightarrow> f1_hid_dev \<Rightarrow> 'w \<times> f1_hid_dev \<times> f1_inpu_state res" where
  "osc_read os w stack dev = (case sys_read os w (hd_fd dev) (length stack) of (w', n, got) \<Rightarrow>
     if n < 0 then (w', dev, Inl Hid_error)
     else (case decode_input (got @ drop (length got) stack) (hd_input dev) of
         Inl e \<Rightarrow> (w', dev, Inl e)
       | Inr s \<Rightarrow> (let dev' = dev\<lparr>hd_input := s\<rparr> in (w', dev', Inr (read_cached dev')))))"

record hid_output =
  ho_matrix :: "byte list list"
  ho_stop :: "byte list"

definition osc_rgb2color :: "byte \<Rightarrow> byte \<Rightarrow> byte \<Rightarrow> byte list" where
  "osc_rgb2color r g b = [b, r, g]"

definition encode_output :: "hid_output \<Rightarrow> byte list res" where
  "encode_output out =
     bind_res (set_at_res (replicate 81 0) 0 0x80) (\<lambda>data.
     bind_res (fold_res (\<lambda>i xs. set_at_res xs i 0) [1..<81] data) (\<lambda>data.
     bind_res (fold_res (\<lambda>i. fold_res (\<lambda>j xs. bind_res (at_res (ho_matrix out) i) (\<lambda>color.
         bind_res (at_res color j) (set_at_res xs (i * 3 + j + 0x19)))) [0..<3]) [0..<16] data) (\<lambda>data.
     fold_res (\<lambda>i xs. bind_res (at_res (ho_stop out) (3 - i)) (\<lambda>b.
         bind_res (set_at_res xs (i * 2 + 0x49) b) (\<lambda>ys. set_at_res ys (i * 2 + 0x4a) b))) [0..<4] data)))"

definition osc_write :: "'w posix \<Rightarrow> 'w \<Rightarrow> f1_hid_dev \<Rightarrow> hid_output \<Rightarrow> 'w \<times> unit res" where
  "osc_write os w dev out = (case encode_output out of
     Inl e \<Rightarrow> (w, Inl e)
   | Inr data \<Rightarrow> (case sys_write os w (hd_fd dev) data of (w', n) \<Rightarrow>
       if n \<noteq> int (length data) then (w', Inl Hid_error) else (w', Inr ())))"

section \<open>Decoding and encoding as in the other driver\<close>

lemma raw_bit_report: "pos < length raw \<Longrightarrow> raw_bit raw pos n = report_bit raw pos n"
  by (simp add: raw_bit_def report_bit_def)

lemma raw_fader_eq: "15 + i * 2 < length raw \<Longrightarrow> raw_fader raw i = Inr (le16 (raw ! (14 + 2 * i)) (raw ! (15 + 2 * i)))"
  unfolding raw_fader_def by (simp only: sub_res_ok bind_res_simps le16_fader mult.commute [of i])

lemma raw_knob_eq:
  assumes "7 + i * 2 < length raw"
  shows "raw_knob raw i = Inr (le16 (raw ! (6 + 2 * i)) (raw ! (7 + 2 * i)))"
proof -
  have "hi AND 0xff = (hi :: byte)" for hi by (rule all_byte [where b = hi]) code_simp
  then have "(ucast ((ucast (lo :: byte) :: 32 word) OR push_bit 8 (ucast (hi :: byte))) :: u16) = le16 lo hi" for lo hi
    using le16_fader [of lo hi] by simp
  then show ?thesis
    using assms unfolding raw_knob_def by (simp only: sub_res_ok bind_res_simps mult.commute [of i])
qed

lemma decode_positions:
  assumes "\<And>i. i < 4 \<Longrightarrow> f i = Inr (g i)" "length m = 4"
  shows "fold_res (\<lambda>i xs. bind_res (f i) (set_sub_res xs i)) [0..<4] m = Inr (map g [0..<4])"
proof -
  have "fold_res (\<lambda>i xs. bind_res (f i) (set_sub_res xs i)) [0..<4] m =
      fold_res (\<lambda>i xs. bind_res (f i) (set_at_res xs i)) [0..<4] m"
    by (subst fold_res_set_sub [where g = g], (use assms in simp)+)
       (subst fold_res_set_at [where g = g], (use assms in simp)+)
  then show ?thesis using decode_encoders [OF assms] by simp
qed

lemma bind_res_Inr: "bind_res m Inr = m"
  by (cases m) simp_all

lemma fold_res_singleton: "fold_res f [x] = f x"
proof
  have "fold_res f [] = Inr" by (rule ext) simp
  then show "fold_res f [x] s = f x s" for s by (simp add: bind_res_Inr)
qed

lemma decode_rows:
  assumes "length r = 22" "length m = 16"
  shows "bind_res (fold_res (\<lambda>j xs. bind_res (report_bit r 1 (7 - j)) (set_sub_res xs j)) [0..<8] m)
      (fold_res (\<lambda>j xs. bind_res (report_bit r 2 (7 - j)) (set_sub_res xs (j + 8))) [0..<8]) =
    Inr (map (\<lambda>k. bit (r ! (1 + k div 8)) (7 - k mod 8)) [0..<16])"
proof -
  have "[0..<2] = [0, 1 :: nat]" by (simp add: numeral_2_eq_2)
  then show ?thesis using decode_matrix [OF assms]
    by (simp add: fold_res_singleton one_add_one [symmetric] del: one_add_one)
qed

lemma bind_res_assoc: "bind_res (bind_res m f) g = bind_res m (\<lambda>x. bind_res (f x) g)"
  by (cases m) simp_all

lemma decode_input_eq:
  assumes "length raw = 22" "wf_input s"
  shows "decode_input raw s = Inr (decoded raw)"
proof -
  have knobs: "fold_res (\<lambda>i xs. bind_res (raw_knob raw i) (set_sub_res xs i)) [0..<4] (in_knobs s) =
      Inr (in_knobs (decoded raw))"
    unfolding decoded_def input_state.simps
    by (rule decode_positions) (use assms in \<open>auto simp: raw_knob_eq wf_input_def\<close>)
  have faders: "fold_res (\<lambda>i xs. bind_res (raw_fader raw i) (set_sub_res xs i)) [0..<4] (in_faders s) =
      Inr (in_faders (decoded raw))"
    unfolding decoded_def input_state.simps
    by (rule decode_positions) (use assms in \<open>auto simp: raw_fader_eq wf_input_def\<close>)
  have matrix: "bind_res (fold_res (\<lambda>j xs. bind_res (report_bit raw 1 (7 - j)) (set_sub_res xs j)) [0..<8] (in_matrix s)) (\<lambda>x.
      bind_res (fold_res (\<lambda>j xs. bind_res (report_bit raw 2 (7 - j)) (set_sub_res xs (j + 8))) [0..<8] x) g) =
      g (in_matrix (decoded raw))" for g :: "bool list \<Rightarrow> input_state res"
    using decode_rows [of raw "in_matrix s"] assms
    by (simp add: wf_input_def decoded_def bind_res_assoc [symmetric])
  have raw: "raw_bit raw 1 n = report_bit raw 1 n" "raw_bit raw 2 n = report_bit raw 2 n"
    "raw_bit raw 3 n = report_bit raw 3 n" "raw_bit raw 4 n = report_bit raw 4 n" for n
    using assms(1) by (simp_all add: raw_bit_report)
  have sub: "sub_res raw 0 = Inr (raw ! 0)" "sub_res raw 5 = Inr (raw ! 5)" using assms(1) by simp_all
  have wf: "length (in_special s) = 9" "length (in_stop s) = 4" "length (take 6 (in_special s)) = 6"
    using assms(2) by (simp_all add: wf_input_def)
  show ?thesis unfolding decode_input_def raw sub bind_res_simps matrix
    by (simp only: decode_special1 decode_special2 decode_stop knobs faders wf assms bind_res_simps)
       (simp add: decoded_def decode_special2 [simplified] assms wf)
qed

definition wf_hid_output :: "hid_output \<Rightarrow> bool" where
  "wf_hid_output out \<longleftrightarrow> length (ho_matrix out) = 16 \<and> list_all (\<lambda>c. length c = 3) (ho_matrix out) \<and> length (ho_stop out) = 4"

text \<open>The output state of \<open>driver\<close> with the same lights, everything else dark.\<close>

definition output_of :: "hid_output \<Rightarrow> output_state" where
  "output_of out = default_output\<lparr>os_matrix := map (\<lambda>c. (c ! 0, c ! 1, c ! 2)) (ho_matrix out), os_stop := ho_stop out\<rparr>"

lemma wf_output_of [simp]: "wf_hid_output out \<Longrightarrow> wf_output (output_of out)"
  by (simp add: wf_hid_output_def output_of_def wf_output_def default_output_def)

definition output_writes :: "output_state \<Rightarrow> (nat \<times> byte) list" where
  "output_writes st = concat (map (matrix_writes st) [0..<16]) @ concat (map (stop_writes st) [0..<4])"

lemma output_writes_cover:
  assumes "25 \<le> k" "k < 81"
  shows "k \<in> fst ` set (output_writes st)"
proof -
  have "map fst (output_writes st) = concat (map (\<lambda>i. [i * 3 + 25, i * 3 + 26, i * 3 + 27]) [0..<16]) @
     concat (map (\<lambda>i. [i * 2 + 73, i * 2 + 74]) [0..<4])"
    by (simp add: output_writes_def stop_writes_def map_concat comp_def map_fst_matrix_writes)
  then have "fst ` set (output_writes st) = (\<Union>i<16. {i * 3 + 25, i * 3 + 26, i * 3 + 27}) \<union> (\<Union>i<4. {i * 2 + 73, i * 2 + 74})"
    by (simp only: list.set_map [symmetric]) (auto simp: lessThan_atLeast0)
  moreover have "k \<in> (\<Union>i<16. {i * 3 + 25, i * 3 + 26, i * 3 + 27}) \<union> (\<Union>i<4. {i * 2 + 73, i * 2 + 74})"
    using assms by (simp add: Bex_def) presburger
  ultimately show ?thesis by simp
qed

lemma encode_output_row:
  assumes "i < 16" "length xs = 81" "wf_hid_output out"
  shows "fold_res (\<lambda>j xs. bind_res (at_res (ho_matrix out) i) (\<lambda>color.
         bind_res (at_res color j) (set_at_res xs (i * 3 + j + 0x19)))) [0..<3] xs =
    (if True then Inr (upds (matrix_writes (output_of out) i) xs) else Inl Assert_failed)"
proof -
  have "length (ho_matrix out ! i) = 3" using assms by (simp add: wf_hid_output_def list_all_length)
  moreover have "[0..<3] = [0, 1, 2 :: nat]" by (simp add: numeral_eq_Suc)
  ultimately show ?thesis
    using assms by (simp add: wf_hid_output_def matrix_writes_def output_of_def add.commute add.left_commute)
qed

lemma encode_output_stop:
  assumes "i < 4" "length xs = 81" "wf_hid_output out"
  shows "bind_res (at_res (ho_stop out) (3 - i)) (\<lambda>b.
         bind_res (set_at_res xs (i * 2 + 0x49) b) (\<lambda>ys. set_at_res ys (i * 2 + 0x4a) b)) =
    (if True then Inr (upds (stop_writes (output_of out) i) xs) else Inl Assert_failed)"
  using assms by (simp add: wf_hid_output_def stop_writes_def output_of_def)

lemma layout_dark:
  assumes "wf_hid_output out"
  shows "take 25 (report_layout (output_of out)) = 0x80 # replicate 24 0"
proof -
  have "map (\<lambda>i. 0) [1..<8] = replicate 7 (0 :: byte)" by (simp add: map_replicate_const)
  then show ?thesis
    by (simp add: report_layout_def output_of_def default_output_def SEG_NONE_def DARK_def OUTPUT_REPORT_ID_def numeral_eq_Suc)
qed

lemma encode_output_eq:
  assumes "wf_hid_output out"
  shows "encode_output out = Inr (report_layout (output_of out))"
proof -
  let ?d = "0x80 # replicate 80 (0 :: byte)" and ?st = "output_of out" and ?L = "report_layout (output_of out)"
  have start: "bind_res (set_at_res (replicate 81 0) 0 0x80) (fold_res (\<lambda>i xs. set_at_res xs i 0) [1..<81]) = Inr ?d"
    by code_simp
  have matrix: "fold_res (\<lambda>i. fold_res (\<lambda>j xs. bind_res (at_res (ho_matrix out) i) (\<lambda>color.
         bind_res (at_res color j) (set_at_res xs (i * 3 + j + 0x19)))) [0..<3]) [0..<16] ?d =
      (if \<forall>i \<in> set [0..<16]. True then Inr (upds (concat (map (matrix_writes ?st) [0..<16])) ?d) else Inl Assert_failed)"
    by (rule fold_res_upds) (use assms encode_output_row in \<open>auto simp del: upt.simps\<close>)
  have stop: "fold_res (\<lambda>i xs. bind_res (at_res (ho_stop out) (3 - i)) (\<lambda>b.
         bind_res (set_at_res xs (i * 2 + 0x49) b) (\<lambda>ys. set_at_res ys (i * 2 + 0x4a) b))) [0..<4] xs =
      (if \<forall>i \<in> set [0..<4]. True then Inr (upds (concat (map (stop_writes ?st) [0..<4])) xs) else Inl Assert_failed)"
    if "length xs = 81" for xs
    by (rule fold_res_upds) (use assms encode_output_stop that in \<open>auto simp del: upt.simps\<close>)
  have "encode_output out = Inr (upds (output_writes ?st) ?d)"
    using start matrix stop by (simp add: encode_output_def output_writes_def bind_res_assoc [symmetric])
  also have "upds (output_writes ?st) ?d = ?L"
  proof (rule nth_equalityI)
    fix k assume "k < length (upds (output_writes ?st) ?d)"
    then have k: "k < 81" by simp
    have w: "\<forall>(k, v) \<in> set (output_writes ?st). k < length ?d \<and> ?L ! k = v"
    proof -
      have "set (output_writes ?st) \<subseteq> set (report_writes ?st)" by (simp add: report_writes_def output_writes_def) blast
      then show ?thesis using report_writes_agree [OF wf_output_of [OF assms]] by (simp add: subset_iff split: prod.splits) blast
    qed
    show "upds (output_writes ?st) ?d ! k = ?L ! k"
    proof (cases "k < 25")
      case True
      then have "?L ! k = (0x80 # replicate 24 0) ! k" using layout_dark [OF assms] by (metis nth_take)
      with True k upds_nth [OF w, of k] show ?thesis by (auto simp: nth_Cons' )
    next
      case False
      then have "k \<in> fst ` set (output_writes ?st)" using k output_writes_cover by simp
      with upds_nth [OF w, of k] k show ?thesis by simp
    qed
  qed (simp add: assms)
  finally show ?thesis .
qed

section \<open>What a change holds\<close>

lemma btn_changes_eq:
  "btn_changes new old n = (map of_nat (filter (\<lambda>i. \<not> old ! i \<and> new ! i) [0..<n]),
     map of_nat (filter (\<lambda>i. old ! i \<and> \<not> new ! i) [0..<n]))"
proof -
  have "fold (\<lambda>i (pressed, released).
       if \<not> old ! i \<and> new ! i then (pressed @ [of_nat i], released)
       else if old ! i \<and> \<not> new ! i then (pressed, released @ [of_nat i])
       else (pressed, released)) ks (p, r) =
     (p @ map of_nat (filter (\<lambda>i. \<not> old ! i \<and> new ! i) ks), r @ map of_nat (filter (\<lambda>i. old ! i \<and> \<not> new ! i) ks))" for ks and p r :: "byte list"
    by (induction ks arbitrary: p r) auto
  then show ?thesis by (simp add: btn_changes_def)
qed

lemma enc_changes_eq:
  "enc_changes new old n = map (\<lambda>i. (of_nat i, new ! i)) (filter (\<lambda>i. new ! i \<noteq> old ! i) [0..<n])"
proof -
  have "fold (\<lambda>i xs. if new ! i \<noteq> old ! i then xs @ [(of_nat i, new ! i)] else xs) ks acc =
      acc @ map (\<lambda>i. (of_nat i, new ! i)) (filter (\<lambda>i. new ! i \<noteq> old ! i) ks)" for ks and acc :: "(byte \<times> u16) list"
    by (induction ks arbitrary: acc) auto
  then show ?thesis by (simp add: enc_changes_def)
qed

text \<open>A consumer that follows the input only through its changes.\<close>

definition apply_btns :: "byte list \<Rightarrow> byte list \<Rightarrow> bool list \<Rightarrow> bool list" where
  "apply_btns pressed released xs =
     fold (\<lambda>b xs. xs[unat b := False]) released (fold (\<lambda>b xs. xs[unat b := True]) pressed xs)"

definition apply_encs :: "(byte \<times> u16) list \<Rightarrow> u16 list \<Rightarrow> u16 list" where
  "apply_encs changes xs = fold (\<lambda>(i, v) xs. xs[unat i := v]) changes xs"

definition apply_change :: "f1_input_change \<Rightarrow> f1_inpu_state \<Rightarrow> f1_inpu_state" where
  "apply_change c s = s\<lparr>
     in_matrix := apply_btns (bd_matrix (pressed_buttons c)) (bd_matrix (released_buttons c)) (in_matrix s),
     in_special := apply_btns (bd_special (pressed_buttons c)) (bd_special (released_buttons c)) (in_special s),
     in_stop := apply_btns (bd_stop (pressed_buttons c)) (bd_stop (released_buttons c)) (in_stop s),
     in_wheel := in_wheel s + wheel_diff c,
     in_knobs := apply_encs (ch_knobs c) (in_knobs s),
     in_faders := apply_encs (ch_faders c) (in_faders s)\<rparr>"

lemma fold_of_nat_update:
  assumes "\<forall>i \<in> set ks. i < 256"
  shows "fold (\<lambda>b xs. xs[unat (b :: byte) := v]) (map of_nat ks) xs = fold (\<lambda>i xs. xs[i := v]) ks xs"
  using assms by (induction ks arbitrary: xs) (auto simp: unat_of_nat)

lemma nth_fold_const:
  "k < length xs \<Longrightarrow> fold (\<lambda>i xs. xs[i := v]) ks xs ! k = (if k \<in> set ks then v else xs ! k)"
  by (induction ks arbitrary: xs) (auto simp: nth_list_update)

lemma length_fold_const: "length (fold (\<lambda>i xs. xs[i := v]) ks xs) = length xs"
  by (induction ks arbitrary: xs) auto

lemma apply_btns_changes:
  assumes "length new = n" "length old = n" "n \<le> 256"
  shows "apply_btns (fst (btn_changes new old n)) (snd (btn_changes new old n)) old = new"
proof -
  have a: "apply_btns (fst (btn_changes new old n)) (snd (btn_changes new old n)) old =
      fold (\<lambda>i xs. xs[i := False]) (filter (\<lambda>i. old ! i \<and> \<not> new ! i) [0..<n])
        (fold (\<lambda>i xs. xs[i := True]) (filter (\<lambda>i. \<not> old ! i \<and> new ! i) [0..<n]) old)"
    using assms(3) unfolding apply_btns_def btn_changes_eq fst_conv snd_conv
    by (subst fold_of_nat_update, force)+ (rule refl)
  show ?thesis unfolding a
    by (rule nth_equalityI) (use assms in \<open>auto simp: nth_fold_const length_fold_const\<close>)
qed

lemma apply_encs_changes:
  assumes "length new = n" "length old = n" "n \<le> 256"
  shows "apply_encs (enc_changes new old n) old = new"
proof -
  have f: "fold (\<lambda>(i, v) xs. xs[unat (i :: byte) := v]) (map (\<lambda>i. (of_nat i, new ! i)) ks) xs =
      fold (\<lambda>i xs. xs[i := new ! i]) ks xs" if "\<forall>i \<in> set ks. i < 256" for ks xs
    using that by (induction ks arbitrary: xs) (auto simp: unat_of_nat)
  let ?ks = "filter (\<lambda>i. new ! i \<noteq> old ! i) [0..<n]"
  have "apply_encs (enc_changes new old n) old = fold (\<lambda>i xs. xs[i := new ! i]) ?ks old"
    unfolding apply_encs_def enc_changes_eq by (rule f) (use assms(3) in auto)
  also have "\<dots> = new"
  proof (rule nth_equalityI)
    fix k assume "k < length (fold (\<lambda>i xs. xs[i := new ! i]) ?ks old)"
    then have k: "k < n" using assms(2) by simp
    show "fold (\<lambda>i xs. xs[i := new ! i]) ?ks old ! k = new ! k"
    proof (cases "k \<in> set ?ks")
      case True
      from nth_fold_update_hit [OF True, of "\<lambda>i. i" old "\<lambda>i. new ! i"] k assms(2) show ?thesis by simp
    next
      case False
      with nth_fold_update_other [of k "\<lambda>i. i" ?ks] k show ?thesis by auto
    qed
  qed (use assms in simp)
  finally show ?thesis .
qed

lemma of_nat_byte_less: "i < n \<Longrightarrow> unat (of_nat i :: byte) < n"
  using order_le_less_trans [of "unat (of_nat i :: byte)" i n] by (simp add: unat_of_nat)

definition change_ok :: "f1_input_change \<Rightarrow> bool" where
  "change_ok c \<longleftrightarrow>
     list_all (\<lambda>b. unat b < 16) (bd_matrix (pressed_buttons c) @ bd_matrix (released_buttons c)) \<and>
     list_all (\<lambda>b. unat b < 9) (bd_special (pressed_buttons c) @ bd_special (released_buttons c)) \<and>
     list_all (\<lambda>b. unat b < 4) (bd_stop (pressed_buttons c) @ bd_stop (released_buttons c)) \<and>
     list_all (\<lambda>(i, v). unat i < 4) (ch_knobs c @ ch_faders c)"

lemma change_ok_state_minus: "change_ok (state_minus new old)"
  by (auto simp: change_ok_def state_minus_def Let_def btn_changes_eq enc_changes_eq list_all_iff of_nat_byte_less)

section \<open>Properties\<close>

text \<open>C28: The difference of two input states carries the whole change: applied to the old state it gives
  the new one in every button, knob, fader and the wheel, also across the wrap-around of the wheel,
  and every index in it is that of a control.\<close>

theorem state_minus_replay:
  assumes "wf_input new_state" "wf_input old_state"
  shows "apply_change (state_minus new_state old_state) old_state =
      new_state\<lparr>in_report_id := in_report_id old_state\<rparr> \<and>
    change_ok (state_minus new_state old_state)"
  using assms change_ok_state_minus
  by (simp add: apply_change_def state_minus_def Let_def wf_input_def apply_btns_changes apply_encs_changes)

lemma state_minus_replay_witness:
  "apply_change (state_minus (decoded sample_report) idle_input) idle_input =
     (decoded sample_report)\<lparr>in_report_id := in_report_id idle_input\<rparr>"
proof -
  have "wf_input idle_input" by (simp add: wf_input_def idle_input_def)
  from state_minus_replay [OF wf_decoded this] show ?thesis by (rule conjunct1)
qed

text \<open>C29: The two drivers agree on the device: on a full input report \<open>F1HidDev::read\<close> decodes what
  \<open>F1Device::read\<close> decodes, and \<open>F1HidDev::write\<close> sends the report that \<open>F1Device::write\<close> sends for
  the same matrix and stop lights with everything else dark, but without checking that the values
  have seven bits.\<close>

theorem osc_device_agrees:
  assumes "length raw = 22" "wf_input s" "wf_hid_output out" "length report = 81"
  shows "decode_input raw s = decode_report raw s \<and>
    encode_output out = Inr (report_layout (output_of out)) \<and>
    encode_report (output_of out) report =
      (if dim_output (output_of out) then encode_output out else Inl Assert_failed)"
  using assms by (simp add: decode_input_eq decode_report_eq encode_output_eq encode_report_eq)

definition sample_hid_output :: hid_output where
  "sample_hid_output = \<lparr>ho_matrix = replicate 16 (osc_rgb2color 1 2 3), ho_stop = [0xff, 0, 0, 0]\<rparr>"

lemma osc_device_agrees_witness:
  "encode_output sample_hid_output = Inr (report_layout (output_of sample_hid_output)) \<and>
   encode_report (output_of sample_hid_output) (replicate 81 0) = Inl Assert_failed"
proof -
  have "wf_hid_output sample_hid_output" "\<not> dim_output (output_of sample_hid_output)" by code_simp+
  with osc_device_agrees [of sample_report idle_input sample_hid_output "replicate 81 0"]
  show ?thesis by (simp add: sample_report_def wf_input_def idle_input_def)
qed

end
