(* ===== verification/Jack_Client.thy ===== *)
theory Jack_Client
  imports Osc_Input Jack_Wrapper
begin

text \<open>
  \<open>JackClient\<close> of \<open>driver-osc\<close> (\<open>JackClient.hpp\<close>, \<open>.cpp\<close>): the connection to JACK with one
  output port, the translation of input changes into MIDI messages, and the process callback that
  sends them.  libjack is a parameter: \<open>jc_api\<close> collects the client calls with the results this
  class looks at, the ring and the port buffer are those of \<open>Jack_Ring\<close> and \<open>Jack_Wrapper\<close>.
\<close>

section \<open>State\<close>

text \<open>Handles are numbers; \<open>c_port_unregister\<close> gets the client pointer, which may be null.\<close>

record 'j jc_api =
  c_open :: "'j \<Rightarrow> string \<Rightarrow> 'j \<times> nat option"
  c_set_process_callback :: "'j \<Rightarrow> nat \<Rightarrow> 'j \<times> int"
  c_port_register :: "'j \<Rightarrow> nat \<Rightarrow> string \<Rightarrow> 'j \<times> nat option"
  c_activate :: "'j \<Rightarrow> nat \<Rightarrow> 'j \<times> int"
  c_deactivate :: "'j \<Rightarrow> nat \<Rightarrow> 'j \<times> int"
  c_close :: "'j \<Rightarrow> nat \<Rightarrow> 'j \<times> int"
  c_port_unregister :: "'j \<Rightarrow> nat option \<Rightarrow> nat \<Rightarrow> 'j \<times> int"

record 'rb jack_client =
  jc_name :: string
  jc_client :: "nat option"
  jc_port :: "nat option"
  jc_buf :: "'rb option"
  jc_channel :: byte
  jc_created :: nat
  jc_sent :: nat

definition JC_INPUT_BUF_SIZE :: nat where "JC_INPUT_BUF_SIZE = 256"
definition OUT_PORT_NAME :: string where "OUT_PORT_NAME = ''out''"
definition MIDI_NOTE_OFF :: byte where "MIDI_NOTE_OFF = 0x80"
definition MIDI_NOTE_ON :: byte where "MIDI_NOTE_ON = 0x90"
definition MIDI_NOTE_OFF_VEL :: byte where "MIDI_NOTE_OFF_VEL = 0x00"
definition MIDI_NOTE_ON_VEL :: byte where "MIDI_NOTE_ON_VEL = 0x7f"
definition MIDI_CONTROL_CHANGE :: byte where "MIDI_CONTROL_CHANGE = 0xB0"
definition MIDI_CC_OFF :: byte where "MIDI_CC_OFF = 0x00"
definition MIDI_CC_ON :: byte where "MIDI_CC_ON = 0x7f"
definition CTL_SPECIAL :: "byte list" where
  "CTL_SPECIAL = [0x66, 0x67, 0x68, 0x69, 0x6a, 0x6b, 0x6c, 0x6d, 0x6e]"
definition CTL_STOP :: "byte list" where "CTL_STOP = [0x70, 0x71, 0x72, 0x73]"
definition MATRIX_BASE :: byte where "MATRIX_BASE = 48"

lemmas midi_constants = MIDI_NOTE_OFF_def MIDI_NOTE_ON_def MIDI_NOTE_OFF_VEL_def MIDI_NOTE_ON_VEL_def
  MIDI_CONTROL_CHANGE_def MIDI_CC_OFF_def MIDI_CC_ON_def CTL_SPECIAL_def CTL_STOP_def MATRIX_BASE_def

definition jc_new :: "'rb jack_rb \<Rightarrow> string \<Rightarrow> 'rb jack_client" where
  "jc_new ops name = \<lparr>jc_name = name, jc_client = None, jc_port = None,
     jc_buf = rb_create ops JC_INPUT_BUF_SIZE, jc_channel = 0, jc_created = 0, jc_sent = 0\<rparr>"

definition is_connected :: "'rb jack_client \<Rightarrow> bool" where
  "is_connected p \<longleftrightarrow> jc_client p \<noteq> None"

definition set_channel :: "'rb jack_client \<Rightarrow> byte \<Rightarrow> 'rb jack_client" where
  "set_channel p channel = p\<lparr>jc_channel := channel\<rparr>"

section \<open>The connection\<close>

text \<open>The deleter of \<open>out_port\<close>, on the port it held and the client of the moment.\<close>

definition port_deleter :: "'j jc_api \<Rightarrow> 'j \<Rightarrow> 'rb jack_client \<Rightarrow> nat option \<Rightarrow> 'j \<times> unit res" where
  "port_deleter api j p old = (case old of
     None \<Rightarrow> (j, Inr ())
   | Some port \<Rightarrow> (case c_port_unregister api j (jc_client p) port of (j1, res) \<Rightarrow> (j1, assert_res (res = 0))))"

definition jc_connect :: "'j jc_api \<Rightarrow> 'j \<Rightarrow> 'rb jack_client \<Rightarrow> 'j \<times> 'rb jack_client \<times> unit res" where
  "jc_connect api j p =
     (if is_connected p then (j, p, Inl Assert_failed)
      else (case c_open api j (jc_name p) of
        (j1, None) \<Rightarrow> (j1, p, Inl Jack_error)
      | (j1, Some c) \<Rightarrow>
          let p1 = p\<lparr>jc_client := Some c\<rparr> in
          (case c_set_process_callback api j1 c of (j2, res) \<Rightarrow>
           if res \<noteq> 0 then (j2, p1, Inl Jack_error)
           else (case c_port_register api j2 c OUT_PORT_NAME of
               (j3, None) \<Rightarrow> (j3, p1, Inl Jack_error)
             | (j3, Some port) \<Rightarrow>
                 let p2 = p1\<lparr>jc_port := Some port\<rparr> in
                 (case port_deleter api j3 p2 (jc_port p1) of
                    (j4, Inl e) \<Rightarrow> (j4, p2, Inl e)
                  | (j4, Inr _) \<Rightarrow> (case c_activate api j4 c of (j5, res) \<Rightarrow>
                      if res \<noteq> 0 then (j5, p2, Inl Jack_error) else (j5, p2, Inr ())))))))"

text \<open>
  \<open>reset(nullptr)\<close> stores the null pointer and calls the deleter, \<open>jack_client_close\<close>, on the
  client, which has been closed just before.
\<close>

definition jc_disconnect :: "'j jc_api \<Rightarrow> 'j \<Rightarrow> 'rb jack_client \<Rightarrow> 'j \<times> 'rb jack_client \<times> unit res" where
  "jc_disconnect api j p = (case jc_client p of
     None \<Rightarrow> (j, p, Inl Assert_failed)
   | Some c \<Rightarrow>
      (case c_deactivate api j c of (j1, res) \<Rightarrow>
       if res \<noteq> 0 then (j1, p, Inl Assert_failed)
       else (case c_close api j1 c of (j2, res) \<Rightarrow>
         if res \<noteq> 0 then (j2, p, Inl Assert_failed)
         else (fst (c_close api j2 c), p\<lparr>jc_client := None\<rparr>, Inr ()))))"

text \<open>The destructor: its body, then the members from the last declared to the first.\<close>

definition jc_destroy :: "'j jc_api \<Rightarrow> 'j \<Rightarrow> 'rb jack_client \<Rightarrow> 'j \<times> unit res" where
  "jc_destroy api j p =
     (case (if is_connected p then jc_disconnect api j p else (j, p, Inr ())) of
        (j1, p1, Inl e) \<Rightarrow> (j1, Inl e)
      | (j1, p1, Inr _) \<Rightarrow> (case port_deleter api j1 p1 (jc_port p1) of
          (j2, Inl e) \<Rightarrow> (j2, Inl e)
        | (j2, Inr _) \<Rightarrow> ((case jc_client p1 of None \<Rightarrow> j2 | Some c \<Rightarrow> fst (c_close api j2 c)), Inr ())))"

section \<open>Messages\<close>

definition write_midi :: "'rb jack_rb \<Rightarrow> byte \<Rightarrow> byte \<Rightarrow> byte \<Rightarrow> 'rb jack_client \<Rightarrow> 'rb jack_client res" where
  "write_midi ops status v1 v2 p = (case jc_buf p of
     None \<Rightarrow> Inl Undefined_behaviour
   | Some rb \<Rightarrow> (case rb_write ops rb [status, v1, v2] of (rb', bytes_written) \<Rightarrow>
       bind_res (assert_res (bytes_written = 3)) (\<lambda>_.
         Inr (p\<lparr>jc_buf := Some rb', jc_created := (jc_created p + 3) mod 2 ^ 64\<rparr>))))"

definition push_notes :: "'rb jack_rb \<Rightarrow> byte \<Rightarrow> byte \<Rightarrow> byte list \<Rightarrow> 'rb jack_client \<Rightarrow> 'rb jack_client res" where
  "push_notes ops note vel = fold_res (\<lambda>btn p. let key = MATRIX_BASE + btn in
     bind_res (assert_res (key AND 0x80 = 0)) (\<lambda>_. write_midi ops note key vel p))"

definition push_controls ::
    "'rb jack_rb \<Rightarrow> byte \<Rightarrow> byte list \<Rightarrow> byte \<Rightarrow> byte list \<Rightarrow> 'rb jack_client \<Rightarrow> 'rb jack_client res" where
  "push_controls ops cc controllers val = fold_res (\<lambda>btn p.
     bind_res (sub_res controllers (unat btn)) (\<lambda>cc_controller.
     bind_res (assert_res (cc_controller AND 0x80 = 0)) (\<lambda>_. write_midi ops cc cc_controller val p)))"

definition push_event :: "'rb jack_rb \<Rightarrow> f1_input_change \<Rightarrow> 'rb jack_client \<Rightarrow> 'rb jack_client res" where
  "push_event ops event p =
     (let note_on = MIDI_NOTE_ON OR jc_channel p; note_off = MIDI_NOTE_OFF OR jc_channel p;
          cc = MIDI_CONTROL_CHANGE OR jc_channel p in
      bind_res (assert_res (note_on AND 0x80 \<noteq> 0)) (\<lambda>_.
      bind_res (assert_res (MIDI_NOTE_ON_VEL AND 0x80 = 0)) (\<lambda>_.
      bind_res (push_notes ops note_on MIDI_NOTE_ON_VEL (bd_matrix (pressed_buttons event)) p) (\<lambda>p.
      bind_res (assert_res (note_off AND 0x80 \<noteq> 0)) (\<lambda>_.
      bind_res (assert_res (MIDI_NOTE_OFF_VEL AND 0x80 = 0)) (\<lambda>_.
      bind_res (push_notes ops note_off MIDI_NOTE_OFF_VEL (bd_matrix (released_buttons event)) p) (\<lambda>p.
      bind_res (assert_res (cc AND 0x80 \<noteq> 0)) (\<lambda>_.
      bind_res (assert_res (MIDI_CC_ON AND 0x80 = 0)) (\<lambda>_.
      bind_res (assert_res (MIDI_CC_OFF AND 0x80 = 0)) (\<lambda>_.
      bind_res (push_controls ops cc CTL_STOP MIDI_CC_ON (bd_stop (pressed_buttons event)) p) (\<lambda>p.
      bind_res (push_controls ops cc CTL_STOP MIDI_CC_OFF (bd_stop (released_buttons event)) p) (\<lambda>p.
      bind_res (push_controls ops cc CTL_SPECIAL MIDI_CC_ON (bd_special (pressed_buttons event)) p) (\<lambda>p.
      push_controls ops cc CTL_SPECIAL MIDI_CC_OFF (bd_special (released_buttons event)) p)))))))))))))"

section \<open>The process callback\<close>

definition bytes_in_input_buffer :: "'rb jack_rb \<Rightarrow> 'rb \<Rightarrow> nat" where
  "bytes_in_input_buffer ops rb = rb_read_space ops rb"

declare bytes_in_input_buffer_def [simp]

text \<open>The loop from \<open>i\<close> on: whether it got to its end, the ring and the port buffer.\<close>

function send_loop ::
    "'rb jack_rb \<Rightarrow> 'b jack_midi \<Rightarrow> nat \<Rightarrow> nat \<Rightarrow> 'rb \<Rightarrow> 'b \<Rightarrow> bool \<times> 'rb \<times> 'b" where
  "send_loop ops jm bytes_to_send i rb b =
     (if i < bytes_to_send then
        (case rb_read ops rb 3 of (rb1, midi_event) \<Rightarrow>
         if length midi_event \<noteq> 3 then (False, rb1, b)
         else (case jm_event_write jm b 0 midi_event of (b1, write_res) \<Rightarrow>
           if write_res \<noteq> 0 then (False, rb1, b1)
           else send_loop ops jm bytes_to_send (i + length midi_event) rb1 b1))
      else (True, rb, b))"
  by pat_completeness auto
termination
  by (relation "measure (\<lambda>(ops, jm, n, i, rb, b). n - i)") auto

declare send_loop.simps [simp del]

definition process_cb ::
    "'rb jack_rb \<Rightarrow> 'b jack_midi \<Rightarrow> 'rb jack_client \<Rightarrow> 'b \<Rightarrow> ('rb jack_client \<times> 'b \<times> int) res" where
  "process_cb ops jm p out_buf = (case jc_buf p of
     None \<Rightarrow> Inl Assert_failed
   | Some rb \<Rightarrow>
      let b = jm_clear jm out_buf; bytes_to_send = bytes_in_input_buffer ops rb in
      if bytes_to_send = 0 then Inr (p, b, 0)
      else (case send_loop ops jm bytes_to_send 0 rb b of
          (False, rb1, b1) \<Rightarrow> Inr (p\<lparr>jc_buf := Some rb1\<rparr>, b1, 2)
        | (True, rb1, b1) \<Rightarrow>
            Inr (p\<lparr>jc_buf := Some rb1, jc_sent := (jc_sent p + bytes_to_send) mod 2 ^ 64\<rparr>, b1, 0)))"

section \<open>The buffer as a queue of messages\<close>

text \<open>The messages of a change, in the order they are written.\<close>

definition change_messages :: "byte \<Rightarrow> f1_input_change \<Rightarrow> byte list list" where
  "change_messages channel c =
     map (\<lambda>b. [0x90 OR channel, 48 + b, 0x7f]) (bd_matrix (pressed_buttons c)) @
     map (\<lambda>b. [0x80 OR channel, 48 + b, 0]) (bd_matrix (released_buttons c)) @
     map (\<lambda>b. [0xb0 OR channel, 0x70 + b, 0x7f]) (bd_stop (pressed_buttons c)) @
     map (\<lambda>b. [0xb0 OR channel, 0x70 + b, 0]) (bd_stop (released_buttons c)) @
     map (\<lambda>b. [0xb0 OR channel, 0x66 + b, 0x7f]) (bd_special (pressed_buttons c)) @
     map (\<lambda>b. [0xb0 OR channel, 0x66 + b, 0]) (bd_special (released_buttons c))"

definition jc_holds ::
    "'rb jack_rb \<Rightarrow> ('rb \<Rightarrow> bool) \<Rightarrow> ('rb \<Rightarrow> byte list) \<Rightarrow> 'rb jack_client \<Rightarrow> byte list list \<Rightarrow> nat \<Rightarrow> bool" where
  "jc_holds ops rinv content p msgs room \<longleftrightarrow> (\<exists>rb. jc_buf p = Some rb \<and> rinv rb \<and>
     content rb = concat msgs \<and> list_all (\<lambda>m. length m = 3) msgs \<and> rb_write_space ops rb = room)"

definition write_all :: "'rb jack_rb \<Rightarrow> byte list list \<Rightarrow> 'rb jack_client \<Rightarrow> 'rb jack_client res" where
  "write_all ops = fold_res (\<lambda>m. write_midi ops (m ! 0) (m ! 1) (m ! 2))"

lemma write_all_append:
  "write_all ops (xs @ ys) p = bind_res (write_all ops xs p) (write_all ops ys)"
  by (simp add: write_all_def fold_res_append)

lemma write_midi_holds:
  assumes "jack_ring ops rinv content" "jc_holds ops rinv content p msgs room"
  shows "write_midi ops a b c p = Inl Assert_failed \<and> room < 3 \<or>
    (\<exists>p'. write_midi ops a b c p = Inr p' \<and> 3 \<le> room \<and> jc_holds ops rinv content p' (msgs @ [[a, b, c]]) (room - 3) \<and>
      p' = p\<lparr>jc_buf := jc_buf p', jc_created := (jc_created p + 3) mod 2 ^ 64\<rparr>)"
proof -
  obtain rb where rb: "jc_buf p = Some rb" "rinv rb" "content rb = concat msgs" "list_all (\<lambda>m. length m = 3) msgs"
      "rb_write_space ops rb = room"
    using assms(2) by (auto simp: jc_holds_def)
  obtain rb' n where w: "rb_write ops rb [a, b, c] = (rb', n)" by fastforce
  show ?thesis
  proof (cases "3 \<le> room")
    case True
    then have "rinv rb' \<and> n = 3 \<and> content rb' = content rb @ [a, b, c] \<and> rb_write_space ops rb' = room - 3"
      using jack_ring.write_fits [OF assms(1) rb(2) _ w] rb(5) by simp
    with True rb w show ?thesis by (auto simp: write_midi_def jc_holds_def)
  next
    case False
    then have "n \<noteq> 3" using jack_ring.write_law [OF assms(1) rb(2) w] rb(5) by simp
    with False rb(1) w show ?thesis by (simp add: write_midi_def)
  qed
qed

lemma write_all_holds:
  assumes "jack_ring ops rinv content" "jc_holds ops rinv content p msgs room" "list_all (\<lambda>m. length m = 3) new"
  shows "if 3 * length new \<le> room
    then \<exists>p'. write_all ops new p = Inr p' \<and> jc_holds ops rinv content p' (msgs @ new) (room - 3 * length new) \<and>
      jc_channel p' = jc_channel p \<and> jc_client p' = jc_client p \<and> jc_port p' = jc_port p
    else write_all ops new p = Inl Assert_failed"
  using assms(2, 3)
proof (induction new arbitrary: p msgs room)
  case Nil
  then show ?case by (simp add: write_all_def)
next
  case (Cons m new)
  then obtain a b c where m: "m = [a, b, c]" by (auto simp: length_Suc_conv numeral_3_eq_3)
  consider "write_midi ops a b c p = Inl Assert_failed" "room < 3"
    | p' where "write_midi ops a b c p = Inr p'" "3 \<le> room" "jc_holds ops rinv content p' (msgs @ [m]) (room - 3)"
        "p' = p\<lparr>jc_buf := jc_buf p', jc_created := (jc_created p + 3) mod 2 ^ 64\<rparr>"
    using write_midi_holds [OF assms(1) Cons.prems(1), of a b c] m by blast
  then show ?case
  proof cases
    case 1
    then show ?thesis by (simp add: write_all_def m)
  next
    case (2 p')
    have same: "jc_channel p' = jc_channel p" "jc_client p' = jc_client p" "jc_port p' = jc_port p"
      using 2(4) by (metis jack_client.ext_inject jack_client.surjective jack_client.update_convs(4,6))+
    have "3 * length new \<le> room - 3 \<longleftrightarrow> 3 * length (m # new) \<le> room" using 2(2) by auto
    with Cons.IH [OF 2(3)] Cons.prems(2) 2(1) same show ?thesis
      by (auto simp: write_all_def m diff_diff_eq split: if_splits)
  qed
qed

lemma note_bytes:
  "(MIDI_NOTE_ON OR ch) AND 0x80 \<noteq> 0" "(MIDI_NOTE_OFF OR ch) AND 0x80 \<noteq> 0"
  "(MIDI_CONTROL_CHANGE OR ch) AND 0x80 \<noteq> 0"
  by (rule all_byte [where b = ch]; code_simp)+

lemma matrix_key: "unat b < 16 \<Longrightarrow> (MATRIX_BASE + b) AND 0x80 = 0"
proof -
  have "unat b < 16 \<longrightarrow> (MATRIX_BASE + b) AND 0x80 = 0" by (rule all_byte [where b = b]) code_simp
  then show "unat b < 16 \<Longrightarrow> (MATRIX_BASE + b) AND 0x80 = 0" by blast
qed

lemma stop_controller: "unat b < 4 \<Longrightarrow> sub_res CTL_STOP (unat b) = Inr (0x70 + b) \<and> (0x70 + b) AND 0x80 = 0"
proof -
  have "unat b < 4 \<longrightarrow> sub_res CTL_STOP (unat b) = Inr (0x70 + b) \<and> (0x70 + b) AND 0x80 = 0"
    by (rule all_byte [where b = b]) code_simp
  then show "unat b < 4 \<Longrightarrow> sub_res CTL_STOP (unat b) = Inr (0x70 + b) \<and> (0x70 + b) AND 0x80 = 0" by blast
qed

lemma special_controller: "unat b < 9 \<Longrightarrow> sub_res CTL_SPECIAL (unat b) = Inr (0x66 + b) \<and> (0x66 + b) AND 0x80 = 0"
proof -
  have "unat b < 9 \<longrightarrow> sub_res CTL_SPECIAL (unat b) = Inr (0x66 + b) \<and> (0x66 + b) AND 0x80 = 0"
    by (rule all_byte [where b = b]) code_simp
  then show "unat b < 9 \<Longrightarrow> sub_res CTL_SPECIAL (unat b) = Inr (0x66 + b) \<and> (0x66 + b) AND 0x80 = 0" by blast
qed

lemma push_notes_eq:
  "list_all (\<lambda>b. unat b < 16) bs \<Longrightarrow> push_notes ops note vel bs = write_all ops (map (\<lambda>b. [note, 48 + b, vel]) bs)"
proof (induction bs)
  case (Cons b bs)
  show ?case
    by (rule ext) (use Cons in \<open>simp add: push_notes_def write_all_def Let_def matrix_key MATRIX_BASE_def [symmetric]\<close>)
qed (simp add: push_notes_def write_all_def fun_eq_iff)

lemma push_controls_eq:
  assumes "\<And>b. unat b < n \<Longrightarrow> sub_res ctls (unat b) = Inr (base + b) \<and> (base + b) AND 0x80 = 0"
  shows "list_all (\<lambda>b. unat b < n) bs \<Longrightarrow>
    push_controls ops cc ctls val bs = write_all ops (map (\<lambda>b. [cc, base + b, val]) bs)"
proof (induction bs)
  case (Cons b bs)
  show ?case by (rule ext) (use Cons assms in \<open>simp add: push_controls_def write_all_def\<close>)
qed (simp add: push_controls_def write_all_def fun_eq_iff)

lemma push_stop_eq:
  "list_all (\<lambda>b. unat b < 4) bs \<Longrightarrow> push_controls ops cc CTL_STOP val bs = write_all ops (map (\<lambda>b. [cc, 0x70 + b, val]) bs)"
  by (rule push_controls_eq [where n = 4]) (use stop_controller in auto)

lemma push_special_eq:
  "list_all (\<lambda>b. unat b < 9) bs \<Longrightarrow> push_controls ops cc CTL_SPECIAL val bs = write_all ops (map (\<lambda>b. [cc, 0x66 + b, val]) bs)"
  by (rule push_controls_eq [where n = 9]) (use special_controller in auto)

lemma push_event_eq:
  assumes "change_ok c"
  shows "push_event ops c p = write_all ops (change_messages (jc_channel p) c) p"
proof -
  have val: "MIDI_NOTE_ON_VEL AND 0x80 = 0" "MIDI_NOTE_OFF_VEL AND 0x80 = 0" "MIDI_CC_ON AND 0x80 = 0" "MIDI_CC_OFF AND 0x80 = 0"
    by code_simp+
  have ok: "list_all (\<lambda>b. unat b < 16) (bd_matrix (pressed_buttons c))" "list_all (\<lambda>b. unat b < 16) (bd_matrix (released_buttons c))"
    "list_all (\<lambda>b. unat b < 4) (bd_stop (pressed_buttons c))" "list_all (\<lambda>b. unat b < 4) (bd_stop (released_buttons c))"
    "list_all (\<lambda>b. unat b < 9) (bd_special (pressed_buttons c))" "list_all (\<lambda>b. unat b < 9) (bd_special (released_buttons c))"
    using assms by (simp_all add: change_ok_def)
  note groups = ok(1, 2) [THEN push_notes_eq] ok(3, 4) [THEN push_stop_eq] ok(5, 6) [THEN push_special_eq]
  show ?thesis
    unfolding push_event_def Let_def change_messages_def write_all_append
    by (simp add: note_bytes val groups bind_res_assoc) (simp add: midi_constants)
qed
definition port_write_messages :: "'b jack_midi \<Rightarrow> byte list list \<Rightarrow> 'b \<Rightarrow> 'b" where
  "port_write_messages jm msgs b = fold (\<lambda>m b. fst (jm_event_write jm b 0 m)) msgs b"

lemma send_loop_ok:
  assumes "jack_ring ops rinv content" "port_accepts jm"
  shows "rinv rb \<Longrightarrow> content rb = concat msgs \<Longrightarrow> list_all (\<lambda>m. length m = 3) msgs \<Longrightarrow>
    \<exists>rb'. send_loop ops jm (i + 3 * length msgs) i rb b = (True, rb', port_write_messages jm msgs b) \<and>
      rinv rb' \<and> content rb' = [] \<and> rb_write_space ops rb' = rb_write_space ops rb + 3 * length msgs"
proof (induction msgs arbitrary: i rb b)
  case Nil
  then show ?case by (simp add: send_loop.simps port_write_messages_def)
next
  case (Cons m msgs)
  obtain rb1 bs where r: "rb_read ops rb 3 = (rb1, bs)" by fastforce
  then have rb1: "bs = m" "rinv rb1" "content rb1 = concat msgs" "rb_write_space ops rb1 = rb_write_space ops rb + 3"
    using jack_ring.read_law [OF assms(1) Cons.prems(1) r] Cons.prems(2, 3) by auto
  obtain b1 res where w: "jm_event_write jm b 0 m = (b1, res)" by fastforce
  then have "res = 0" using assms(2) unfolding port_accepts_def by (metis snd_conv)
  with Cons.IH [OF rb1(2, 3), of "i + 3" b1] Cons.prems(3) r rb1 w show ?case
    by (subst send_loop.simps) (auto simp: port_write_messages_def add.assoc)
qed

lemma process_cb_ok:
  assumes "jack_ring ops rinv content" "port_accepts jm" "jc_holds ops rinv content p msgs room"
  shows "\<exists>p'. process_cb ops jm p b = Inr (p', port_write_messages jm msgs (jm_clear jm b), 0) \<and>
    jc_holds ops rinv content p' [] (room + 3 * length msgs)"
proof -
  obtain rb where rb: "jc_buf p = Some rb" "rinv rb" "content rb = concat msgs" "list_all (\<lambda>m. length m = 3) msgs"
      "rb_write_space ops rb = room"
    using assms(3) by (auto simp: jc_holds_def)
  have "length (concat ms) = 3 * length ms" if "list_all (\<lambda>m. length m = 3) ms" for ms :: "byte list list"
    using that by (induction ms) auto
  then have "rb_read_space ops rb = 3 * length msgs"
    using jack_ring.read_space_law [OF assms(1) rb(2)] rb(3, 4) by simp
  then show ?thesis
    using send_loop_ok [OF assms(1, 2) rb(2-4), of 0 "jm_clear jm b"] rb
    by (cases msgs) (auto simp: process_cb_def jc_holds_def port_write_messages_def)
qed

lemma push_event_holds:
  assumes "jack_ring ops rinv content" "jc_holds ops rinv content p msgs room" "change_ok c" "push_event ops c p = Inr p'"
  shows "jc_holds ops rinv content p' (msgs @ change_messages (jc_channel p) c) (room - 3 * length (change_messages (jc_channel p) c))"
proof -
  have "list_all (\<lambda>m. length m = 3) (change_messages (jc_channel p) c)" by (auto simp: change_messages_def list_all_iff)
  from write_all_holds [OF assms(1, 2) this] push_event_eq [OF assms(3), of ops p] assms(4)
  show ?thesis by (auto split: if_splits)
qed

section \<open>Properties\<close>

definition jc_sample :: "ring jack_client" where
  "jc_sample = \<lparr>jc_name = ''F1'', jc_client = Some 1, jc_port = Some 2,
     jc_buf = Some \<lparr>mem = replicate 16 0, rd = 0, wr = 0\<rparr>, jc_channel = 0, jc_created = 0, jc_sent = 0\<rparr>"

definition sample_change :: f1_input_change where
  "sample_change = no_change\<lparr>pressed_buttons := \<lparr>bd_matrix = [0, 15], bd_stop = [3], bd_special = []\<rparr>,
     released_buttons := \<lparr>bd_matrix = [7], bd_stop = [], bd_special = [8]\<rparr>, ch_knobs := [(0, 17)]\<rparr>"

lemma jc_sample_holds: "jc_holds ring_ops ring_ok ring_content jc_sample [] 15"
  by (simp add: jc_holds_def jc_sample_def ring_ok_def ring_content_def ring_read_space_def ring_write_space_def)



text \<open>Disconnecting closes the JACK client twice, the second time through the deleter of the
  pointer, and destroying a connected client then unregisters its port with a null client.\<close>

theorem disconnect_closes_twice:
  assumes "jc_client p = Some c"
    and "c_deactivate api j c = (j1, 0)" "c_close api j1 c = (j2, 0)" "c_close api j2 c = (j3, res)"
  shows "jc_disconnect api j p = (j3, p\<lparr>jc_client := None\<rparr>, Inr ()) \<and>
    jc_destroy api j p = (case jc_port p of None \<Rightarrow> (j3, Inr ())
      | Some port \<Rightarrow> (fst (c_port_unregister api j3 None port),
          if snd (c_port_unregister api j3 None port) = 0 then Inr () else Inl Assert_failed))"
  using assms
  by (auto simp: jc_disconnect_def jc_destroy_def is_connected_def port_deleter_def assert_res_def
      split: option.splits prod.splits)

datatype client_call = C_open | C_callback | C_register | C_activate | C_deactivate | C_close | C_unregister "nat option"

definition log_client :: "client_call list jc_api" where
  "log_client = \<lparr>c_open = (\<lambda>j _. (j @ [C_open], Some 1)), c_set_process_callback = (\<lambda>j _. (j @ [C_callback], 0)),
     c_port_register = (\<lambda>j _ _. (j @ [C_register], Some 2)), c_activate = (\<lambda>j _. (j @ [C_activate], 0)),
     c_deactivate = (\<lambda>j _. (j @ [C_deactivate], 0)), c_close = (\<lambda>j _. (j @ [C_close], 0)),
     c_port_unregister = (\<lambda>j c _. (j @ [C_unregister c], if c = None then -1 else 0))\<rparr>"

lemma disconnect_closes_twice_witness:
  "jc_destroy log_client [] jc_sample = ([C_deactivate, C_close, C_close, C_unregister None], Inl Assert_failed)"
  using disconnect_closes_twice [of jc_sample 1 log_client "[]" "[C_deactivate]" "[C_deactivate, C_close]"
      "[C_deactivate, C_close, C_close]" 0]
  by (simp add: jc_sample_def log_client_def)

end
