(* ===== verification/Client_Threads.thy ===== *)
theory Client_Threads
  imports Jack_Client
begin

text \<open>
  \<open>JackClient\<close> between its two threads: one calls \<open>write_midi\<close>, and JACK's calls the process
  callback, which here is cut at every access to the ring buffer they share.  Nothing but the ring
  synchronises them; the messages still arrive whole and in order.
\<close>

section \<open>Steps\<close>

text \<open>Where a process callback is: not running; past the test for an empty buffer; or in its loop, with
  \<open>bytes_to_send\<close>, \<open>i\<close> and the port buffer.\<close>

datatype 'b callback = Idle | Checked 'b | Sending nat nat 'b

record ('rb, 'b) client_threads =
  ct_client :: "'rb jack_client"
  ct_callback :: "'b callback"

datatype ('rb, 'b) callback_result =
    Ran "('rb, 'b) client_threads"
  | Returned "('rb, 'b) client_threads" 'b int
  | Stopped failure

text \<open>The next access of the callback; \<open>port\<close> is the port buffer when it is called.\<close>

definition callback_next ::
    "'rb jack_rb \<Rightarrow> 'b jack_midi \<Rightarrow> 'b \<Rightarrow> ('rb, 'b) client_threads \<Rightarrow> ('rb, 'b) callback_result" where
  "callback_next ops jm port t = (case jc_buf (ct_client t) of
     None \<Rightarrow> Stopped Assert_failed
   | Some rb \<Rightarrow> (case ct_callback t of
       Idle \<Rightarrow> if bytes_in_input_buffer ops rb = 0 then Returned t (jm_clear jm port) 0
         else Ran (t\<lparr>ct_callback := Checked (jm_clear jm port)\<rparr>)
     | Checked out \<Rightarrow> Ran (t\<lparr>ct_callback := Sending (bytes_in_input_buffer ops rb) 0 out\<rparr>)
     | Sending bytes_to_send i out \<Rightarrow>
         if i < bytes_to_send then (case rb_read ops rb 3 of (rb1, midi_event) \<Rightarrow>
           let p1 = (ct_client t)\<lparr>jc_buf := Some rb1\<rparr> in
           if length midi_event \<noteq> 3 then Returned (t\<lparr>ct_client := p1, ct_callback := Idle\<rparr>) out 2
           else (case jm_event_write jm out 0 midi_event of (out1, write_res) \<Rightarrow>
             if write_res \<noteq> 0 then Returned (t\<lparr>ct_client := p1, ct_callback := Idle\<rparr>) out1 2
             else Ran (t\<lparr>ct_client := p1, ct_callback := Sending bytes_to_send (i + length midi_event) out1\<rparr>)))
         else Returned (t\<lparr>ct_client := (ct_client t)\<lparr>jc_sent := (jc_sent (ct_client t) + bytes_to_send) mod 2 ^ 64\<rparr>,
           ct_callback := Idle\<rparr>) out 0))"

text \<open>
  The runs from a client \<open>p\<close> on: the messages written so far, what each callback that returned left
  in the port and returned, and where the threads are.
\<close>

inductive client_run ::
    "'rb jack_rb \<Rightarrow> 'b jack_midi \<Rightarrow> 'rb jack_client \<Rightarrow> byte list list \<Rightarrow> ('b \<times> int) list \<Rightarrow> ('rb, 'b) client_threads \<Rightarrow> bool"
    for ops jm p where
  starts: "client_run ops jm p [] [] \<lparr>ct_client = p, ct_callback = Idle\<rparr>"
| writes: "client_run ops jm p ms rs t \<Longrightarrow> write_midi ops status v1 v2 (ct_client t) = Inr p' \<Longrightarrow>
    client_run ops jm p (ms @ [[status, v1, v2]]) rs (t\<lparr>ct_client := p'\<rparr>)"
| runs: "client_run ops jm p ms rs t \<Longrightarrow> callback_next ops jm port t = Ran t' \<Longrightarrow> client_run ops jm p ms rs t'"
| returns: "client_run ops jm p ms rs t \<Longrightarrow> callback_next ops jm port t = Returned t' out r \<Longrightarrow>
    client_run ops jm p ms (rs @ [(out, r)]) t'"

section \<open>The callback in one piece\<close>

text \<open>A callback that nothing interrupts is \<open>process_cb\<close>.\<close>

inductive callback_alone ::
    "'rb jack_rb \<Rightarrow> 'b jack_midi \<Rightarrow> 'b \<Rightarrow> ('rb, 'b) client_threads \<Rightarrow> ('rb, 'b) client_threads \<Rightarrow> 'b \<Rightarrow> int \<Rightarrow> bool"
    for ops jm port where
  ends: "callback_next ops jm port t = Returned t' out r \<Longrightarrow> callback_alone ops jm port t t' out r"
| goes_on: "callback_next ops jm port t = Ran t1 \<Longrightarrow> callback_alone ops jm port t1 t' out r \<Longrightarrow> callback_alone ops jm port t t' out r"

lemma send_loop_alone:
  assumes "jc_buf p = Some rb" "send_loop ops jm n i rb b = (ok, rb', b')"
  shows "callback_alone ops jm port \<lparr>ct_client = p, ct_callback = Sending n i b\<rparr>
    \<lparr>ct_client = (if ok then p\<lparr>jc_buf := Some rb', jc_sent := (jc_sent p + n) mod 2 ^ 64\<rparr> else p\<lparr>jc_buf := Some rb'\<rparr>),
      ct_callback = Idle\<rparr> b' (if ok then 0 else 2)"
  using assms
proof (induction ops jm n i rb b arbitrary: p rule: send_loop.induct)
  case (1 ops jm n i rb b)
  let ?t = "\<lparr>ct_client = p, ct_callback = Sending n i b\<rparr>"
  obtain rb1 ev where r: "rb_read ops rb 3 = (rb1, ev)" by fastforce
  obtain b1 res where w: "jm_event_write jm b 0 ev = (b1, res)" by fastforce
  show ?case
  proof (cases "i < n \<and> length ev = 3 \<and> res = 0")
    case True
    let ?p = "p\<lparr>jc_buf := Some rb1\<rparr>"
    have "send_loop ops jm n (i + length ev) rb1 b1 = (ok, rb', b')"
      using "1.prems"(2) True r w by (subst (asm) send_loop.simps) simp
    from "1.IH" [OF _ r [symmetric] _ w [symmetric] _ _ this, of ?p] True
    have "callback_alone ops jm port \<lparr>ct_client = ?p, ct_callback = Sending n (i + length ev) b1\<rparr>
      \<lparr>ct_client = (if ok then ?p\<lparr>jc_buf := Some rb', jc_sent := (jc_sent p + n) mod 2 ^ 64\<rparr> else ?p\<lparr>jc_buf := Some rb'\<rparr>),
        ct_callback = Idle\<rparr> b' (if ok then 0 else 2)" by (cases ok) simp_all
    moreover have "callback_next ops jm port ?t = Ran \<lparr>ct_client = ?p, ct_callback = Sending n (i + length ev) b1\<rparr>"
      using True r w "1.prems"(1) by (simp add: callback_next_def)
    ultimately show ?thesis using callback_alone.goes_on by fastforce
  next
    case False
    with "1.prems" r w show ?thesis
      by (intro callback_alone.ends, subst (asm) send_loop.simps) (cases p, auto simp: callback_next_def split: if_splits)
  qed
qed

lemma process_cb_alone:
  assumes "process_cb ops jm p port = Inr (p', out, r)"
  shows "callback_alone ops jm port \<lparr>ct_client = p, ct_callback = Idle\<rparr> \<lparr>ct_client = p', ct_callback = Idle\<rparr> out r"
proof -
  obtain rb where rb: "jc_buf p = Some rb" using assms by (auto simp: process_cb_def split: option.splits)
  show ?thesis
  proof (cases "rb_read_space ops rb = 0")
    case True
    with assms rb show ?thesis by (intro callback_alone.ends) (auto simp: process_cb_def callback_next_def)
  next
    case False
    obtain ok rb' b' where l: "send_loop ops jm (rb_read_space ops rb) 0 rb (jm_clear jm port) = (ok, rb', b')"
      using prod_cases3 by blast
    from send_loop_alone [OF rb this, of port] assms rb False l
    have "callback_alone ops jm port \<lparr>ct_client = p, ct_callback = Sending (rb_read_space ops rb) 0 (jm_clear jm port)\<rparr>
      \<lparr>ct_client = p', ct_callback = Idle\<rparr> out r" by (cases ok) (auto simp: process_cb_def)
    moreover have "callback_next ops jm port \<lparr>ct_client = p, ct_callback = Checked (jm_clear jm port)\<rparr> =
        Ran \<lparr>ct_client = p, ct_callback = Sending (rb_read_space ops rb) 0 (jm_clear jm port)\<rparr>"
      "callback_next ops jm port \<lparr>ct_client = p, ct_callback = Idle\<rparr> = Ran \<lparr>ct_client = p, ct_callback = Checked (jm_clear jm port)\<rparr>"
      using rb False by (simp_all add: callback_next_def)
    ultimately show ?thesis by (blast intro: callback_alone.goes_on)
  qed
qed

section \<open>What the messages become\<close>

text \<open>
  After \<open>ms\<close> was written: the messages each callback that returned has sent, those the running one
  has sent, and those that are still in the ring.
\<close>

definition delivered ::
    "'b jack_midi \<Rightarrow> byte list list \<Rightarrow> ('b \<times> int) list \<Rightarrow> byte list list list \<Rightarrow> byte list list \<Rightarrow> byte list list \<Rightarrow> bool" where
  "delivered jm ms rs parts cur rest \<longleftrightarrow> ms = concat parts @ cur @ rest \<and>
     list_all2 (\<lambda>(out, r) part. r = 0 \<and> (\<exists>port. out = port_write_messages jm part (jm_clear jm port))) rs parts"

lemma delivered_write: "delivered jm ms rs parts cur rest \<Longrightarrow> delivered jm (ms @ [m]) rs parts cur (rest @ [m])"
  by (simp add: delivered_def)

lemma delivered_return:
  "delivered jm ms rs parts cur rest \<Longrightarrow> out = port_write_messages jm cur (jm_clear jm port) \<Longrightarrow>
   delivered jm ms (rs @ [(out, 0)]) (parts @ [cur]) [] rest"
  by (auto simp: delivered_def intro!: list_all2_appendI)

lemma delivered_send: "delivered jm ms rs parts cur (m # rest) \<Longrightarrow> delivered jm ms rs parts (cur @ [m]) rest"
  by (simp add: delivered_def)

text \<open>The callback's local variables agree with what it has sent and with what it can still read.\<close>

fun callback_ok :: "'b jack_midi \<Rightarrow> byte list list \<Rightarrow> byte list list \<Rightarrow> 'b callback \<Rightarrow> bool" where
  "callback_ok jm cur rest Idle \<longleftrightarrow> cur = []"
| "callback_ok jm cur rest (Checked out) \<longleftrightarrow> cur = [] \<and> (\<exists>port. out = jm_clear jm port)"
| "callback_ok jm cur rest (Sending n i out) \<longleftrightarrow> (\<exists>port. out = port_write_messages jm cur (jm_clear jm port)) \<and>
     i = 3 * length cur \<and> 3 dvd n \<and> i \<le> n \<and> n \<le> i + 3 * length rest"

definition client_inv ::
    "'rb jack_rb \<Rightarrow> ('rb \<Rightarrow> bool) \<Rightarrow> ('rb \<Rightarrow> byte list) \<Rightarrow> 'b jack_midi \<Rightarrow> 'rb jack_client \<Rightarrow> nat \<Rightarrow>
     byte list list \<Rightarrow> ('b \<times> int) list \<Rightarrow> ('rb, 'b) client_threads \<Rightarrow> bool" where
  "client_inv ops rinv content jm p room ms rs t \<longleftrightarrow> (\<exists>parts cur rest. delivered jm ms rs parts cur rest \<and>
     jc_holds ops rinv content (ct_client t) rest (room - 3 * length rest) \<and> 3 * length rest \<le> room \<and>
     callback_ok jm cur rest (ct_callback t) \<and>
     jc_created (ct_client t) = (jc_created p + 3 * length ms) mod 2 ^ 64 \<and>
     jc_sent (ct_client t) = (jc_sent p + 3 * length (concat parts)) mod 2 ^ 64)"

lemma client_invI:
  assumes "delivered jm ms rs parts cur rest" "jc_holds ops rinv content (ct_client t) rest (room - 3 * length rest)" "3 * length rest \<le> room"
    and "callback_ok jm cur rest (ct_callback t)" "jc_created (ct_client t) = (jc_created p + 3 * length ms) mod 2 ^ 64"
    and "jc_sent (ct_client t) = (jc_sent p + 3 * length (concat parts)) mod 2 ^ 64"
  shows "client_inv ops rinv content jm p room ms rs t"
  using assms unfolding client_inv_def by blast

lemma count_add: "((c + 3 * m) mod 2 ^ 64 + 3 * k) mod 2 ^ 64 = (c + 3 * (m + k)) mod (2 ^ 64 :: nat)"
  using mod_add_left_eq [of "c + 3 * m" "2 ^ 64" "3 * k"] by (simp add: distrib_left add.assoc)

lemma client_inv_write:
  assumes "jack_ring ops rinv content" "client_inv ops rinv content jm p room ms rs t"
    and "write_midi ops a b c (ct_client t) = Inr p'"
  shows "client_inv ops rinv content jm p room (ms @ [[a, b, c]]) rs (t\<lparr>ct_client := p'\<rparr>)"
proof -
  obtain parts cur rest where i: "delivered jm ms rs parts cur rest"
      "jc_holds ops rinv content (ct_client t) rest (room - 3 * length rest)" "3 * length rest \<le> room"
      "callback_ok jm cur rest (ct_callback t)"
      "jc_created (ct_client t) = (jc_created p + 3 * length ms) mod 2 ^ 64"
      "jc_sent (ct_client t) = (jc_sent p + 3 * length (concat parts)) mod 2 ^ 64"
    using assms(2) unfolding client_inv_def by blast
  have w: "3 \<le> room - 3 * length rest" "jc_holds ops rinv content p' (rest @ [[a, b, c]]) (room - 3 * length rest - 3)"
      "p' = (ct_client t)\<lparr>jc_buf := jc_buf p', jc_created := (jc_created (ct_client t) + 3) mod 2 ^ 64\<rparr>"
    using write_midi_holds [OF assms(1) i(2), of a b c] assms(3) by auto
  have "jc_created p' = (jc_created (ct_client t) + 3) mod 2 ^ 64" "jc_sent p' = jc_sent (ct_client t)"
    by (subst w(3), simp)+
  moreover have "callback_ok jm cur (rest @ [[a, b, c]]) (ct_callback t)" using i(4) by (cases "ct_callback t") auto
  ultimately show ?thesis using i(3, 5, 6) w(1, 2) count_add [of "jc_created p" "length ms" 1]
    by (intro client_invI [OF delivered_write [OF i(1)]]) (auto simp: diff_diff_eq add.commute [of 3])
qed

lemma jc_holds_space:
  assumes "jack_ring ops rinv content" "jc_holds ops rinv content p rest room" "jc_buf p = Some rb"
  shows "rb_read_space ops rb = 3 * length rest"
proof -
  have rb: "rinv rb" "content rb = concat rest" "list_all (\<lambda>m. length m = 3) rest" using assms(2, 3) by (auto simp: jc_holds_def)
  from rb(3) have "length (concat rest) = 3 * length rest" by (induction rest) auto
  with jack_ring.read_space_law [OF assms(1) rb(1)] rb(2) show ?thesis by simp
qed

lemma jc_holds_read:
  assumes "jack_ring ops rinv content" "jc_holds ops rinv content p (m # rest) room" "jc_buf p = Some rb" "rb_read ops rb 3 = (rb1, bs)"
  shows "bs = m \<and> length m = 3 \<and> jc_holds ops rinv content (p\<lparr>jc_buf := Some rb1\<rparr>) rest (room + 3)"
proof -
  have rb: "rinv rb" "content rb = m @ concat rest" "length m = 3" "list_all (\<lambda>m. length m = 3) rest" "rb_write_space ops rb = room"
    using assms(2, 3) by (auto simp: jc_holds_def)
  from jack_ring.read_law [OF assms(1) rb(1) assms(4)] rb show ?thesis by (auto simp: jc_holds_def)
qed

definition next_ok ::
    "'rb jack_rb \<Rightarrow> ('rb \<Rightarrow> bool) \<Rightarrow> ('rb \<Rightarrow> byte list) \<Rightarrow> 'b jack_midi \<Rightarrow> 'rb jack_client \<Rightarrow> nat \<Rightarrow>
     byte list list \<Rightarrow> ('b \<times> int) list \<Rightarrow> ('rb, 'b) callback_result \<Rightarrow> bool" where
  "next_ok ops rinv content jm p room ms rs res \<longleftrightarrow> (case res of
     Ran t \<Rightarrow> client_inv ops rinv content jm p room ms rs t
   | Returned t out r \<Rightarrow> client_inv ops rinv content jm p room ms (rs @ [(out, r)]) t
   | Stopped e \<Rightarrow> False)"

lemma callback_next_ok:
  assumes "jack_ring ops rinv content" "port_accepts jm" "client_inv ops rinv content jm p room ms rs t"
  shows "next_ok ops rinv content jm p room ms rs (callback_next ops jm port t)"
proof -
  obtain parts cur rest where i: "delivered jm ms rs parts cur rest"
      "jc_holds ops rinv content (ct_client t) rest (room - 3 * length rest)" "3 * length rest \<le> room"
      "callback_ok jm cur rest (ct_callback t)"
      "jc_created (ct_client t) = (jc_created p + 3 * length ms) mod 2 ^ 64"
      "jc_sent (ct_client t) = (jc_sent p + 3 * length (concat parts)) mod 2 ^ 64"
    using assms(3) unfolding client_inv_def by blast
  obtain rb where rb: "jc_buf (ct_client t) = Some rb" using i(2) by (auto simp: jc_holds_def)
  note space = jc_holds_space [OF assms(1) i(2) rb]
  show ?thesis
  proof (cases "ct_callback t")
    case Idle
    have d: "delivered jm ms (rs @ [(jm_clear jm port, 0)]) (parts @ [[]]) [] rest"
      using delivered_return [OF i(1), of "jm_clear jm port" port] i(4) Idle by (simp add: port_write_messages_def)
    have "client_inv ops rinv content jm p room ms (rs @ [(jm_clear jm port, 0)]) t"
      by (rule client_invI [OF d]) (use i Idle in simp_all)
    moreover have "client_inv ops rinv content jm p room ms rs (t\<lparr>ct_callback := Checked (jm_clear jm port)\<rparr>)"
      by (rule client_invI [OF i(1)]) (use i Idle in auto)
    ultimately show ?thesis using rb Idle by (simp add: callback_next_def next_ok_def)
  next
    case (Checked out)
    have "client_inv ops rinv content jm p room ms rs (t\<lparr>ct_callback := Sending (3 * length rest) 0 out\<rparr>)"
      by (rule client_invI [OF i(1)]) (use i Checked in \<open>auto simp: port_write_messages_def\<close>)
    with Checked rb space show ?thesis by (simp add: callback_next_def next_ok_def)
  next
    case (Sending n k out)
    with i(4) obtain port0 where c: "out = port_write_messages jm cur (jm_clear jm port0)" "k = 3 * length cur" "3 dvd n" "k \<le> n"
        "n \<le> k + 3 * length rest" by auto
    show ?thesis
    proof (cases "k < n")
      case True
      with c obtain m rest' where m: "rest = m # rest'" by (cases rest) auto
      obtain rb1 bs where r: "rb_read ops rb 3 = (rb1, bs)" by fastforce
      note rd = jc_holds_read [OF assms(1) i(2) [unfolded m] rb r]
      obtain out1 res where w: "jm_event_write jm out 0 m = (out1, res)" by fastforce
      then have res: "res = 0" using assms(2) unfolding port_accepts_def by (metis snd_conv)
      have out1: "out1 = port_write_messages jm (cur @ [m]) (jm_clear jm port0)" using c(1) w by (simp add: port_write_messages_def)
      have "k + 3 \<le> n" using c(2, 3) True by (auto elim!: dvdE)
      with c m have c': "callback_ok jm (cur @ [m]) rest' (Sending n (k + 3) out1)" using out1 by auto
      have rm: "room - 3 * length rest + 3 = room - 3 * length rest'" using i(3) m by auto
      have "client_inv ops rinv content jm p room ms rs
          (t\<lparr>ct_client := (ct_client t)\<lparr>jc_buf := Some rb1\<rparr>, ct_callback := Sending n (k + 3) out1\<rparr>)"
        by (rule client_invI [OF delivered_send [OF i(1) [unfolded m]]]) (use rd i(3, 5, 6) c' rm m in auto)
      with Sending True rb r rd w res show ?thesis by (simp add: callback_next_def next_ok_def Let_def)
    next
      case False
      then have n: "n = 3 * length cur" using c by simp
      have "client_inv ops rinv content jm p room ms (rs @ [(out, 0)])
          (t\<lparr>ct_client := (ct_client t)\<lparr>jc_sent := (jc_sent (ct_client t) + n) mod 2 ^ 64\<rparr>, ct_callback := Idle\<rparr>)"
        by (rule client_invI [OF delivered_return [OF i(1) c(1)]])
          (use i n count_add [of "jc_sent p" "length (concat parts)" "length cur"] in \<open>auto simp: jc_holds_def\<close>)
      with Sending False rb show ?thesis by (simp add: callback_next_def next_ok_def)
    qed
  qed
qed

lemma client_run_inv:
  assumes "jack_ring ops rinv content" "port_accepts jm" "jc_holds ops rinv content p [] room" "jc_created p < 2 ^ 64" "jc_sent p < 2 ^ 64"
  shows "client_run ops jm p ms rs t \<Longrightarrow> client_inv ops rinv content jm p room ms rs t"
proof (induction rule: client_run.induct)
  case starts
  have "delivered jm [] [] [] [] []" by (simp add: delivered_def)
  with assms(3-5) show ?case by (force simp: client_inv_def)
next
  case (writes ms rs t status v1 v2 p')
  then show ?case using client_inv_write [OF assms(1) writes.IH writes.hyps(2)] by simp
next
  case (runs ms rs t port t')
  then show ?case using callback_next_ok [OF assms(1, 2) runs.IH, of port] by (simp add: next_ok_def)
next
  case (returns ms rs t port t' out r)
  then show ?case using callback_next_ok [OF assms(1, 2) returns.IH, of port] by (simp add: next_ok_def)
qed

section \<open>Properties\<close>



end
