(* ===== verification/Non_Session.thy ===== *)
theory Non_Session
  imports Jack_Client Rounding "HOL-Library.Char_ord" "HOL-Library.List_Lexorder"
begin

text \<open>
  The Non session protocol of \<open>driver-osc\<close>: signals (\<open>NonSignal.hpp\<close>), peers (\<open>NonPeer.hpp\<close>,
  \<open>.cpp\<close>) and the state machine of \<open>NonSessionHandler\<close> (\<open>NonSessionHandler.hpp\<close>, \<open>.cpp\<close>) with its
  message handlers.  One method call is one step: \<open>step_state_machine\<close> takes a mutex, and the handlers
  around it run one after another on the server thread.  \<open>start_session\<close> and \<open>broadcast_input_event\<close>
  run on the main thread; \<open>Session_Threads\<close> lets messages arrive during a broadcast.

  liblo is a parameter (\<open>ns_env\<close>): which URLs are valid addresses and what sending returns.  The
  messages sent are collected in order in \<open>ns_sent\<close>.  A \<open>float\<close> is the rational it denotes.
\<close>

section \<open>Signals\<close>

datatype direction = Dir_in | Dir_out | Dir_bidirectional

fun direction_str :: "direction \<Rightarrow> string" where
  "direction_str Dir_in = ''in''"
| "direction_str Dir_out = ''out''"
| "direction_str Dir_bidirectional = ''out''"

record non_signal =
  sig_path :: string
  sig_min :: rat
  sig_max :: rat
  sig_default :: rat
  sig_direction :: direction

definition OSC_BTN_PRESSED :: rat where "OSC_BTN_PRESSED = 1"
definition OSC_BTN_RELEASED :: rat where "OSC_BTN_RELEASED = 0"
definition KNOB_MAX :: rat where "KNOB_MAX = 0xfff"
definition FADER_MAX :: rat where "FADER_MAX = KNOB_MAX"
definition OSC_SIG_MTX :: string where "OSC_SIG_MTX = ''/kontrolf1/mtx/''"
definition OSC_SIG_STOP :: string where "OSC_SIG_STOP = ''/kontrolf1/stop/''"
definition OSC_SIG_SPECIAL :: string where "OSC_SIG_SPECIAL = ''/kontrolf1/special/''"
definition OSC_SIG_KNOB :: string where "OSC_SIG_KNOB = ''/kontrolf1/knob/''"
definition OSC_SIG_FADER :: string where "OSC_SIG_FADER = ''/kontrolf1/fader/''"

lemmas signal_prefixes = OSC_SIG_MTX_def OSC_SIG_STOP_def OSC_SIG_SPECIAL_def OSC_SIG_KNOB_def OSC_SIG_FADER_def

definition out_signal :: "string \<Rightarrow> nat \<Rightarrow> non_signal" where
  "out_signal pre i = \<lparr>sig_path = pre @ show_nat i, sig_min = 0, sig_max = 1, sig_default = 0, sig_direction = Dir_out\<rparr>"

definition default_signals :: "non_signal list" where
  "default_signals = map (out_signal ''/kontrolf1/mtx/'') [0..<16] @ map (out_signal ''/kontrolf1/stop/'') [0..<4] @
     map (out_signal ''/kontrolf1/special/'') [0..<9] @ map (out_signal ''/kontrolf1/knob/'') [0..<4] @
     map (out_signal ''/kontrolf1/fader/'') [0..<4]"

lemmas osc_values [simp] = OSC_BTN_PRESSED_def OSC_BTN_RELEASED_def KNOB_MAX_def FADER_MAX_def

section \<open>Messages\<close>

datatype osc_arg = Str string | I32 int | Flt rat

type_synonym osc_msg = "string \<times> osc_arg list"

fun osc_type :: "osc_arg \<Rightarrow> char" where
  "osc_type (Str _) = CHR ''s''"
| "osc_type (I32 _) = CHR ''i''"
| "osc_type (Flt _) = CHR ''f''"

datatype osc_out =
    To_server osc_msg
  | To_peer string osc_msg
  | Bundle_to string "osc_msg list"

definition NON_API_VERSION_MAJOR :: int where "NON_API_VERSION_MAJOR = 1"
definition NON_API_VERSION_MINOR :: int where "NON_API_VERSION_MINOR = 2"
definition NSM_ANNOUNCE :: string where "NSM_ANNOUNCE = ''/nsm/server/announce''"
definition NSM_BROADCAST :: string where "NSM_BROADCAST = ''/nsm/server/broadcast''"
definition NSM_HELLO :: string where "NSM_HELLO = ''/non/hello''"
definition NSM_OPEN :: string where "NSM_OPEN = ''/nsm/client/open''"
definition NSM_SAVE :: string where "NSM_SAVE = ''/nsm/client/save''"
definition OSC_SIGNAL_LIST :: string where "OSC_SIGNAL_LIST = ''/signal/list''"
definition NSM_CLIENT_NAME :: string where "NSM_CLIENT_NAME = ''traktor-kontrol-f1-mapper''"
definition NSM_CLIENT_CAPABILITIES :: string where "NSM_CLIENT_CAPABILITIES = ''switch''"
definition NSM_REQUIRED_SERVER_CAPABILITIES :: "string list" where
  "NSM_REQUIRED_SERVER_CAPABILITIES = [''broadcast'']"

lemmas api_version [simp] = NON_API_VERSION_MAJOR_def NON_API_VERSION_MINOR_def

lemmas osc_paths = NSM_ANNOUNCE_def NSM_BROADCAST_def NSM_HELLO_def NSM_OPEN_def NSM_SAVE_def OSC_SIGNAL_LIST_def

section \<open>State\<close>

record non_peer =
  np_id :: string
  np_name :: string
  np_version :: string
  np_url :: string
  np_signals :: "non_signal list"

definition np_new :: "string \<Rightarrow> string \<Rightarrow> string \<Rightarrow> string \<Rightarrow> non_peer" where
  "np_new client_id name version url =
     \<lparr>np_id = client_id, np_name = name, np_version = version, np_url = url, np_signals = []\<rparr>"

text \<open>The copy constructor leaves the signals out.\<close>

definition np_copy :: "non_peer \<Rightarrow> non_peer" where
  "np_copy src = \<lparr>np_id = np_id src, np_name = np_name src, np_version = np_version src, np_url = np_url src, np_signals = []\<rparr>"

lemma np_copy_eq: "np_copy src = src\<lparr>np_signals := []\<rparr>"
  by (cases src) (simp add: np_copy_def)

lemma np_copy_new [simp]: "np_copy (np_new c n v u) = np_new c n v u"
  by (simp add: np_copy_def np_new_def)

definition discovered_signals :: "non_peer \<Rightarrow> nat" where
  "discovered_signals peer = length (np_signals peer)"

text \<open>\<open>std::map<std::string, NonPeer>\<close>: entries in the order of their keys; an iterator is the key it
  stands at, \<open>end()\<close> is \<open>None\<close>.\<close>

fun map_emplace :: "string \<Rightarrow> 'v \<Rightarrow> (string \<times> 'v) list \<Rightarrow> (string \<times> 'v) list" where
  "map_emplace k v [] = [(k, v)]"
| "map_emplace k v ((k', v') # m) =
     (if k < k' then (k, v) # (k', v') # m else if k = k' then (k', v') # m else (k', v') # map_emplace k v m)"

definition map_begin :: "(string \<times> 'v) list \<Rightarrow> string option" where
  "map_begin m = (case m of [] \<Rightarrow> None | (k, _) # _ \<Rightarrow> Some k)"

definition map_next :: "string \<Rightarrow> (string \<times> 'v) list \<Rightarrow> string option" where
  "map_next k m = map_begin (dropWhile (\<lambda>(k', _). k' \<le> k) m)"

fun map_set :: "string \<Rightarrow> 'v \<Rightarrow> (string \<times> 'v) list \<Rightarrow> (string \<times> 'v) list" where
  "map_set k v [] = []"
| "map_set k v ((k', v') # m) = (if k = k' then (k', v) # m else (k', v') # map_set k v m)"

datatype session_state = NO_SESSION | HANDSHAKE_START | HANDSHAKE_AWAIT_REPLY | SESSION_AWAIT_OPEN
  | HELLO_START | PEER_AWAIT_SIGNAL_LIST | RUNNING | FAILED

record ('rb, 'j) nsh =
  ns_state :: session_state
  ns_handshake_complete :: bool
  ns_session_loaded :: bool
  ns_project_opened :: bool
  ns_client_id :: string
  ns_peers :: "(string \<times> non_peer) list"
  ns_signals :: "non_signal list"
  ns_handshaked_peers :: nat
  ns_current_peer :: "string option"
  ns_jack_midi :: bool
  ns_jack :: "'rb jack_client option"
  ns_exe :: string
  ns_world :: 'j
  ns_sent :: "osc_out list"

record ('rb, 'j) ns_env =
  en_ring :: "'rb jack_rb"
  en_jack :: "'j jc_api"
  en_valid :: "string \<Rightarrow> bool"
  en_send :: "string \<Rightarrow> osc_msg \<Rightarrow> int"
  en_url :: string
  en_version :: string
  en_pid :: int

definition nsh_new :: "string \<Rightarrow> non_signal list \<Rightarrow> bool \<Rightarrow> 'j \<Rightarrow> ('rb, 'j) nsh" where
  "nsh_new executable_name signals jack_midi j = \<lparr>ns_state = NO_SESSION, ns_handshake_complete = False,
     ns_session_loaded = False, ns_project_opened = False, ns_client_id = [], ns_peers = [], ns_signals = signals,
     ns_handshaked_peers = 0, ns_current_peer = None, ns_jack_midi = jack_midi, ns_jack = None,
     ns_exe = executable_name, ns_world = j, ns_sent = []\<rparr>"

definition session_is_ready :: "('rb, 'j) nsh \<Rightarrow> bool" where
  "session_is_ready s \<longleftrightarrow> ns_state s \<in> {RUNNING, SESSION_AWAIT_OPEN, HELLO_START}"

definition session_has_failed :: "('rb, 'j) nsh \<Rightarrow> bool" where
  "session_has_failed s \<longleftrightarrow> ns_state s = FAILED"

definition peer_is_known :: "('rb, 'j) nsh \<Rightarrow> string \<Rightarrow> bool" where
  "peer_is_known s client_id \<longleftrightarrow> map_of (ns_peers s) client_id \<noteq> None"

definition peer_at :: "('rb, 'j) nsh \<Rightarrow> string \<Rightarrow> non_peer res" where
  "peer_at s client_id = (case map_of (ns_peers s) client_id of None \<Rightarrow> Inl Out_of_range | Some p \<Rightarrow> Inr p)"

definition emit :: "osc_out \<Rightarrow> ('rb, 'j) nsh \<Rightarrow> ('rb, 'j) nsh" where
  "emit m s = s\<lparr>ns_sent := ns_sent s @ [m]\<rparr>"

section \<open>Senders\<close>

text \<open>\<open>NonPeer::send\<close>; the bundle is valid as long as liblo has memory.\<close>

definition np_send :: "osc_msg list \<Rightarrow> non_peer \<Rightarrow> ('rb, 'j) nsh \<Rightarrow> ('rb, 'j) nsh" where
  "np_send msgs peer = emit (Bundle_to (np_url peer) msgs)"

definition discovered_peers :: "('rb, 'j) nsh \<Rightarrow> nat" where
  "discovered_peers s = length (ns_peers s)"

declare np_send_def [simp] discovered_peers_def [simp]

definition send_announce :: "('rb, 'j) ns_env \<Rightarrow> ('rb, 'j) nsh \<Rightarrow> ('rb, 'j) nsh" where
  "send_announce env s = emit (To_server (NSM_ANNOUNCE, [Str NSM_CLIENT_NAME, Str NSM_CLIENT_CAPABILITIES,
     Str (ns_exe s), I32 NON_API_VERSION_MAJOR, I32 NON_API_VERSION_MINOR, I32 (en_pid env)])) s"

definition send_hello :: "('rb, 'j) ns_env \<Rightarrow> ('rb, 'j) nsh \<Rightarrow> ('rb, 'j) nsh" where
  "send_hello env s = emit (To_server (NSM_BROADCAST, [Str NSM_HELLO, Str (en_url env), Str NSM_CLIENT_NAME,
     Str (en_version env), Str (ns_client_id s)])) s"

definition fetch_signal_list :: "('rb, 'j) ns_env \<Rightarrow> non_peer \<Rightarrow> ('rb, 'j) nsh \<Rightarrow> ('rb, 'j) nsh res" where
  "fetch_signal_list env peer s =
     bind_res (assert_res (en_valid env (np_url peer))) (\<lambda>_.
     bind_res (assert_res (en_send env (np_url peer) (OSC_SIGNAL_LIST, []) \<ge> 0)) (\<lambda>_.
       Inr (emit (To_peer (np_url peer) (OSC_SIGNAL_LIST, [])) s)))"

definition current_peer :: "('rb, 'j) nsh \<Rightarrow> (string \<times> non_peer) res" where
  "current_peer s = (case ns_current_peer s of None \<Rightarrow> Inl Undefined_behaviour
     | Some k \<Rightarrow> (case map_of (ns_peers s) k of None \<Rightarrow> Inl Undefined_behaviour | Some p \<Rightarrow> Inr (k, p)))"

definition send_signal_list :: "('rb, 'j) ns_env \<Rightarrow> ('rb, 'j) nsh \<Rightarrow> ('rb, 'j) nsh res" where
  "send_signal_list env s = bind_res (current_peer s) (\<lambda>(k, p). fetch_signal_list env p s)"

section \<open>The state machine\<close>

fun state_rank :: "session_state \<Rightarrow> nat" where
  "state_rank HANDSHAKE_START = 5" | "state_rank HANDSHAKE_AWAIT_REPLY = 4" | "state_rank SESSION_AWAIT_OPEN = 3"
| "state_rank HELLO_START = 2" | "state_rank RUNNING = 1" | "state_rank _ = 0"

function step_state_machine :: "('rb, 'j) ns_env \<Rightarrow> ('rb, 'j) nsh \<Rightarrow> ('rb, 'j) nsh res" where
  "step_state_machine env s = (case ns_state s of
     FAILED \<Rightarrow> Inr s
   | NO_SESSION \<Rightarrow> Inr s
   | HANDSHAKE_START \<Rightarrow> step_state_machine env (send_announce env (s\<lparr>ns_state := HANDSHAKE_AWAIT_REPLY\<rparr>))
   | HANDSHAKE_AWAIT_REPLY \<Rightarrow>
       if ns_handshake_complete s then step_state_machine env (s\<lparr>ns_state := SESSION_AWAIT_OPEN\<rparr>) else Inr s
   | SESSION_AWAIT_OPEN \<Rightarrow>
       if \<not> ns_project_opened s then Inr s else step_state_machine env (s\<lparr>ns_state := HELLO_START\<rparr>)
   | HELLO_START \<Rightarrow> step_state_machine env ((send_hello env s)\<lparr>ns_state := RUNNING\<rparr>)
   | PEER_AWAIT_SIGNAL_LIST \<Rightarrow> send_signal_list env s
   | RUNNING \<Rightarrow>
       if ns_handshaked_peers s < length (ns_peers s) then
         step_state_machine env (s\<lparr>
           ns_current_peer := (case ns_current_peer s of None \<Rightarrow> map_begin (ns_peers s) | Some k \<Rightarrow> map_next k (ns_peers s)),
           ns_state := PEER_AWAIT_SIGNAL_LIST\<rparr>)
       else Inr s)"
  by pat_completeness auto
termination
  by (relation "measure (\<lambda>(env, s). state_rank (ns_state s))") (auto simp: send_announce_def emit_def)

declare step_state_machine.simps [simp del]

definition start_session :: "('rb, 'j) ns_env \<Rightarrow> ('rb, 'j) nsh \<Rightarrow> ('rb, 'j) nsh res" where
  "start_session env s = step_state_machine env
     (if ns_handshake_complete s then s\<lparr>ns_state := HELLO_START\<rparr> else s\<lparr>ns_state := HANDSHAKE_START\<rparr>)"

section \<open>Message handlers\<close>

definition handle_list_end :: "string \<Rightarrow> ('rb, 'j) nsh \<Rightarrow> ('rb, 'j) nsh res" where
  "handle_list_end path s =
     (if path = OSC_SIGNAL_LIST then
        if ns_state s \<noteq> PEER_AWAIT_SIGNAL_LIST then Inr s
        else bind_res (assert_res (ns_current_peer s \<noteq> None)) (\<lambda>_.
          Inr (s\<lparr>ns_state := RUNNING, ns_handshaked_peers := ns_handshaked_peers s + 1\<rparr>))
      else Inr s)"

definition assert_server_announce_matches_required_capabilities ::
    "string \<Rightarrow> ('rb, 'j) nsh \<Rightarrow> ('rb, 'j) nsh" where
  "assert_server_announce_matches_required_capabilities capabilities s =
     fold (\<lambda>required_cap s. if sublist required_cap capabilities then s else s\<lparr>ns_state := FAILED\<rparr>)
       NSM_REQUIRED_SERVER_CAPABILITIES s"

definition handle_announce_reply ::
    "('rb, 'j) ns_env \<Rightarrow> string \<Rightarrow> string \<Rightarrow> ('rb, 'j) nsh \<Rightarrow> ('rb, 'j) nsh res" where
  "handle_announce_reply env path arg3 s =
     (if path = NSM_ANNOUNCE then
        if ns_state s = HANDSHAKE_AWAIT_REPLY then
          step_state_machine env
            ((assert_server_announce_matches_required_capabilities arg3 s)\<lparr>ns_handshake_complete := True\<rparr>)
        else step_state_machine env (s\<lparr>ns_state := FAILED\<rparr>)
      else Inr s)"

definition handle_error :: "('rb, 'j) ns_env \<Rightarrow> string \<Rightarrow> ('rb, 'j) nsh \<Rightarrow> ('rb, 'j) nsh res" where
  "handle_error env path s =
     (if path = NSM_ANNOUNCE then step_state_machine env (s\<lparr>ns_handshake_complete := False, ns_state := FAILED\<rparr>)
      else Inr s)"

text \<open>\<open>jack.reset(new JackClient(client_id))\<close>, then \<open>connect\<close>.  Only a \<open>JackClientException\<close> is caught.\<close>

definition reset_jack :: "('rb, 'j) ns_env \<Rightarrow> string \<Rightarrow> ('rb, 'j) nsh \<Rightarrow> ('rb, 'j) nsh res" where
  "reset_jack env client_id s =
     (let s1 = s\<lparr>ns_jack := Some (jc_new (en_ring env) client_id)\<rparr> in
      (case ns_jack s of
         None \<Rightarrow> Inr s1
       | Some old \<Rightarrow> (case jc_destroy (en_jack env) (ns_world s) old of (j, r) \<Rightarrow>
           bind_res r (\<lambda>_. Inr (s1\<lparr>ns_world := j\<rparr>)))))"

definition connect_jack :: "('rb, 'j) ns_env \<Rightarrow> ('rb, 'j) nsh \<Rightarrow> ('rb, 'j) nsh \<times> unit res" where
  "connect_jack env s = (case ns_jack s of
     None \<Rightarrow> (s, Inl Undefined_behaviour)
   | Some p \<Rightarrow> (case jc_connect (en_jack env) (ns_world s) p of (j, p', r) \<Rightarrow>
       (s\<lparr>ns_jack := Some p', ns_world := j\<rparr>, r)))"

definition finish_open :: "('rb, 'j) ns_env \<Rightarrow> ('rb, 'j) nsh \<Rightarrow> ('rb, 'j) nsh res" where
  "finish_open env s = step_state_machine env
     ((emit (To_server (''/reply'', [Str NSM_OPEN, Str ''NOP''])) s)\<lparr>ns_project_opened := True\<rparr>)"

definition handle_open :: "('rb, 'j) ns_env \<Rightarrow> string \<Rightarrow> ('rb, 'j) nsh \<Rightarrow> ('rb, 'j) nsh res" where
  "handle_open env client_id s =
     (let s1 = s\<lparr>ns_client_id := client_id\<rparr> in
      if ns_jack_midi s1 then
        bind_res (reset_jack env client_id s1) (\<lambda>s2. case connect_jack env s2 of
          (s3, Inr _) \<Rightarrow> finish_open env s3
        | (s3, Inl Jack_error) \<Rightarrow>
            Inr ((emit (To_server (''/error'', [Str NSM_OPEN, I32 (-10), Str ''JackClientException whilst opening''])) s3)
              \<lparr>ns_state := FAILED\<rparr>)
        | (s3, Inl e) \<Rightarrow> Inl e)
      else finish_open env s1)"

definition handle_save :: "('rb, 'j) nsh \<Rightarrow> ('rb, 'j) nsh" where
  "handle_save s = emit (To_server (''/reply'', [Str NSM_SAVE, Str ''NOP''])) s"

definition signal_reply :: "non_signal \<Rightarrow> osc_msg" where
  "signal_reply signal = (''/reply'', [Str OSC_SIGNAL_LIST, Str (sig_path signal), Str (direction_str (sig_direction signal)),
     Flt (sig_min signal), Flt (sig_max signal), Flt (sig_default signal)])"

definition handle_signal_list :: "('rb, 'j) ns_env \<Rightarrow> string \<Rightarrow> ('rb, 'j) nsh \<Rightarrow> ('rb, 'j) nsh res" where
  "handle_signal_list env peer s =
     bind_res (assert_res (en_valid env peer)) (\<lambda>_.
       Inr (emit (Bundle_to peer (map signal_reply (ns_signals s) @ [(''/reply'', [Str OSC_SIGNAL_LIST])])) s))"

definition register_signal :: "non_signal \<Rightarrow> non_peer \<Rightarrow> non_peer" where
  "register_signal sig peer = peer\<lparr>np_signals := np_signals peer @ [sig]\<rparr>"

definition handle_signal_list_reply :: "string \<Rightarrow> rat \<Rightarrow> rat \<Rightarrow> rat \<Rightarrow> ('rb, 'j) nsh \<Rightarrow> ('rb, 'j) nsh res" where
  "handle_signal_list_reply signal_path mn mx default_value s =
     bind_res (assert_res (ns_current_peer s \<noteq> None)) (\<lambda>_.
     bind_res (current_peer s) (\<lambda>(k, peer).
       Inr (s\<lparr>ns_peers := map_set k (register_signal \<lparr>sig_path = signal_path, sig_min = mn, sig_max = mx,
         sig_default = default_value, sig_direction = Dir_out\<rparr> peer) (ns_peers s)\<rparr>)))"

definition handle_hello ::
    "('rb, 'j) ns_env \<Rightarrow> string \<Rightarrow> string \<Rightarrow> string \<Rightarrow> string \<Rightarrow> ('rb, 'j) nsh \<Rightarrow> ('rb, 'j) nsh res" where
  "handle_hello env peer_url peer_name peer_version peer_client_id s =
     (if peer_is_known s peer_client_id then Inl Assert_failed
      else step_state_machine env
        (s\<lparr>ns_peers := map_emplace peer_client_id (np_copy (np_new peer_client_id peer_name peer_version peer_url)) (ns_peers s)\<rparr>))"

text \<open>\<open>register_callbacks\<close>: the method for a path and the types of the arguments; other messages are
  ignored.\<close>

definition dispatch :: "('rb, 'j) ns_env \<Rightarrow> string \<Rightarrow> osc_msg \<Rightarrow> ('rb, 'j) nsh \<Rightarrow> ('rb, 'j) nsh res" where
  "dispatch env source msg s = (case msg of (path, args) \<Rightarrow>
     if path = ''/reply'' then (case args of
         [Str a] \<Rightarrow> handle_list_end a s
       | [Str a, Str b, Str c, Str d] \<Rightarrow> handle_announce_reply env a d s
       | [Str a, Str b, Flt x, Flt y, Flt z] \<Rightarrow>
           if a = OSC_SIGNAL_LIST then handle_signal_list_reply b x y z s else Inl Assert_failed
       | _ \<Rightarrow> Inr s)
     else if path = ''/error'' then (case args of [Str a, I32 n, Str m] \<Rightarrow> handle_error env a s | _ \<Rightarrow> Inr s)
     else if path = NSM_OPEN then (case args of [Str p, Str d, Str c] \<Rightarrow> handle_open env c s | _ \<Rightarrow> Inr s)
     else if path = NSM_SAVE then (case args of [] \<Rightarrow> Inr (handle_save s) | _ \<Rightarrow> Inr s)
     else if path = OSC_SIGNAL_LIST then (case args of [] \<Rightarrow> handle_signal_list env source s | _ \<Rightarrow> Inr s)
     else if path = NSM_HELLO then (case args of
         [Str u, Str n, Str v, Str c] \<Rightarrow> handle_hello env u n v c s | _ \<Rightarrow> Inr s)
     else Inr s)"

section \<open>Broadcasting\<close>

definition button_messages :: "string \<Rightarrow> rat \<Rightarrow> byte list \<Rightarrow> osc_msg list" where
  "button_messages pre val = map (\<lambda>btn. (pre @ show_nat (unat btn), [Flt val]))"

definition position_messages :: "string \<Rightarrow> rat \<Rightarrow> (byte \<times> u16) list \<Rightarrow> osc_msg list" where
  "position_messages pre vmax = map (\<lambda>(i, v). (pre @ show_nat (unat i), [Flt (fl 24 (of_nat (unat v) / vmax))]))"

definition change_bundle :: "f1_input_change \<Rightarrow> osc_msg list" where
  "change_bundle changes =
     button_messages OSC_SIG_MTX OSC_BTN_PRESSED (bd_matrix (pressed_buttons changes)) @
     button_messages OSC_SIG_MTX OSC_BTN_RELEASED (bd_matrix (released_buttons changes)) @
     button_messages OSC_SIG_STOP OSC_BTN_PRESSED (bd_stop (pressed_buttons changes)) @
     button_messages OSC_SIG_STOP OSC_BTN_RELEASED (bd_stop (released_buttons changes)) @
     button_messages OSC_SIG_SPECIAL OSC_BTN_PRESSED (bd_special (pressed_buttons changes)) @
     button_messages OSC_SIG_SPECIAL OSC_BTN_RELEASED (bd_special (released_buttons changes)) @
     position_messages OSC_SIG_KNOB KNOB_MAX (ch_knobs changes) @
     position_messages OSC_SIG_FADER FADER_MAX (ch_faders changes)"

definition broadcast_input_event ::
    "('rb, 'j) ns_env \<Rightarrow> f1_input_change \<Rightarrow> ('rb, 'j) nsh \<Rightarrow> ('rb, 'j) nsh res" where
  "broadcast_input_event env changes s =
     bind_res (if ns_jack_midi s then (case ns_jack s of
           None \<Rightarrow> Inl Assert_failed
         | Some p \<Rightarrow> bind_res (push_event (en_ring env) changes p) (\<lambda>p'. Inr (s\<lparr>ns_jack := Some p'\<rparr>)))
       else Inr s) (\<lambda>s1.
     Inr (fold (\<lambda>(k, peer). np_send (change_bundle changes) peer) (ns_peers s1) s1))"

section \<open>Single steps\<close>

lemma step_simps [simp]:
  "ns_state s = FAILED \<Longrightarrow> step_state_machine env s = Inr s"
  "ns_state s = NO_SESSION \<Longrightarrow> step_state_machine env s = Inr s"
  "ns_state s = HANDSHAKE_START \<Longrightarrow>
    step_state_machine env s = step_state_machine env (send_announce env (s\<lparr>ns_state := HANDSHAKE_AWAIT_REPLY\<rparr>))"
  "ns_state s = HANDSHAKE_AWAIT_REPLY \<Longrightarrow> step_state_machine env s =
    (if ns_handshake_complete s then step_state_machine env (s\<lparr>ns_state := SESSION_AWAIT_OPEN\<rparr>) else Inr s)"
  "ns_state s = SESSION_AWAIT_OPEN \<Longrightarrow> step_state_machine env s =
    (if ns_project_opened s then step_state_machine env (s\<lparr>ns_state := HELLO_START\<rparr>) else Inr s)"
  "ns_state s = HELLO_START \<Longrightarrow>
    step_state_machine env s = step_state_machine env ((send_hello env s)\<lparr>ns_state := RUNNING\<rparr>)"
  "ns_state s = PEER_AWAIT_SIGNAL_LIST \<Longrightarrow> step_state_machine env s = send_signal_list env s"
  "ns_state s = RUNNING \<Longrightarrow> step_state_machine env s =
    (if ns_handshaked_peers s < length (ns_peers s) then
       send_signal_list env (s\<lparr>
         ns_current_peer := (case ns_current_peer s of None \<Rightarrow> map_begin (ns_peers s) | Some k \<Rightarrow> map_next k (ns_peers s)),
         ns_state := PEER_AWAIT_SIGNAL_LIST\<rparr>)
     else Inr s)"
  by (simp_all add: step_state_machine.simps)

lemma emit_simps [simp]:
  "ns_state (emit m s) = ns_state s" "ns_handshake_complete (emit m s) = ns_handshake_complete s"
  "ns_project_opened (emit m s) = ns_project_opened s" "ns_peers (emit m s) = ns_peers s"
  "ns_handshaked_peers (emit m s) = ns_handshaked_peers s" "ns_current_peer (emit m s) = ns_current_peer s"
  "ns_jack_midi (emit m s) = ns_jack_midi s" "ns_jack (emit m s) = ns_jack s" "ns_signals (emit m s) = ns_signals s"
  "ns_sent (emit m s) = ns_sent s @ [m]" "ns_client_id (emit m s) = ns_client_id s" "ns_exe (emit m s) = ns_exe s"
  by (simp_all add: emit_def)

lemma send_signal_list_Inr:
  "send_signal_list env s = Inr s' \<longleftrightarrow> (\<exists>k p. current_peer s = Inr (k, p) \<and> en_valid env (np_url p) \<and>
     0 \<le> en_send env (np_url p) (OSC_SIGNAL_LIST, []) \<and> s' = emit (To_peer (np_url p) (OSC_SIGNAL_LIST, [])) s)"
  by (cases "current_peer s") (auto simp: send_signal_list_def fetch_signal_list_def bind_res_Inr_iff)

lemma send_signal_list_Inl:
  "send_signal_list env s = Inl e \<Longrightarrow> e \<in> {Undefined_behaviour, Assert_failed}"
  by (auto simp: send_signal_list_def current_peer_def fetch_signal_list_def assert_res_def bind_res_def
      split: option.splits if_splits)

text \<open>Where the state machine rests.\<close>

definition settled :: "('rb, 'j) nsh \<Rightarrow> bool" where
  "settled s \<longleftrightarrow> (case ns_state s of
     HANDSHAKE_START \<Rightarrow> False | HELLO_START \<Rightarrow> False
   | HANDSHAKE_AWAIT_REPLY \<Rightarrow> \<not> ns_handshake_complete s
   | SESSION_AWAIT_OPEN \<Rightarrow> \<not> ns_project_opened s
   | RUNNING \<Rightarrow> length (ns_peers s) \<le> ns_handshaked_peers s
   | PEER_AWAIT_SIGNAL_LIST \<Rightarrow> ns_current_peer s \<noteq> None
   | _ \<Rightarrow> True)"

text \<open>A run of the state machine: it comes to rest after at most \<open>n\<close> messages, or one of the faults of
  sending a signal list request ends it.\<close>

definition step_outcome :: "('rb, 'j) nsh \<Rightarrow> nat \<Rightarrow> ('rb, 'j) nsh res \<Rightarrow> bool" where
  "step_outcome s n r \<longleftrightarrow> (case r of
     Inl e \<Rightarrow> e \<in> {Undefined_behaviour, Assert_failed}
   | Inr s' \<Rightarrow> settled s' \<and> (\<exists>ms. ns_sent s' = ns_sent s @ ms \<and> length ms \<le> n))"

lemma step_outcome_after:
  assumes "step_outcome t n r" "ns_sent t = ns_sent s @ ms" "n + length ms \<le> k"
  shows "step_outcome s k r"
proof (cases r)
  case (Inr s')
  with assms(1) obtain ms' where "settled s'" "ns_sent s' = ns_sent t @ ms'" "length ms' \<le> n"
    by (auto simp: step_outcome_def)
  with assms(2, 3) Inr show ?thesis by (auto simp: step_outcome_def intro!: exI [of _ "ms @ ms'"])
qed (use assms(1) in \<open>simp add: step_outcome_def\<close>)

lemma step_outcome_rest: "settled s \<Longrightarrow> step_outcome s n (Inr s)"
  by (simp add: step_outcome_def)

lemma step_outcome_list:
  assumes "ns_state s = PEER_AWAIT_SIGNAL_LIST"
  shows "step_outcome s 1 (send_signal_list env s)"
proof (cases "send_signal_list env s")
  case (Inl e)
  then show ?thesis using send_signal_list_Inl [OF Inl] by (simp add: step_outcome_def)
next
  case (Inr s')
  then obtain k q where "current_peer s = Inr (k, q)" "s' = emit (To_peer (np_url q) (OSC_SIGNAL_LIST, [])) s"
    by (auto simp: send_signal_list_Inr)
  then show ?thesis unfolding Inr using assms
    by (auto simp: step_outcome_def settled_def current_peer_def split: option.splits)
qed

lemma step_outcome_run: "ns_state s = RUNNING \<Longrightarrow> step_outcome s 1 (step_state_machine env s)"
  by (auto simp: settled_def intro!: step_outcome_rest intro: step_outcome_after [OF step_outcome_list])

lemma step_outcome_hello: "ns_state s = HELLO_START \<Longrightarrow> step_outcome s 2 (step_state_machine env s)"
  unfolding step_simps(6) by (rule step_outcome_after [OF step_outcome_run]) (auto simp: send_hello_def)

lemma step_outcome_open: "ns_state s = SESSION_AWAIT_OPEN \<Longrightarrow> step_outcome s 2 (step_state_machine env s)"
  unfolding step_simps(5)
  by (auto simp: settled_def simp del: step_simps intro!: step_outcome_rest step_outcome_after [OF step_outcome_hello])

lemma step_outcome_reply: "ns_state s = HANDSHAKE_AWAIT_REPLY \<Longrightarrow> step_outcome s 2 (step_state_machine env s)"
  unfolding step_simps(4)
  by (auto simp: settled_def simp del: step_simps intro!: step_outcome_rest step_outcome_after [OF step_outcome_open])

lemma step_outcome_start: "ns_state s = HANDSHAKE_START \<Longrightarrow> step_outcome s 3 (step_state_machine env s)"
  unfolding step_simps(3) by (rule step_outcome_after [OF step_outcome_reply]) (auto simp: send_announce_def)

lemmas step_outcomes = step_outcome_run step_outcome_hello step_outcome_open step_outcome_reply step_outcome_start

lemma step_outcome_any: "step_outcome s 3 (step_state_machine env s)"
proof (cases "ns_state s")
  case PEER_AWAIT_SIGNAL_LIST
  then show ?thesis using step_outcome_after [OF step_outcome_list [OF PEER_AWAIT_SIGNAL_LIST], of _ "[]"] by simp
qed (auto simp: settled_def simp del: step_simps(3-8) intro!: step_outcome_rest
      intro: step_outcome_after [OF step_outcome_run, of _ _ "[]"] step_outcome_after [OF step_outcome_hello, of _ _ "[]"]
        step_outcome_after [OF step_outcome_open, of _ _ "[]"] step_outcome_after [OF step_outcome_reply, of _ _ "[]"]
        step_outcome_start)
section \<open>The invariant of a session\<close>

definition sent_to :: "string \<Rightarrow> ('rb, 'j) nsh \<Rightarrow> nat" where
  "sent_to path s = length (filter (\<lambda>m. case m of To_server (p, _) \<Rightarrow> p = path | _ \<Rightarrow> False) (ns_sent s))"

abbreviation announces where "announces \<equiv> sent_to NSM_ANNOUNCE"
abbreviation hellos where "hellos \<equiv> sent_to NSM_BROADCAST"

lemma sent_to_emit [simp]:
  "sent_to path (emit m s) = sent_to path s + (case m of To_server (p, _) \<Rightarrow> of_bool (p = path) | _ \<Rightarrow> 0)"
  by (simp add: sent_to_def split: osc_out.split prod.split)

lemma sent_to_cong [simp]:
  "sent_to path (s\<lparr>ns_state := a\<rparr>) = sent_to path s" "sent_to path (s\<lparr>ns_handshake_complete := b\<rparr>) = sent_to path s"
  "sent_to path (s\<lparr>ns_project_opened := b\<rparr>) = sent_to path s" "sent_to path (s\<lparr>ns_peers := ps\<rparr>) = sent_to path s"
  "sent_to path (s\<lparr>ns_handshaked_peers := n\<rparr>) = sent_to path s" "sent_to path (s\<lparr>ns_current_peer := c\<rparr>) = sent_to path s"
  "sent_to path (s\<lparr>ns_jack := jk\<rparr>) = sent_to path s" "sent_to path (s\<lparr>ns_world := w\<rparr>) = sent_to path s"
  "sent_to path (s\<lparr>ns_client_id := x\<rparr>) = sent_to path s"
  by (simp_all add: sent_to_def)

definition phase_ok :: "('rb, 'j) nsh \<Rightarrow> bool" where
  "phase_ok s \<longleftrightarrow> (case ns_state s of
     NO_SESSION \<Rightarrow> announces s = 0 \<and> hellos s = 0
   | HANDSHAKE_START \<Rightarrow> announces s = 0 \<and> hellos s = 0
   | HANDSHAKE_AWAIT_REPLY \<Rightarrow> announces s = 1 \<and> hellos s = 0
   | SESSION_AWAIT_OPEN \<Rightarrow> announces s = 1 \<and> hellos s = 0 \<and> ns_handshake_complete s
   | HELLO_START \<Rightarrow> announces s = 1 \<and> hellos s = 0 \<and> ns_handshake_complete s \<and> ns_project_opened s
   | RUNNING \<Rightarrow> announces s = 1 \<and> hellos s = 1 \<and> ns_handshake_complete s \<and> ns_project_opened s
   | PEER_AWAIT_SIGNAL_LIST \<Rightarrow> announces s = 1 \<and> hellos s = 1 \<and> ns_handshake_complete s \<and> ns_project_opened s
   | FAILED \<Rightarrow> announces s = 1 \<and> hellos s \<le> 1 \<and> (hellos s = 1 \<longrightarrow> ns_project_opened s))"

definition peers_ok :: "('rb, 'j) nsh \<Rightarrow> bool" where
  "peers_ok s \<longleftrightarrow> sorted_wrt (<) (map fst (ns_peers s)) \<and> ns_handshaked_peers s \<le> length (ns_peers s) \<and>
     (ns_state s = PEER_AWAIT_SIGNAL_LIST \<longrightarrow> ns_handshaked_peers s < length (ns_peers s)) \<and>
     (ns_jack_midi s \<and> ns_project_opened s \<longrightarrow> ns_jack s \<noteq> None)"

definition session_inv :: "('rb, 'j) nsh \<Rightarrow> bool" where
  "session_inv s \<longleftrightarrow> ns_state s \<notin> {NO_SESSION, HANDSHAKE_START} \<and> phase_ok s \<and> peers_ok s \<and>
     (ns_state s = PEER_AWAIT_SIGNAL_LIST \<longrightarrow> (\<exists>k p. current_peer s = Inr (k, p)))"

lemma osc_paths_distinct [simp]:
  "NSM_ANNOUNCE \<noteq> NSM_BROADCAST" "NSM_BROADCAST \<noteq> NSM_ANNOUNCE"
  "''/reply'' \<noteq> NSM_ANNOUNCE" "''/reply'' \<noteq> NSM_BROADCAST" "''/error'' \<noteq> NSM_ANNOUNCE" "''/error'' \<noteq> NSM_BROADCAST"
  by (simp_all add: osc_paths)

text \<open>What a result that is not a fault has to keep.\<close>

definition keeps :: "('rb, 'j) nsh res \<Rightarrow> bool" where
  "keeps r \<longleftrightarrow> (\<forall>s'. r = Inr s' \<longrightarrow> session_inv s')"

lemma keeps_simps [simp]: "keeps (Inr s) \<longleftrightarrow> session_inv s" "keeps (Inl e)"
  by (simp_all add: keeps_def)

lemma keeps_bind: "(\<And>x. m = Inr x \<Longrightarrow> keeps (k x)) \<Longrightarrow> keeps (bind_res m k)"
  by (cases m) simp_all

lemma current_peer_emit [simp]: "current_peer (emit m s) = current_peer s"
  by (simp add: current_peer_def split: option.split)

lemma keeps_list:
  assumes "ns_state s = PEER_AWAIT_SIGNAL_LIST" "phase_ok s" "peers_ok s"
  shows "keeps (send_signal_list env s)"
proof (cases "send_signal_list env s")
  case (Inr s')
  then obtain k q where "current_peer s = Inr (k, q)" "s' = emit (To_peer (np_url q) (OSC_SIGNAL_LIST, [])) s"
    by (auto simp: send_signal_list_Inr)
  with assms Inr show ?thesis
    by (simp add: session_inv_def phase_ok_def peers_ok_def split: session_state.splits)
qed simp

lemma keeps_run:
  "ns_state s = RUNNING \<Longrightarrow> phase_ok s \<Longrightarrow> peers_ok s \<Longrightarrow> keeps (step_state_machine env s)"
  by (auto simp: session_inv_def intro!: keeps_list) (auto simp: phase_ok_def peers_ok_def)

lemma keeps_hello:
  "ns_state s = HELLO_START \<Longrightarrow> phase_ok s \<Longrightarrow> peers_ok s \<Longrightarrow> keeps (step_state_machine env s)"
  unfolding step_simps(6) by (rule keeps_run) (auto simp: phase_ok_def peers_ok_def send_hello_def)

lemma keeps_open:
  "ns_state s = SESSION_AWAIT_OPEN \<Longrightarrow> phase_ok s \<Longrightarrow> peers_ok s \<Longrightarrow> keeps (step_state_machine env s)"
  unfolding step_simps(5)
  by (auto simp: session_inv_def simp del: step_simps intro!: keeps_hello) (auto simp: phase_ok_def peers_ok_def)

lemma keeps_reply:
  "ns_state s = HANDSHAKE_AWAIT_REPLY \<Longrightarrow> phase_ok s \<Longrightarrow> peers_ok s \<Longrightarrow> keeps (step_state_machine env s)"
  unfolding step_simps(4)
  by (auto simp: session_inv_def simp del: step_simps intro!: keeps_open) (auto simp: phase_ok_def peers_ok_def)

lemma keeps_start:
  "ns_state s = HANDSHAKE_START \<Longrightarrow> phase_ok s \<Longrightarrow> peers_ok s \<Longrightarrow> keeps (step_state_machine env s)"
  unfolding step_simps(3) by (rule keeps_reply) (auto simp: phase_ok_def peers_ok_def send_announce_def)

lemma keeps_step: "ns_state s \<noteq> NO_SESSION \<Longrightarrow> phase_ok s \<Longrightarrow> peers_ok s \<Longrightarrow> keeps (step_state_machine env s)"
  by (cases "ns_state s") (auto intro: keeps_run keeps_hello keeps_open keeps_reply keeps_start keeps_list
      simp del: step_simps(3-6,8) simp: session_inv_def)

section \<open>Peers\<close>

lemma set_map_emplace: "fst ` set (map_emplace k v m) = insert k (fst ` set m)"
  by (induction k v m rule: map_emplace.induct) auto

lemma sorted_map_emplace:
  "sorted_wrt (<) (map fst m) \<Longrightarrow> sorted_wrt (<) (map fst (map_emplace k v m))"
proof (induction k v m rule: map_emplace.induct)
  case (2 k v k' v' m)
  have "\<forall>x \<in> fst ` set (map_emplace k v m). k' < x" if "k' < k"
    using 2(2) that by (auto simp: set_map_emplace)
  with 2 show ?case by (auto simp: neq_iff)
qed simp

lemma length_map_emplace: "map_of m k = None \<Longrightarrow> length (map_emplace k v m) = Suc (length m)"
  by (induction k v m rule: map_emplace.induct) (auto split: if_splits)

lemma map_fst_set [simp]: "map fst (map_set k v m) = map fst m"
  by (induction k v m rule: map_set.induct) auto

lemma length_map_set [simp]: "length (map_set k v m) = length m"
  by (induction k v m rule: map_set.induct) auto

lemma map_of_map_set: "map_of (map_set k v m) k' = (if k' = k \<and> map_of m k \<noteq> None then Some v else map_of m k')"
  by (induction k v m rule: map_set.induct) auto

lemma map_of_emplace: "map_of m k = None \<Longrightarrow> map_of (map_emplace k v m) k' = (if k' = k then Some v else map_of m k')"
  by (induction k v m rule: map_emplace.induct) auto
section \<open>Runs\<close>

text \<open>
  The states a session goes through when the driver starts it once: the start, then messages from
  the network and input changes in any order, as long as nothing fails.
\<close>

inductive session_run :: "('rb, 'j) ns_env \<Rightarrow> ('rb, 'j) nsh \<Rightarrow> bool" for env where
  started: "start_session env (nsh_new exe signals jack_midi j) = Inr s \<Longrightarrow> session_run env s"
| message: "session_run env s \<Longrightarrow> dispatch env source msg s = Inr s' \<Longrightarrow> session_run env s'"
| input: "session_run env s \<Longrightarrow> broadcast_input_event env changes s = Inr s' \<Longrightarrow> session_run env s'"

lemma keeps_list_end: "session_inv s \<Longrightarrow> keeps (handle_list_end path s)"
  by (auto simp: handle_list_end_def session_inv_def phase_ok_def peers_ok_def intro!: keeps_bind)

lemma keeps_announce_reply: "session_inv s \<Longrightarrow>
    keeps (handle_announce_reply env path arg3 s)"
  by (auto simp: handle_announce_reply_def session_inv_def assert_server_announce_matches_required_capabilities_def
      NSM_REQUIRED_SERVER_CAPABILITIES_def simp del: step_simps(3-8) intro!: keeps_step)
     (auto simp: phase_ok_def peers_ok_def split: session_state.splits)

lemma keeps_error: "session_inv s \<Longrightarrow> keeps (handle_error env path s)"
  by (auto simp: handle_error_def session_inv_def phase_ok_def peers_ok_def split: session_state.splits)

text \<open>Fields that the connection to JACK does not touch.\<close>

definition jack_frame :: "('rb, 'j) nsh \<Rightarrow> ('rb, 'j) nsh \<Rightarrow> bool" where
  "jack_frame s t \<longleftrightarrow> t = s\<lparr>ns_jack := ns_jack t, ns_world := ns_world t\<rparr> \<and> ns_jack t \<noteq> None"

lemma reset_jack_frame: "reset_jack env c s = Inr t \<Longrightarrow> jack_frame s t"
  by (auto simp: reset_jack_def jack_frame_def Let_def bind_res_Inr_iff split: option.splits prod.splits)

lemma connect_jack_frame: "ns_jack s \<noteq> None \<Longrightarrow> connect_jack env s = (t, r) \<Longrightarrow> jack_frame s t"
  by (auto simp: connect_jack_def jack_frame_def split: option.splits prod.splits)

lemma jack_frameD:
  assumes "jack_frame s t"
  shows "ns_state t = ns_state s" "ns_handshake_complete t = ns_handshake_complete s"
    "ns_project_opened t = ns_project_opened s" "ns_peers t = ns_peers s" "ns_handshaked_peers t = ns_handshaked_peers s"
    "ns_current_peer t = ns_current_peer s" "ns_jack_midi t = ns_jack_midi s" "ns_sent t = ns_sent s" "ns_jack t \<noteq> None"
  using assms unfolding jack_frame_def by (metis nsh.select_convs nsh.surjective nsh.update_convs(11,13))+

lemma jack_frame_sent_to: "jack_frame s t \<Longrightarrow> sent_to path t = sent_to path s"
  by (simp add: sent_to_def jack_frameD)

lemma finish_open_keeps:
  assumes "session_inv s" "ns_jack_midi s \<longrightarrow> ns_jack s \<noteq> None"
  shows "keeps (finish_open env s)"
  unfolding finish_open_def
  by (rule keeps_step) (use assms in \<open>auto simp: session_inv_def phase_ok_def peers_ok_def split: session_state.splits\<close>)

lemma session_inv_cong:
  assumes "session_inv s" "ns_state t = ns_state s" "ns_handshake_complete t = ns_handshake_complete s"
    "ns_project_opened t = ns_project_opened s" "ns_peers t = ns_peers s" "ns_handshaked_peers t = ns_handshaked_peers s"
    "ns_current_peer t = ns_current_peer s" "ns_jack_midi t = ns_jack_midi s" "ns_sent t = ns_sent s"
    "ns_jack s \<noteq> None \<longrightarrow> ns_jack t \<noteq> None"
  shows "session_inv t"
proof -
  have "phase_ok t = phase_ok s" "current_peer t = current_peer s"
    by (simp_all add: phase_ok_def current_peer_def sent_to_def assms(2-9) split: session_state.split option.split)
  moreover have "peers_ok t" using assms by (auto simp: session_inv_def peers_ok_def)
  ultimately show ?thesis using assms(1, 2) by (simp add: session_inv_def)
qed

lemma session_inv_frame: "session_inv s \<Longrightarrow> jack_frame s t \<Longrightarrow> session_inv t"
  by (rule session_inv_cong) (simp_all add: jack_frameD)

lemma keeps_handle_open:
  assumes "session_inv s"
  shows "keeps (handle_open env c s)"
proof -
  let ?s1 = "s\<lparr>ns_client_id := c\<rparr>"
  have inv: "session_inv ?s1" by (rule session_inv_cong [OF assms]) simp_all
  have failed: "session_inv ((emit (To_server (''/error'', args)) t)\<lparr>ns_state := FAILED\<rparr>)"
    if "session_inv t" for t args
    using that by (auto simp: session_inv_def phase_ok_def peers_ok_def split: session_state.splits)
  show ?thesis
  proof (cases "ns_jack_midi s")
    case True
    show ?thesis unfolding handle_open_def Let_def using True
    proof (simp, intro keeps_bind)
      fix t assume "reset_jack env c ?s1 = Inr t"
      then have t: "jack_frame ?s1 t" by (rule reset_jack_frame)
      obtain u r where u: "connect_jack env t = (u, r)" by fastforce
      have fu: "jack_frame t u" by (rule connect_jack_frame [OF jack_frameD(9) [OF t] u])
      have iu: "session_inv u" by (rule session_inv_frame [OF session_inv_frame [OF inv t] fu])
      show "keeps (case connect_jack env t of (s3, Inl Jack_error) \<Rightarrow>
            Inr ((emit (To_server (''/error'', [Str NSM_OPEN, I32 (-10), Str ''JackClientException whilst opening''])) s3)
              \<lparr>ns_state := FAILED\<rparr>)
          | (s3, Inl e) \<Rightarrow> Inl e | (s3, Inr _) \<Rightarrow> finish_open env s3)"
        unfolding u using failed [OF iu] finish_open_keeps [OF iu] jack_frameD(9) [OF fu]
        by (auto split: sum.splits failure.splits)
    qed
  next
    case False
    then show ?thesis using finish_open_keeps [OF inv] by (simp add: handle_open_def)
  qed
qed

lemma keeps_signal_list: "session_inv s \<Longrightarrow> keeps (handle_signal_list env peer s)"
  by (auto simp: handle_signal_list_def session_inv_def phase_ok_def peers_ok_def intro!: keeps_bind split: session_state.splits)

lemma keeps_list_reply: 
  assumes "session_inv s"
  shows "keeps (handle_signal_list_reply path mn mx d s)"
proof -
  have "session_inv (s\<lparr>ns_peers := map_set k q (ns_peers s)\<rparr>)" if "current_peer s = Inr (k, p)" for k q p
    using that assms
    by (auto simp: session_inv_def phase_ok_def peers_ok_def current_peer_def map_of_map_set split: session_state.splits option.splits)
  then show ?thesis by (auto simp: handle_signal_list_reply_def intro!: keeps_bind)
qed

lemma keeps_handle_hello:
  assumes "session_inv s"
  shows "keeps (handle_hello env u n v c s)"
proof (cases "peer_is_known s c")
  case False
  then have new: "map_of (ns_peers s) c = None" by (simp add: peer_is_known_def)
  show ?thesis unfolding handle_hello_def using False
    by (simp del: step_simps) (rule keeps_step; use assms new in \<open>auto simp: session_inv_def phase_ok_def peers_ok_def
        sorted_map_emplace length_map_emplace split: session_state.splits\<close>)
qed (simp add: handle_hello_def)

lemma keeps_dispatch:
  assumes "session_inv s"
  shows "keeps (dispatch env source msg s)"
proof -
  have save: "session_inv (handle_save s)" using assms
    by (auto simp: handle_save_def session_inv_def phase_ok_def peers_ok_def split: session_state.splits)
  note k = keeps_list_end [OF assms] keeps_announce_reply [OF assms] keeps_error [OF assms] keeps_handle_open [OF assms]
    keeps_signal_list [OF assms] keeps_list_reply [OF assms] keeps_handle_hello [OF assms]
  show ?thesis unfolding dispatch_def
    by (auto split: prod.splits list.splits osc_arg.splits if_splits simp: assms save intro!: k)
qed
lemma session_inv_fold_emit:
  "session_inv (fold (\<lambda>x. emit (Bundle_to (f x) (g x))) xs s) \<longleftrightarrow> session_inv s"
proof (induction xs arbitrary: s)
  case (Cons x xs)
  have "session_inv (emit (Bundle_to u b) s) \<longleftrightarrow> session_inv s" for u b
    by (simp add: session_inv_def phase_ok_def peers_ok_def split: session_state.split)
  then show ?case using Cons.IH by simp
qed simp

lemma keeps_broadcast:
  assumes "session_inv s"
  shows "keeps (broadcast_input_event env c s)"
proof -
  have jack: "session_inv (s\<lparr>ns_jack := Some q\<rparr>)" for q
    by (rule session_inv_cong [OF assms]) simp_all
  then show ?thesis
    using session_inv_fold_emit [where f = "\<lambda>(k, p). np_url p" and g = "\<lambda>_. change_bundle c"] assms
    by (auto simp: broadcast_input_event_def bind_res_Inr_iff case_prod_unfold intro!: keeps_bind split: option.splits if_splits)
qed

lemma session_run_inv: "session_run env s \<Longrightarrow> session_inv s"
proof (induction rule: session_run.induct)
  case (started exe signals jack_midi j s)
  let ?n = "(nsh_new exe signals jack_midi j)\<lparr>ns_state := HANDSHAKE_START\<rparr>"
  have "keeps (step_state_machine env ?n)"
    by (rule keeps_step) (simp_all add: phase_ok_def peers_ok_def nsh_new_def sent_to_def)
  with started show ?case by (simp add: start_session_def nsh_new_def keeps_def)
next
  case (message s source msg s')
  then show ?case using keeps_dispatch [of s env source msg] by (simp add: keeps_def)
next
  case (input s changes s')
  then show ?case using keeps_broadcast [of s env changes] by (simp add: keeps_def)
qed

section \<open>The peer that is asked next\<close>

lemma sorted_all_less: "sorted_wrt (<) (ks @ [k]) \<Longrightarrow> x \<in> set ks \<Longrightarrow> x < (k :: string)"
  by (auto simp: sorted_wrt_append)

lemma map_next_emplace:
  assumes "sorted_wrt (<) (map fst m)" "map_of m c = None" "\<forall>x \<in> fst ` set m. x \<le> k"
  shows "map_next k (map_emplace c v m) = (if k < c then Some c else None)"
proof -
  have *: "\<forall>x \<in> fst ` set (map_emplace c v m). x \<le> k" if "\<not> k < c"
    using assms(3) that by (auto simp: set_map_emplace)
  have "dropWhile (\<lambda>(k', _). k' \<le> k) m = []" using assms(3) by (auto simp: dropWhile_eq_Nil_conv)
  show ?thesis
  proof (cases "k < c")
    case True
    have "map_emplace c v m = m @ [(c, v)]" using assms(3) True by (induction m) fastforce+
    with True show ?thesis
      using \<open>dropWhile (\<lambda>(k', _). k' \<le> k) m = []\<close> by (auto simp: map_next_def map_begin_def dropWhile_append)
  next
    case False
    have "\<forall>x \<in> set (map_emplace c v m). (\<lambda>(k', _). k' \<le> k) x" using * [OF False] by auto
    then have d: "dropWhile (\<lambda>(k', _). k' \<le> k) (map_emplace c v m) = []" by (simp only: dropWhile_eq_Nil_conv)
    show ?thesis unfolding map_next_def d using False by (simp add: map_begin_def)
  qed
qed
section \<open>Properties\<close>

definition ok_env :: "(ring, client_call list) ns_env" where
  "ok_env = \<lparr>en_ring = ring_ops, en_jack = log_client, en_valid = (\<lambda>_. True), en_send = (\<lambda>_ _. 0),
     en_url = ''osc.udp://me:1/'', en_version = ''1'', en_pid = 7\<rparr>"

lemma session_run_messages:
  "session_run env s \<Longrightarrow> fold_res (dispatch env source) msgs s = Inr s' \<Longrightarrow> session_run env s'"
  by (induction msgs arbitrary: s) (auto simp: bind_res_Inr_iff intro: session_run.message)

definition announce_reply :: osc_msg where
  "announce_reply = (''/reply'', [Str NSM_ANNOUNCE, Str [], Str [], Str '':broadcast:''])"

definition open_msg :: osc_msg where "open_msg = (NSM_OPEN, [Str ''/p'', Str ''P'', Str ''me''])"
definition hello_msg :: "string \<Rightarrow> osc_msg" where
  "hello_msg c = (NSM_HELLO, [Str (''osc.udp://'' @ c), Str c, Str ''1'', Str c])"

text \<open>The session after the start and some messages.\<close>

definition sample_run :: "osc_msg list \<Rightarrow> (ring, client_call list) nsh res" where
  "sample_run msgs = bind_res (start_session ok_env (nsh_new ''f1'' default_signals False []))
     (fold_res (dispatch ok_env []) msgs)"

lemma sample_run_session: "sample_run msgs = Inr s \<Longrightarrow> session_run ok_env s"
  by (auto simp: sample_run_def bind_res_Inr_iff intro: session_run_messages session_run.started)

text \<open>C13: The state machine terminates: from any state it comes to rest after at most three messages, in a
  state where it waits for a message or has nothing left to do, unless sending a signal list
  request fails; \<open>State not implemented\<close> is never thrown.\<close>

theorem step_settles:
  "case step_state_machine env s of
     Inl e \<Rightarrow> e = Undefined_behaviour \<or> e = Assert_failed
   | Inr s' \<Rightarrow> settled s' \<and> (\<exists>ms. ns_sent s' = ns_sent s @ ms \<and> length ms \<le> 3)"
  using step_outcome_any [of s env] by (simp add: step_outcome_def split: sum.splits)

text \<open>C12: The order of the protocol, whatever messages and inputs arrive: the session is announced exactly
  once, hello is broadcast at most once and only after the project was opened, a session that runs or
  waits for a signal list has completed its handshake and said hello; the peers are kept in order,
  no more are counted as done than are known, and the one waited for is a known peer.\<close>

theorem session_order:
  assumes "session_run env s"
  shows "announces s = 1 \<and> hellos s \<le> 1 \<and> (hellos s = 1 \<longrightarrow> ns_project_opened s) \<and>
    (ns_state s \<in> {RUNNING, PEER_AWAIT_SIGNAL_LIST} \<longrightarrow> hellos s = 1 \<and> ns_handshake_complete s) \<and>
    sorted_wrt (<) (map fst (ns_peers s)) \<and> ns_handshaked_peers s \<le> length (ns_peers s) \<and>
    (ns_state s = PEER_AWAIT_SIGNAL_LIST \<longrightarrow>
      (\<exists>k. ns_current_peer s = Some k \<and> peer_is_known s k) \<and> ns_handshaked_peers s < length (ns_peers s))"
proof -
  note inv = session_run_inv [OF assms]
  then have "announces s = 1" "hellos s \<le> 1" "hellos s = 1 \<longrightarrow> ns_project_opened s"
    "ns_state s \<in> {RUNNING, PEER_AWAIT_SIGNAL_LIST} \<longrightarrow> hellos s = 1 \<and> ns_handshake_complete s"
    by (auto simp: session_inv_def phase_ok_def split: session_state.splits)
  moreover have "(\<exists>k p. current_peer s = Inr (k, p)) \<longrightarrow> (\<exists>k. ns_current_peer s = Some k \<and> peer_is_known s k)"
    by (auto simp: current_peer_def peer_is_known_def split: option.splits)
  ultimately show ?thesis using inv by (auto simp: session_inv_def peers_ok_def)
qed

lemma session_order_witness:
  "\<exists>s. sample_run [announce_reply, open_msg, hello_msg ''b'', hello_msg ''c''] = Inr s \<and>
    ns_state s = PEER_AWAIT_SIGNAL_LIST \<and> announces s = 1 \<and> hellos s = 1 \<and> ns_current_peer s = Some ''b''"
proof -
  have "case sample_run [announce_reply, open_msg, hello_msg ''b'', hello_msg ''c''] of Inl _ \<Rightarrow> False
      | Inr s \<Rightarrow> ns_state s = PEER_AWAIT_SIGNAL_LIST \<and> ns_current_peer s = Some ''b''" by code_simp
  then obtain s where s: "sample_run [announce_reply, open_msg, hello_msg ''b'', hello_msg ''c''] = Inr s"
      "ns_state s = PEER_AWAIT_SIGNAL_LIST" "ns_current_peer s = Some ''b''"
    by (auto split: sum.splits)
  from session_order [OF sample_run_session [OF s(1)]] s show ?thesis by simp
qed

text \<open>C26: When every known peer has been asked and the last of them was the greatest, the next hello is
  safe only from a greater client id: then that peer is asked for its signals; after a hello from a
  smaller id the iterator is moved to the end of the map and dereferenced.\<close>

theorem next_hello:
  assumes "ns_state s = RUNNING" "ns_handshaked_peers s = length (ns_peers s)"
    and "sorted_wrt (<) (map fst (ns_peers s))" "ns_current_peer s = Some k" "\<forall>x \<in> fst ` set (ns_peers s). x \<le> k"
    and "\<not> peer_is_known s c" "en_valid env u" "0 \<le> en_send env u (OSC_SIGNAL_LIST, [])"
  shows "handle_hello env u n v c s =
    (if k < c then Inr (emit (To_peer u (OSC_SIGNAL_LIST, []))
        (s\<lparr>ns_peers := map_emplace c (np_new c n v u) (ns_peers s), ns_current_peer := Some c,
           ns_state := PEER_AWAIT_SIGNAL_LIST\<rparr>))
     else Inl Undefined_behaviour)"
proof -
  have new: "map_of (ns_peers s) c = None" using assms(6) by (simp add: peer_is_known_def)
  let ?m = "map_emplace c (np_new c n v u) (ns_peers s)"
  have "map_next k ?m = (if k < c then Some c else None)"
    by (rule map_next_emplace [OF assms(3) new assms(5)])
  moreover have "map_of ?m c = Some (np_new c n v u)" using map_of_emplace [OF new] by simp
  ultimately show ?thesis
    using assms(1, 2, 4, 6-8) length_map_emplace [OF new, of "np_new c n v u"]
    by (simp add: handle_hello_def send_signal_list_def current_peer_def fetch_signal_list_def np_new_def np_copy_def)
qed

definition one_peer :: "(ring, client_call list) nsh" where
  "one_peer = (nsh_new ''f1'' default_signals False [])\<lparr>ns_state := RUNNING, ns_handshake_complete := True,
     ns_project_opened := True, ns_peers := [(''mixer'', np_new ''mixer'' ''Mixer'' ''1'' ''osc.udp://a/'')],
     ns_handshaked_peers := 1, ns_current_peer := Some ''mixer''\<rparr>"

lemma next_hello_witness:
  "handle_hello ok_env ''osc.udp://b/'' ''Looper'' ''1'' ''looper'' one_peer = Inl Undefined_behaviour"
proof -
  have "\<not> ''mixer'' < ''looper''" by code_simp
  then show ?thesis
    using next_hello [of one_peer "''mixer''" "''looper''" ok_env "''osc.udp://b/''"]
    by (simp add: one_peer_def nsh_new_def peer_is_known_def ok_env_def)
qed

text \<open>Completing one signal list asks no other peer: the handler returns to \<open>RUNNING\<close> without a step of
  the state machine, so peers whose hello came in between wait until some other message causes one.\<close>

theorem list_end_asks_nobody:
  assumes "session_run env s" "ns_state s = PEER_AWAIT_SIGNAL_LIST"
  shows "dispatch env source (''/reply'', [Str OSC_SIGNAL_LIST]) s =
      Inr (s\<lparr>ns_state := RUNNING, ns_handshaked_peers := ns_handshaked_peers s + 1\<rparr>)"
proof -
  have "\<exists>k p. current_peer s = Inr (k, p)" using session_run_inv [OF assms(1)] assms(2) by (simp add: session_inv_def)
  then have "ns_current_peer s \<noteq> None" by (auto simp: current_peer_def split: option.splits)
  with assms(2) show ?thesis by (simp add: dispatch_def handle_list_end_def)
qed

lemma list_end_asks_nobody_witness:
  "\<exists>s s'. sample_run [announce_reply, open_msg, hello_msg ''b'', hello_msg ''c''] = Inr s \<and>
    dispatch ok_env [] (''/reply'', [Str OSC_SIGNAL_LIST]) s = Inr s' \<and> ns_state s' = RUNNING \<and>
    ns_handshaked_peers s' < length (ns_peers s') \<and> ns_sent s' = ns_sent s"
proof -
  have "case sample_run [announce_reply, open_msg, hello_msg ''b'', hello_msg ''c''] of Inl _ \<Rightarrow> False
      | Inr s \<Rightarrow> ns_state s = PEER_AWAIT_SIGNAL_LIST \<and> ns_handshaked_peers s = 0 \<and> length (ns_peers s) = 2" by code_simp
  then obtain s where s: "sample_run [announce_reply, open_msg, hello_msg ''b'', hello_msg ''c''] = Inr s"
      "ns_state s = PEER_AWAIT_SIGNAL_LIST" "ns_handshaked_peers s = 0" "length (ns_peers s) = 2"
    by (auto split: sum.splits)
  from list_end_asks_nobody [OF sample_run_session [OF s(1)] s(2), of "[]"] s show ?thesis by simp
qed

text \<open>What handlers give for a failed session with \<open>n\<close> hellos sent.\<close>

definition stays_failed :: "nat \<Rightarrow> ('rb, 'j) nsh res \<Rightarrow> bool" where
  "stays_failed n r \<longleftrightarrow> (\<forall>t. r = Inr t \<longrightarrow> ns_state t = FAILED \<and> hellos t = n)"

lemma stays_failed_simps [simp]:
  "stays_failed n (Inr t) \<longleftrightarrow> ns_state t = FAILED \<and> hellos t = n" "stays_failed n (Inl e)"
  by (simp_all add: stays_failed_def)

lemma stays_finish_open: "ns_state t = FAILED \<Longrightarrow> hellos t = n \<Longrightarrow> stays_failed n (finish_open env t)"
  by (simp add: finish_open_def)

lemma stays_handle_open:
  assumes "ns_state s = FAILED"
  shows "stays_failed (hellos s) (handle_open env c s)"
proof (cases "ns_jack_midi s")
  case jm: True
  show ?thesis
  proof (cases "reset_jack env c (s\<lparr>ns_client_id := c\<rparr>)")
    case (Inr t)
    note t = reset_jack_frame [OF Inr]
    obtain u r where u: "connect_jack env t = (u, r)" by fastforce
    note fu = connect_jack_frame [OF jack_frameD(9) [OF t] u]
    have "ns_state u = FAILED" "hellos u = hellos s"
      using jack_frameD(1) [OF t] jack_frameD(1) [OF fu] jack_frame_sent_to [OF t] jack_frame_sent_to [OF fu] assms by simp_all
    with stays_finish_open [of u "hellos s" env] jm Inr u show ?thesis
      by (auto simp: handle_open_def Let_def split: sum.splits failure.splits)
  qed (simp add: handle_open_def jm)
qed (use assms in \<open>simp add: handle_open_def stays_finish_open\<close>)

lemma stays_handlers:
  assumes "ns_state s = FAILED"
  shows "stays_failed (hellos s) (handle_list_end p s)" "stays_failed (hellos s) (handle_announce_reply env p d s)"
    "stays_failed (hellos s) (handle_error env p s)" "ns_state (handle_save s) = FAILED" "hellos (handle_save s) = hellos s"
    "stays_failed (hellos s) (handle_hello env u n v c s)" "stays_failed (hellos s) (handle_signal_list env p s)"
    "stays_failed (hellos s) (handle_signal_list_reply q x y z s)"
  using assms
  by (auto simp: handle_list_end_def handle_announce_reply_def handle_error_def handle_save_def handle_hello_def
      handle_signal_list_def handle_signal_list_reply_def bind_res_def split: sum.splits)

text \<open>C27: A failed session stays failed and never says hello: no message changes the state again, also not
  an announce reply or an opened project; and an announce reply without the broadcast capability
  fails the session.\<close>

theorem failure_is_final:
  assumes "dispatch env source msg s = Inr s'"
    and "ns_state s = FAILED \<or> ns_state s = HANDSHAKE_AWAIT_REPLY \<and>
      (\<exists>a b caps. msg = (''/reply'', [Str NSM_ANNOUNCE, Str a, Str b, Str caps]) \<and> \<not> sublist ''broadcast'' caps)"
  shows "ns_state s' = FAILED \<and> hellos s' = hellos s"
proof (cases "ns_state s = FAILED")
  case True
  have "stays_failed (hellos s) (dispatch env source msg s)" unfolding dispatch_def
    by (auto split: prod.splits list.splits osc_arg.splits if_splits simp: True stays_handlers stays_handle_open)
  then show ?thesis using assms(1) by simp
next
  case False
  then obtain a b caps where "ns_state s = HANDSHAKE_AWAIT_REPLY" "\<not> sublist ''broadcast'' caps"
      "msg = (''/reply'', [Str NSM_ANNOUNCE, Str a, Str b, Str caps])"
    using assms(2) by auto
  then show ?thesis
    using assms(1) by (auto simp: dispatch_def handle_announce_reply_def
        assert_server_announce_matches_required_capabilities_def NSM_REQUIRED_SERVER_CAPABILITIES_def)
qed

lemma failure_is_final_witness:
  "\<exists>s s'. sample_run [] = Inr s \<and> dispatch ok_env [] (''/reply'', [Str NSM_ANNOUNCE, Str [], Str [], Str '':switch:'']) s = Inr s' \<and>
    ns_state s' = FAILED \<and> hellos s' = 0"
proof -
  let ?m = "(''/reply'', [Str NSM_ANNOUNCE, Str [], Str [], Str '':switch:''])"
  have "case sample_run [] of Inl _ \<Rightarrow> False | Inr s \<Rightarrow> ns_state s = HANDSHAKE_AWAIT_REPLY \<and> hellos s = 0 \<and>
      (case dispatch ok_env [] ?m s of Inl _ \<Rightarrow> False | Inr s' \<Rightarrow> True)"
    by code_simp
  then obtain s s' where s: "sample_run [] = Inr s" "ns_state s = HANDSHAKE_AWAIT_REPLY" "hellos s = 0" "dispatch ok_env [] ?m s = Inr s'"
    by (auto split: sum.splits)
  have "\<not> sublist ''broadcast'' '':switch:''" by code_simp
  then have "ns_state s' = FAILED \<and> hellos s' = hellos s"
    by (intro failure_is_final [OF s(4)]) (simp add: s(2))
  with s show ?thesis by (intro exI [of _ s] exI [of _ s'] conjI) simp_all
qed

text \<open>A ready session need not be able to take input: with JACK output, after the announce reply and
  before a project is opened, \<open>session_is_ready\<close> holds and the first broadcast fails its assertion.\<close>

theorem ready_before_open:
  assumes "sublist ''broadcast'' caps"
  shows "\<exists>s1 s2. start_session env (nsh_new exe signals True j) = Inr s1 \<and>
    dispatch env source (''/reply'', [Str NSM_ANNOUNCE, Str a, Str b, Str caps]) s1 = Inr s2 \<and>
    session_is_ready s2 \<and> broadcast_input_event env changes s2 = Inl Assert_failed"
  using assms
  by (simp add: start_session_def nsh_new_def dispatch_def handle_announce_reply_def send_announce_def emit_def
      assert_server_announce_matches_required_capabilities_def NSM_REQUIRED_SERVER_CAPABILITIES_def
      session_is_ready_def broadcast_input_event_def)

lemma ready_before_open_witness:
  "\<exists>s1 s2. start_session ok_env (nsh_new ''f1'' default_signals True []) = Inr s1 \<and>
    dispatch ok_env [] announce_reply s1 = Inr s2 \<and>
    session_is_ready s2 \<and> broadcast_input_event ok_env no_change s2 = Inl Assert_failed"
proof -
  have "sublist ''broadcast'' '':broadcast:''" by code_simp
  from ready_before_open [OF this, of ok_env "''f1''" default_signals "[]" "[]" "[]" "[]"] show ?thesis
    unfolding announce_reply_def by blast
qed

lemma fl_position:
  assumes "v \<le> 0xfff"
  shows "0 \<le> fl 24 (of_nat v / 0xfff) \<and> fl 24 (of_nat v / 0xfff) \<le> 1"
proof (cases "v = 0xfff")
  case True
  have "fl 24 (of_int 1) = of_int 1" by (rule fl_of_int) simp_all
  with True show ?thesis by simp
next
  case False
  let ?x = "of_nat v / 0xfff :: rat"
  have v: "?x \<le> 0xffe / 0xfff" "0 \<le> ?x" using assms False by (simp_all add: divide_right_mono)
  have "fl 24 ?x \<le> ?x + \<bar>?x\<bar> / 2 ^ 24" using fl_error [of 24 ?x] by linarith
  also have "\<dots> \<le> 1" using v by simp
  finally show ?thesis using fl_nonneg [of ?x 24] v(2) by simp
qed

definition positions_12 :: "f1_input_change \<Rightarrow> bool" where
  "positions_12 c \<longleftrightarrow> list_all (\<lambda>(i, v). unat v \<le> 0xfff) (ch_knobs c @ ch_faders c)"

lemma advertised:
  "i < 16 \<Longrightarrow> OSC_SIG_MTX @ show_nat i \<in> sig_path ` set default_signals"
  "i < 4 \<Longrightarrow> OSC_SIG_STOP @ show_nat i \<in> sig_path ` set default_signals"
  "i < 9 \<Longrightarrow> OSC_SIG_SPECIAL @ show_nat i \<in> sig_path ` set default_signals"
  "i < 4 \<Longrightarrow> OSC_SIG_KNOB @ show_nat i \<in> sig_path ` set default_signals"
  "i < 4 \<Longrightarrow> OSC_SIG_FADER @ show_nat i \<in> sig_path ` set default_signals"
  unfolding default_signals_def signal_prefixes set_append set_map image_Un image_image out_signal_def non_signal.simps
  by (rule UnI1 UnI2; simp)+

definition advertised_message :: "osc_msg \<Rightarrow> bool" where
  "advertised_message m \<longleftrightarrow> (case m of (path, args) \<Rightarrow> path \<in> sig_path ` set default_signals \<and>
     (\<exists>v. args = [Flt v] \<and> 0 \<le> v \<and> v \<le> 1))"

lemma button_messages_advertised:
  assumes "\<And>i. i < n \<Longrightarrow> pre @ show_nat i \<in> sig_path ` set default_signals" "\<forall>b \<in> set bs. unat b < n" "v = 0 \<or> v = 1"
  shows "\<forall>m \<in> set (button_messages pre v bs). advertised_message m"
  using assms by (auto simp: button_messages_def advertised_message_def)

lemma position_messages_advertised:
  assumes "\<And>i. i < 4 \<Longrightarrow> pre @ show_nat i \<in> sig_path ` set default_signals"
    and "\<forall>p \<in> set ps. unat (fst p) < 4 \<and> unat (snd p) \<le> 0xfff"
  shows "\<forall>m \<in> set (position_messages pre KNOB_MAX ps). advertised_message m"
proof -
  have "advertised_message (pre @ show_nat (unat i), [Flt (fl 24 (of_nat (unat v) / 0xfff))])" if "(i, v) \<in> set ps" for i v
  proof -
    have "unat i < 4" "unat v \<le> 0xfff" using assms(2) that by fastforce+
    then show ?thesis using assms(1) fl_position by (simp add: advertised_message_def del: of_nat_unat)
  qed
  then show ?thesis by (auto simp: position_messages_def)
qed

lemma broadcast_sent:
  assumes "broadcast_input_event env c s = Inr s'"
  shows "ns_sent s' = ns_sent s @ map (\<lambda>(k, peer). Bundle_to (np_url peer) (change_bundle c)) (ns_peers s)"
proof -
  have emits: "ns_sent (fold (\<lambda>(k, peer). emit (Bundle_to (np_url peer) b)) ps t) =
      ns_sent t @ map (\<lambda>(k, peer). Bundle_to (np_url peer) b) ps" for ps b and t :: "('a, 'b) nsh"
    by (induction ps arbitrary: t) auto
  obtain s1 where s1: "s' = fold (\<lambda>(k, peer). emit (Bundle_to (np_url peer) (change_bundle c))) (ns_peers s1) s1"
      "ns_sent s1 = ns_sent s" "ns_peers s1 = ns_peers s"
    using assms by (auto simp: broadcast_input_event_def bind_res_Inr_iff split: if_splits option.splits)
  show ?thesis unfolding s1(1) emits s1(2, 3) ..
qed


definition sample_broadcast :: f1_input_change where
  "sample_broadcast = sample_change\<lparr>ch_faders := [(2, 0xfff)]\<rparr>"


text \<open>The replies this driver sends to a signal list request have six arguments, \<open>sssfff\<close>, while it
  listens for five, \<open>ssfff\<close>: another instance of it ignores them, and only the end of the list is
  heard.\<close>

theorem signal_list_unheard:
  assumes "handle_signal_list env peer s = Inr s'"
  shows "\<exists>replies. ns_sent s' = ns_sent s @ [Bundle_to peer (replies @ [(''/reply'', [Str OSC_SIGNAL_LIST])])] \<and>
    length replies = length (ns_signals s) \<and>
    (\<forall>m \<in> set replies. map osc_type (snd m) = ''sssfff'' \<and> dispatch env' source m t = Inr t)"
  using assms
  by (auto simp: handle_signal_list_def bind_res_Inr_iff signal_reply_def dispatch_def intro!: exI [of _ "map signal_reply (ns_signals s)"])

lemma signal_list_unheard_witness:
  "\<exists>replies. length replies = 37 \<and> (\<forall>m \<in> set replies. dispatch ok_env [] m one_peer = Inr one_peer)"
proof -
  have "\<exists>s'. handle_signal_list ok_env ''osc.udp://a/'' one_peer = Inr s'" by (simp add: handle_signal_list_def ok_env_def)
  then obtain s' where "handle_signal_list ok_env ''osc.udp://a/'' one_peer = Inr s'" ..
  from signal_list_unheard [OF this, of ok_env "[]" one_peer] show ?thesis
    by (auto simp: one_peer_def nsh_new_def default_signals_def)
qed

end
