(* ===== verification/Session_Threads.thy ===== *)
theory Session_Threads
  imports Non_Session
begin

text \<open>
  \<open>NonSessionHandler\<close> between its two threads: the main thread broadcasts an input change to the peers,
  one after another, while liblo's server thread handles messages that add peers.  The map of the
  peers is shared; nothing is ever removed from it, so the iterator of the broadcast stays valid.
\<close>

section \<open>Steps\<close>

text \<open>The broadcast that is under way, if one is: its iterator, \<open>None\<close> for \<open>end()\<close>, and its bundle.\<close>

record ('rb, 'j) session_threads =
  st_session :: "('rb, 'j) nsh"
  st_broadcast :: "(string option \<times> osc_msg list) option"

text \<open>Up to the loop over the peers.\<close>

definition begin_broadcast ::
    "('rb, 'j) ns_env \<Rightarrow> f1_input_change \<Rightarrow> ('rb, 'j) session_threads \<Rightarrow> ('rb, 'j) session_threads res" where
  "begin_broadcast env changes t = (let s = st_session t in
     bind_res (if ns_jack_midi s then (case ns_jack s of
           None \<Rightarrow> Inl Assert_failed
         | Some p \<Rightarrow> bind_res (push_event (en_ring env) changes p) (\<lambda>p'. Inr (s\<lparr>ns_jack := Some p'\<rparr>)))
       else Inr s) (\<lambda>s1.
     Inr \<lparr>st_session = s1, st_broadcast = Some (map_begin (ns_peers s1), change_bundle changes)\<rparr>))"

text \<open>One turn of the loop, or its end.\<close>

definition broadcast_next :: "('rb, 'j) session_threads \<Rightarrow> ('rb, 'j) session_threads res" where
  "broadcast_next t = (case st_broadcast t of
     None \<Rightarrow> Inr t
   | Some (None, bundle) \<Rightarrow> Inr (t\<lparr>st_broadcast := None\<rparr>)
   | Some (Some k, bundle) \<Rightarrow> (case map_of (ns_peers (st_session t)) k of
       None \<Rightarrow> Inl Undefined_behaviour
     | Some peer \<Rightarrow> Inr \<lparr>st_session = np_send bundle peer (st_session t),
         st_broadcast = Some (map_next k (ns_peers (st_session t)), bundle)\<rparr>))"

text \<open>What happens from the begin of a broadcast on: messages arrive, and the loop takes its turns.\<close>

inductive broadcasting ::
    "('rb, 'j) ns_env \<Rightarrow> ('rb, 'j) session_threads \<Rightarrow> ('rb, 'j) session_threads \<Rightarrow> bool" for env t0 where
  begins: "broadcasting env t0 t0"
| arrives: "broadcasting env t0 t \<Longrightarrow> dispatch env source msg (st_session t) = Inr s' \<Longrightarrow>
    broadcasting env t0 (t\<lparr>st_session := s'\<rparr>)"
| sends: "broadcasting env t0 t \<Longrightarrow> broadcast_next t = Inr t' \<Longrightarrow> broadcasting env t0 t'"

section \<open>Handlers only add\<close>

text \<open>Messages sent stay sent, and peers stay known, with the same address.\<close>

definition grows :: "('rb, 'j) nsh \<Rightarrow> ('rb, 'j) nsh \<Rightarrow> bool" where
  "grows s s' \<longleftrightarrow> (\<exists>ms. ns_sent s' = ns_sent s @ ms) \<and>
     (\<forall>k p. map_of (ns_peers s) k = Some p \<longrightarrow> (\<exists>p'. map_of (ns_peers s') k = Some p' \<and> np_url p' = np_url p))"

lemma grows_trans: "grows s t \<Longrightarrow> grows t u \<Longrightarrow> grows s u"
  unfolding grows_def by (metis append.assoc)

lemma grows_same: "ns_peers s' = ns_peers s \<Longrightarrow> ns_sent s' = ns_sent s @ ms \<Longrightarrow> grows s s'"
  by (simp add: grows_def)

definition grows_to :: "('rb, 'j) nsh \<Rightarrow> ('rb, 'j) nsh res \<Rightarrow> bool" where
  "grows_to s r \<longleftrightarrow> (\<forall>s'. r = Inr s' \<longrightarrow> grows s s')"

lemma grows_to_simps [simp]: "grows_to s (Inr s') \<longleftrightarrow> grows s s'" "grows_to s (Inl e)"
  by (simp_all add: grows_to_def)

lemma grows_to_bind: "(\<And>x. m = Inr x \<Longrightarrow> grows_to s (k x)) \<Longrightarrow> grows_to s (bind_res m k)"
  by (cases m) simp_all

lemma grows_to_trans: "grows s t \<Longrightarrow> grows_to t r \<Longrightarrow> grows_to s r"
  by (auto simp: grows_to_def intro: grows_trans)

lemma step_peers: "step_state_machine env s = Inr s' \<Longrightarrow> ns_peers s' = ns_peers s"
proof (induction env s rule: step_state_machine.induct)
  case (1 env s)
  then show ?case
    by (cases "ns_state s") (auto simp: send_signal_list_Inr send_announce_def send_hello_def split: if_splits)
qed

lemma grows_step: "grows_to s (step_state_machine env s)"
proof (cases "step_state_machine env s")
  case (Inr s')
  then obtain ms where "ns_sent s' = ns_sent s @ ms" using step_outcome_any [of s env] by (auto simp: step_outcome_def)
  from grows_same [OF step_peers [OF Inr] this] Inr show ?thesis by simp
qed simp

lemma grows_after: "ns_peers t = ns_peers s \<Longrightarrow> ns_sent t = ns_sent s @ ms \<Longrightarrow> grows_to s (step_state_machine env t)"
  by (rule grows_to_trans [OF grows_same grows_step])

lemma grows_open: "grows_to s (handle_open env c s)"
proof -
  have fin: "grows_to s (finish_open env t)" "grows s ((emit m t)\<lparr>ns_state := FAILED\<rparr>)"
    if "ns_peers t = ns_peers s" "ns_sent t = ns_sent s" for t m
    unfolding finish_open_def using that by (auto intro: grows_after grows_same)
  show ?thesis
  proof (cases "ns_jack_midi s")
    case True
    show ?thesis unfolding handle_open_def Let_def using True
    proof (simp, intro grows_to_bind)
      fix t assume "reset_jack env c (s\<lparr>ns_client_id := c\<rparr>) = Inr t"
      then have t: "jack_frame (s\<lparr>ns_client_id := c\<rparr>) t" by (rule reset_jack_frame)
      obtain u r where u: "connect_jack env t = (u, r)" by fastforce
      have f: "jack_frame t u" by (rule connect_jack_frame [OF jack_frameD(9) [OF t] u])
      have "ns_peers u = ns_peers s" "ns_sent u = ns_sent s" using jack_frameD(4, 8) [OF t] jack_frameD(4, 8) [OF f] by simp_all
      from fin [OF this] u show "grows_to s (case connect_jack env t of (s3, Inl Jack_error) \<Rightarrow>
            Inr ((emit (To_server (''/error'', [Str NSM_OPEN, I32 (-10), Str ''JackClientException whilst opening''])) s3)
              \<lparr>ns_state := FAILED\<rparr>)
          | (s3, Inl e) \<Rightarrow> Inl e | (s3, Inr _) \<Rightarrow> finish_open env s3)"
        by (auto split: sum.splits failure.splits)
    qed
  next
    case False
    then show ?thesis using fin [of "s\<lparr>ns_client_id := c\<rparr>"] by (simp add: handle_open_def)
  qed
qed

lemma grows_hello: "grows_to s (handle_hello env u n v c s)"
proof (cases "peer_is_known s c")
  case False
  then have "map_of (ns_peers s) c = None" by (simp add: peer_is_known_def)
  then have "grows s (s\<lparr>ns_peers := map_emplace c (np_new c n v u) (ns_peers s)\<rparr>)"
    by (auto simp: grows_def map_of_emplace)
  from grows_to_trans [OF this grows_step] False show ?thesis by (simp add: handle_hello_def del: step_simps)
qed (simp add: handle_hello_def)

lemma grows_list_reply: "grows_to s (handle_signal_list_reply path mn mx d s)"
proof -
  have "grows s (s\<lparr>ns_peers := map_set k (register_signal sig p) (ns_peers s)\<rparr>)" if "current_peer s = Inr (k, p)" for k p sig
    using that by (auto simp: grows_def map_of_map_set current_peer_def register_signal_def split: option.splits)
  then show ?thesis by (auto simp: handle_signal_list_reply_def intro!: grows_to_bind)
qed

lemma grows_handlers:
  "grows_to s (handle_list_end path s)" "grows_to s (handle_announce_reply env path caps s)" "grows_to s (handle_error env path s)"
  "grows s (handle_save s)" "grows_to s (handle_signal_list env source s)" "grows s s"
  by (auto simp: handle_list_end_def handle_announce_reply_def handle_error_def handle_save_def handle_signal_list_def
      assert_server_announce_matches_required_capabilities_def NSM_REQUIRED_SERVER_CAPABILITIES_def
      simp del: step_simps intro!: grows_to_bind grows_after grows_same)

lemma grows_dispatch: "grows_to s (dispatch env source msg s)"
  unfolding dispatch_def
  by (auto split: prod.splits list.splits osc_arg.splits if_splits simp: grows_handlers(4, 6)
      intro!: grows_handlers(1-3, 5) grows_open grows_hello grows_list_reply)

section \<open>The iterator\<close>

lemma map_begin_least:
  assumes "sorted_wrt (<) (map fst m)" "map_of m k = Some v"
  shows "\<exists>b. map_begin m = Some b \<and> b \<le> (k :: string) \<and> map_of m b \<noteq> None"
proof -
  have "k \<in> fst ` set m" using assms(2) by (metis domI dom_map_of_conv_image_fst)
  with assms(1) show ?thesis by (cases m) (auto simp: map_begin_def)
qed

lemma map_next_known:
  assumes "map_next it m = Some b"
  shows "map_of m b \<noteq> None"
proof -
  obtain v rest where "dropWhile (\<lambda>(k', _). k' \<le> it) m = (b, v) # rest"
    using assms by (auto simp: map_next_def map_begin_def split: list.splits)
  then have "(b, v) \<in> set m" using set_dropWhileD by (metis list.set_intros(1))
  then show ?thesis by (auto dest: weak_map_of_SomeI)
qed

lemma map_of_dropWhile: "it < k \<Longrightarrow> map_of (dropWhile (\<lambda>(k', _). k' \<le> it) m) k = map_of m (k :: string)"
  by (induction m) auto

lemma map_next_least:
  assumes "sorted_wrt (<) (map fst m)" "map_of m k = Some v" "it < k"
  shows "\<exists>b. map_next it m = Some b \<and> b \<le> (k :: string)"
proof -
  have "map fst (dropWhile (\<lambda>(k', _). k' \<le> it) m) = dropWhile (\<lambda>k'. k' \<le> it) (map fst m)"
    by (simp add: dropWhile_map comp_def case_prod_unfold)
  then have "sorted_wrt (<) (map fst (dropWhile (\<lambda>(k', _). k' \<le> it) m))"
    using assms(1) by (simp add: sorted_wrt_dropWhile)
  from map_begin_least [OF this] map_of_dropWhile [OF assms(3), of m] assms(2) show ?thesis by (auto simp: map_next_def)
qed

lemma map_begin_known: "map_begin m = Some b \<Longrightarrow> map_of m b \<noteq> None"
  by (auto simp: map_begin_def split: list.splits)

section \<open>The broadcast\<close>

lemma begin_broadcast_session:
  assumes "begin_broadcast env changes t = Inr t0" "session_inv (st_session t)"
  shows "session_inv (st_session t0) \<and> ns_peers (st_session t0) = ns_peers (st_session t) \<and> ns_sent (st_session t0) = ns_sent (st_session t) \<and>
    st_broadcast t0 = Some (map_begin (ns_peers (st_session t)), change_bundle changes)"
proof -
  have "session_inv ((st_session t)\<lparr>ns_jack := Some q\<rparr>)" for q by (rule session_inv_cong [OF assms(2)]) simp_all
  with assms show ?thesis
    by (auto simp: begin_broadcast_def Let_def bind_res_Inr_iff split: option.splits if_splits)
qed

text \<open>The peers of \<open>s\<close> that the loop has passed got the bundle; those from the iterator on are still to come.\<close>

definition broadcast_inv :: "('rb, 'j) nsh \<Rightarrow> osc_msg list \<Rightarrow> ('rb, 'j) session_threads \<Rightarrow> bool" where
  "broadcast_inv s bundle t \<longleftrightarrow> session_inv (st_session t) \<and> grows s (st_session t) \<and>
     (\<forall>it b. st_broadcast t = Some (it, b) \<longrightarrow> b = bundle) \<and>
     (\<forall>k b. st_broadcast t = Some (Some k, b) \<longrightarrow> map_of (ns_peers (st_session t)) k \<noteq> None) \<and>
     (\<forall>k p. map_of (ns_peers s) k = Some p \<longrightarrow> (\<exists>it b. st_broadcast t = Some (Some it, b) \<and> it \<le> k) \<or>
        Bundle_to (np_url p) bundle \<in> set (drop (length (ns_sent s)) (ns_sent (st_session t))))"

lemma session_inv_emit: "session_inv (emit (Bundle_to u b) s) \<longleftrightarrow> session_inv s"
  by (simp add: session_inv_def phase_ok_def peers_ok_def split: session_state.split)

lemma grows_emit: "grows s t \<Longrightarrow> grows s (emit m t)"
  by (rule grows_trans [OF _ grows_same]) auto

lemma grows_sent: "grows s t \<Longrightarrow> grows t u \<Longrightarrow> set (drop (length (ns_sent s)) (ns_sent t)) \<subseteq> set (drop (length (ns_sent s)) (ns_sent u))"
  by (auto simp: grows_def)

lemma broadcast_inv_arrives:
  assumes "broadcast_inv s bundle t" "dispatch env source msg (st_session t) = Inr s'"
  shows "broadcast_inv s bundle (t\<lparr>st_session := s'\<rparr>)"
proof -
  have g: "grows (st_session t) s'" using grows_dispatch [of "st_session t" env source msg] assms(2) by simp
  have i: "session_inv s'" using keeps_dispatch [of "st_session t" env source msg] assms by (simp add: broadcast_inv_def)
  have known: "map_of (ns_peers (st_session t)) k \<noteq> None \<Longrightarrow> map_of (ns_peers s') k \<noteq> None" for k
    using g by (fastforce simp: grows_def)
  have s: "grows s (st_session t)" using assms(1) by (simp add: broadcast_inv_def)
  show ?thesis
    using assms(1) i known grows_trans [OF s g] grows_sent [OF s g] unfolding broadcast_inv_def
    by simp blast
qed

lemma broadcast_inv_sends:
  assumes "broadcast_inv s bundle t"
  shows "\<exists>t'. broadcast_next t = Inr t' \<and> broadcast_inv s bundle t'"
proof -
  consider "st_broadcast t = None" | b where "st_broadcast t = Some (None, b)" | k b where "st_broadcast t = Some (Some k, b)"
    by (cases "st_broadcast t") (auto, metis not_None_eq)
  then show ?thesis
  proof cases
    case (3 k b)
    let ?s = "st_session t"
    obtain peer where peer: "map_of (ns_peers ?s) k = Some peer" using assms 3 by (auto simp: broadcast_inv_def)
    have b: "b = bundle" using assms 3 by (auto simp: broadcast_inv_def)
    let ?s' = "emit (Bundle_to (np_url peer) b) ?s"
    let ?t' = "\<lparr>st_session = ?s', st_broadcast = Some (map_next k (ns_peers ?s), b)\<rparr>"
    have g: "grows s ?s" "session_inv ?s" using assms by (simp_all add: broadcast_inv_def)
    have sorted: "sorted_wrt (<) (map fst (ns_peers ?s))" using g(2) by (simp add: session_inv_def peers_ok_def)
    have "(\<exists>it b. st_broadcast ?t' = Some (Some it, b) \<and> it \<le> k') \<or>
        Bundle_to (np_url p) bundle \<in> set (drop (length (ns_sent s)) (ns_sent ?s'))" if k': "map_of (ns_peers s) k' = Some p" for k' p
    proof -
      obtain p' where p': "map_of (ns_peers ?s) k' = Some p'" "np_url p' = np_url p" using g(1) k' by (auto simp: grows_def)
      have len: "length (ns_sent s) \<le> length (ns_sent ?s)" using g(1) by (auto simp: grows_def)
      consider "k' = k" | "k < k'" | "k' < k" by (metis linorder_cases)
      then show ?thesis
      proof cases
        case 1
        with peer p' b len show ?thesis by simp
      next
        case 2
        from map_next_least [OF sorted p'(1) this] show ?thesis by auto
      next
        case 3
        then have "\<not> k \<le> k'" by (simp add: leD)
        with assms k' \<open>st_broadcast t = Some (Some k, b)\<close>
        have "Bundle_to (np_url p) bundle \<in> set (drop (length (ns_sent s)) (ns_sent ?s))"
          unfolding broadcast_inv_def by fastforce
        then show ?thesis using len by simp
      qed
    qed
    then have "broadcast_inv s bundle ?t'"
      using g b map_next_known by (auto simp: broadcast_inv_def session_inv_emit grows_emit)
    with 3 peer show ?thesis by (simp add: broadcast_next_def)
  qed (use assms in \<open>auto simp: broadcast_next_def broadcast_inv_def\<close>)
qed

lemma broadcast_inv_begins:
  assumes "session_inv (st_session t)" "begin_broadcast env changes t = Inr t0"
  shows "broadcast_inv (st_session t) (change_bundle changes) t0"
proof -
  note b = begin_broadcast_session [OF assms(2, 1)]
  have sorted: "sorted_wrt (<) (map fst (ns_peers (st_session t)))" using assms(1) by (simp add: session_inv_def peers_ok_def)
  from b have "grows (st_session t) (st_session t0)" by (auto intro: grows_same)
  with b map_begin_known map_begin_least [OF sorted] show ?thesis unfolding broadcast_inv_def by simp blast
qed

lemma broadcasting_inv:
  assumes "broadcast_inv s bundle t0"
  shows "broadcasting env t0 t \<Longrightarrow> broadcast_inv s bundle t"
proof (induction rule: broadcasting.induct)
  case begins
  then show ?case by (rule assms)
next
  case (arrives t source msg s')
  then show ?case using broadcast_inv_arrives by blast
next
  case (sends t t')
  then show ?case using broadcast_inv_sends [of s _ t] by auto
qed

section \<open>Properties\<close>


definition stop_change :: f1_input_change where
  "stop_change = no_change\<lparr>pressed_buttons := \<lparr>bd_matrix = [], bd_stop = [3], bd_special = []\<rparr>\<rparr>"

text \<open>A peer introduces itself after the broadcast began; both get the change.\<close>

definition sample_broadcasting :: "(ring, client_call list) nsh \<Rightarrow> (ring, client_call list) session_threads res" where
  "sample_broadcasting s = bind_res (begin_broadcast ok_env stop_change \<lparr>st_session = s, st_broadcast = None\<rparr>) (\<lambda>t0.
     bind_res (dispatch ok_env [] (hello_msg ''b'') (st_session t0)) (\<lambda>s1.
     bind_res (broadcast_next (t0\<lparr>st_session := s1\<rparr>)) (\<lambda>t1. bind_res (broadcast_next t1) broadcast_next)))"


end
