(* ===== verification/Session_Peers.thy ===== *)
theory Session_Peers
  imports Non_Session
begin

text \<open>
  How a running session gets to know its peers (\<open>NonSessionHandler\<close>, \<open>driver-osc\<close>): the messages of a
  peer that introduces itself, answers the request for its signals and ends its list.
\<close>

section \<open>Introductions\<close>

definition hello_of :: "non_peer \<Rightarrow> osc_msg" where
  "hello_of p = (NSM_HELLO, [Str (np_url p), Str (np_name p), Str (np_version p), Str (np_id p)])"

text \<open>The form of a signal that the handler of \<open>driver-osc\<close> understands.\<close>

definition signal_of :: "non_signal \<Rightarrow> osc_msg" where
  "signal_of sig = (''/reply'', [Str OSC_SIGNAL_LIST, Str (sig_path sig), Flt (sig_min sig), Flt (sig_max sig), Flt (sig_default sig)])"

definition introduction :: "non_peer \<Rightarrow> (string \<times> osc_msg) list" where
  "introduction p = (np_url p, hello_of p) # map (\<lambda>sig. (np_url p, signal_of sig)) (np_signals p) @
     [(np_url p, (''/reply'', [Str OSC_SIGNAL_LIST]))]"

definition receive :: "('rb, 'j) ns_env \<Rightarrow> (string \<times> osc_msg) list \<Rightarrow> ('rb, 'j) nsh \<Rightarrow> ('rb, 'j) nsh res" where
  "receive env msgs s = fold_res (\<lambda>(source, msg). dispatch env source msg) msgs s"

text \<open>A running session that has asked every peer it knows, the last one last.\<close>

definition all_asked :: "('rb, 'j) nsh \<Rightarrow> bool" where
  "all_asked s \<longleftrightarrow> ns_state s = RUNNING \<and> ns_handshaked_peers s = length (ns_peers s) \<and>
     ns_current_peer s = (if ns_peers s = [] then None else Some (fst (last (ns_peers s))))"

section \<open>The map of peers\<close>

lemma emplace_last: "\<forall>k' \<in> fst ` set m. k' < k \<Longrightarrow> map_emplace k v m = m @ [(k, v)]"
  by (induction k v m rule: map_emplace.induct) auto

lemma map_set_last: "k \<notin> fst ` set m \<Longrightarrow> map_set k v (m @ [(k, v0)]) = m @ [(k, v)]"
  by (induction m) auto

lemma map_of_last: "k \<notin> fst ` set m \<Longrightarrow> map_of (m @ [(k, v)]) k = Some v"
  by (induction m) auto

lemma next_last:
  assumes "m \<noteq> []" "sorted_wrt (<) (map fst m)" "\<forall>k' \<in> fst ` set m. k' < k"
  shows "map_next (fst (last m)) (m @ [(k, v)]) = Some k"
proof -
  have le: "k' \<le> fst (last m)" if "(k', x) \<in> set m" for k' x
  proof -
    obtain m0 y where m: "m = m0 @ [y]" using assms(1) by (metis rev_exhaust)
    with assms(2) that show ?thesis by (force simp: sorted_wrt_append)
  qed
  have "fst (last m) < k" using assms(1, 3) by simp
  then have "dropWhile (\<lambda>(k', _). k' \<le> fst (last m)) (m @ [(k, v)]) = [(k, v)]"
    using le by (subst dropWhile_append2) auto
  then show ?thesis by (simp add: map_next_def map_begin_def)
qed

section \<open>One introduction\<close>

lemma receive_Cons: "receive env ((source, msg) # msgs) s = bind_res (dispatch env source msg s) (receive env msgs)"
  by (cases "dispatch env source msg s") (simp_all add: receive_def)

lemma receive_append: "receive env (xs @ ys) s = bind_res (receive env xs s) (receive env ys)"
  by (cases "receive env xs s") (simp_all add: receive_def fold_res_append)

lemma receive_Nil [simp]: "receive env [] s = Inr s"
  by (simp add: receive_def)

lemma receive_hello:
  assumes "all_asked s" "sorted_wrt (<) (map fst (ns_peers s))" "\<forall>k \<in> fst ` set (ns_peers s). k < np_id p"
    and "en_valid env (np_url p)" "0 \<le> en_send env (np_url p) (OSC_SIGNAL_LIST, [])"
  shows "dispatch env source (hello_of p) s = Inr (emit (To_peer (np_url p) (OSC_SIGNAL_LIST, []))
    (s\<lparr>ns_peers := ns_peers s @ [(np_id p, p\<lparr>np_signals := []\<rparr>)], ns_current_peer := Some (np_id p), ns_state := PEER_AWAIT_SIGNAL_LIST\<rparr>))"
proof -
  let ?q = "p\<lparr>np_signals := []\<rparr>"
  let ?s1 = "s\<lparr>ns_peers := ns_peers s @ [(np_id p, ?q)]\<rparr>"
  have new: "np_new (np_id p) (np_name p) (np_version p) (np_url p) = ?q" by (simp add: np_new_def)
  have notin: "np_id p \<notin> fst ` set (ns_peers s)" using assms(3) by auto
  then have unknown: "map_of (ns_peers s) (np_id p) = None" by (simp add: map_of_eq_None_iff)
  have current: "(case ns_current_peer s of None \<Rightarrow> map_begin (ns_peers s @ [(np_id p, ?q)])
      | Some k \<Rightarrow> map_next k (ns_peers s @ [(np_id p, ?q)])) = Some (np_id p)"
    using assms(1) next_last [OF _ assms(2, 3)] by (cases "ns_peers s = []") (simp_all add: all_asked_def map_begin_def)
  have "dispatch env source (hello_of p) s = handle_hello env (np_url p) (np_name p) (np_version p) (np_id p) s"
    by (simp add: dispatch_def hello_of_def osc_paths)
  also have "\<dots> = step_state_machine env (s\<lparr>ns_peers := ns_peers s @ [(np_id p, ?q)]\<rparr>)"
    using unknown emplace_last [OF assms(3)] by (simp add: handle_hello_def peer_is_known_def new np_copy_eq)
  also have "\<dots> = send_signal_list env (?s1\<lparr>ns_current_peer := Some (np_id p), ns_state := PEER_AWAIT_SIGNAL_LIST\<rparr>)"
  proof -
    have c: "(case ns_current_peer ?s1 of None \<Rightarrow> map_begin (ns_peers ?s1) | Some k \<Rightarrow> map_next k (ns_peers ?s1)) = Some (np_id p)"
      using current by (cases "ns_current_peer s") simp_all
    have "ns_state ?s1 = RUNNING" "ns_handshaked_peers ?s1 < length (ns_peers ?s1)" using assms(1) by (simp_all add: all_asked_def)
    then show ?thesis using step_simps(8) [of ?s1 env] unfolding c by simp
  qed
  also have "\<dots> = Inr (emit (To_peer (np_url p) (OSC_SIGNAL_LIST, [])) (?s1\<lparr>ns_current_peer := Some (np_id p), ns_state := PEER_AWAIT_SIGNAL_LIST\<rparr>))"
    using assms(4, 5) unknown
    by (simp add: send_signal_list_def current_peer_def fetch_signal_list_def map_add_def)
  finally show ?thesis .
qed

lemma receive_signals:
  assumes "ns_state s = PEER_AWAIT_SIGNAL_LIST" "ns_peers s = ps @ [(k, q)]" "k \<notin> fst ` set ps" "ns_current_peer s = Some k"
    and "\<forall>sig \<in> set sigs. sig_direction sig = Dir_out"
  shows "receive env (map (\<lambda>sig. (u, signal_of sig)) sigs) s =
    Inr (s\<lparr>ns_peers := ps @ [(k, q\<lparr>np_signals := np_signals q @ sigs\<rparr>)]\<rparr>)"
  using assms
proof (induction sigs arbitrary: s q)
  case (Cons sig sigs)
  let ?q = "register_signal sig q"
  let ?s = "s\<lparr>ns_peers := ps @ [(k, ?q)]\<rparr>"
  have sig: "\<lparr>sig_path = sig_path sig, sig_min = sig_min sig, sig_max = sig_max sig, sig_default = sig_default sig, sig_direction = Dir_out\<rparr> = sig"
    using Cons.prems(5) by (simp add: non_signal.equality)
  have "dispatch env u (signal_of sig) s = Inr ?s"
    using Cons.prems(2-4) map_of_last [OF Cons.prems(3)] map_set_last [OF Cons.prems(3)] sig
    by (simp add: dispatch_def signal_of_def handle_signal_list_reply_def current_peer_def)
  with Cons.IH [of ?s ?q] Cons.prems show ?case by (simp add: receive_Cons register_signal_def)
qed simp

lemma receive_introduction:
  assumes "all_asked s" "sorted_wrt (<) (map fst (ns_peers s))" "\<forall>k \<in> fst ` set (ns_peers s). k < np_id p"
    and "en_valid env (np_url p)" "0 \<le> en_send env (np_url p) (OSC_SIGNAL_LIST, [])"
    and "\<forall>sig \<in> set (np_signals p). sig_direction sig = Dir_out"
  shows "\<exists>s'. receive env (introduction p) s = Inr s' \<and> all_asked s' \<and> ns_peers s' = ns_peers s @ [(np_id p, p)] \<and>
    ns_sent s' = ns_sent s @ [To_peer (np_url p) (OSC_SIGNAL_LIST, [])]"
proof -
  let ?s1 = "emit (To_peer (np_url p) (OSC_SIGNAL_LIST, []))
    (s\<lparr>ns_peers := ns_peers s @ [(np_id p, p\<lparr>np_signals := []\<rparr>)], ns_current_peer := Some (np_id p), ns_state := PEER_AWAIT_SIGNAL_LIST\<rparr>)"
  let ?s2 = "?s1\<lparr>ns_peers := ns_peers s @ [(np_id p, p)]\<rparr>"
  have notin: "np_id p \<notin> fst ` set (ns_peers s)" using assms(3) by auto
  have "receive env (map (\<lambda>sig. (np_url p, signal_of sig)) (np_signals p)) ?s1 = Inr ?s2"
    using receive_signals [of ?s1 "ns_peers s" "np_id p" "p\<lparr>np_signals := []\<rparr>" "np_signals p" env "np_url p"] notin assms(6) by simp
  then have "receive env (introduction p) s = dispatch env (np_url p) (''/reply'', [Str OSC_SIGNAL_LIST]) ?s2"
    using receive_hello [OF assms(1-5)] by (simp add: introduction_def receive_Cons receive_append bind_res_def split: sum.split)
  also have "\<dots> = Inr (?s2\<lparr>ns_state := RUNNING, ns_handshaked_peers := ns_handshaked_peers s + 1\<rparr>)"
    by (simp add: dispatch_def handle_list_end_def)
  finally show ?thesis using assms(1) by (auto simp: all_asked_def)
qed

lemma receive_introductions:
  assumes "\<forall>p \<in> set ps. en_valid env (np_url p) \<and> 0 \<le> en_send env (np_url p) (OSC_SIGNAL_LIST, []) \<and>
      (\<forall>sig \<in> set (np_signals p). sig_direction sig = Dir_out)"
  shows "all_asked s \<Longrightarrow> sorted_wrt (<) (map fst (ns_peers s) @ map np_id ps) \<Longrightarrow>
    \<exists>s'. receive env (concat (map introduction ps)) s = Inr s' \<and> all_asked s' \<and>
      ns_peers s' = ns_peers s @ map (\<lambda>p. (np_id p, p)) ps \<and>
      ns_sent s' = ns_sent s @ map (\<lambda>p. To_peer (np_url p) (OSC_SIGNAL_LIST, [])) ps"
  using assms
proof (induction ps arbitrary: s)
  case (Cons p ps)
  obtain s1 where s1: "receive env (introduction p) s = Inr s1" "all_asked s1" "ns_peers s1 = ns_peers s @ [(np_id p, p)]"
      "ns_sent s1 = ns_sent s @ [To_peer (np_url p) (OSC_SIGNAL_LIST, [])]"
    using receive_introduction [OF Cons.prems(1), of p env] Cons.prems(2, 3) by (auto simp: sorted_wrt_append)
  have "sorted_wrt (<) (map fst (ns_peers s1) @ map np_id ps)" using Cons.prems(2) s1(3) by simp
  from Cons.IH [OF s1(2) this] Cons.prems(3) obtain s2 where s2: "receive env (concat (map introduction ps)) s1 = Inr s2" "all_asked s2"
      "ns_peers s2 = ns_peers s1 @ map (\<lambda>p. (np_id p, p)) ps"
      "ns_sent s2 = ns_sent s1 @ map (\<lambda>p. To_peer (np_url p) (OSC_SIGNAL_LIST, [])) ps"
    by auto
  with s1 show ?case by (simp add: receive_append)
qed simp

section \<open>From the start\<close>

definition handshake :: "string \<Rightarrow> string \<Rightarrow> string \<Rightarrow> string \<Rightarrow> string \<Rightarrow> (string \<times> osc_msg) list" where
  "handshake server caps path display client_id =
     [(server, (''/reply'', [Str NSM_ANNOUNCE, Str [], Str [], Str caps])),
      (server, (NSM_OPEN, [Str path, Str display, Str client_id]))]"

definition handshake_sent :: "('rb, 'j) ns_env \<Rightarrow> string \<Rightarrow> string \<Rightarrow> osc_out list" where
  "handshake_sent env exe client_id = [
     To_server (NSM_ANNOUNCE, [Str NSM_CLIENT_NAME, Str NSM_CLIENT_CAPABILITIES, Str exe, I32 1, I32 2, I32 (en_pid env)]),
     To_server (''/reply'', [Str NSM_OPEN, Str ''NOP'']),
     To_server (NSM_BROADCAST, [Str NSM_HELLO, Str (en_url env), Str NSM_CLIENT_NAME, Str (en_version env), Str client_id])]"

lemma session_opens:
  assumes "sublist ''broadcast'' caps"
  shows "\<exists>s. bind_res (start_session env (nsh_new exe signals False j)) (receive env (handshake server caps path display client_id)) = Inr s \<and>
    all_asked s \<and> ns_peers s = [] \<and> ns_signals s = signals \<and> ns_sent s = handshake_sent env exe client_id"
  using assms
  by (simp add: start_session_def nsh_new_def receive_def handshake_def dispatch_def osc_paths handle_announce_reply_def
      assert_server_announce_matches_required_capabilities_def NSM_REQUIRED_SERVER_CAPABILITIES_def handle_open_def
      finish_open_def send_announce_def send_hello_def emit_def all_asked_def handshake_sent_def)

section \<open>Properties\<close>


definition sample_peer :: "string \<Rightarrow> non_peer" where
  "sample_peer c = \<lparr>np_id = c, np_name = ''synth'', np_version = ''1'', np_url = ''osc.udp://'' @ c,
     np_signals = [out_signal ''/out/'' 0, out_signal ''/out/'' 1]\<rparr>"


end
