(* ===== verification/Session_Progress.thy ===== *)
theory Session_Progress
  imports Non_Session
begin

text \<open>
  What a message can do to a session.  \<open>NonSessionHandler::State\<close> is an \<open>enum class : int\<close> whose
  enumerators stand in the order of the protocol, with \<open>FAILED\<close> last: the states are ordered like
  their values, and messages move a session up.
\<close>

section \<open>The order of the states\<close>

fun state_value :: "session_state \<Rightarrow> int" where
  "state_value NO_SESSION = 0"
| "state_value HANDSHAKE_START = 1"
| "state_value HANDSHAKE_AWAIT_REPLY = 2"
| "state_value SESSION_AWAIT_OPEN = 3"
| "state_value HELLO_START = 4"
| "state_value PEER_AWAIT_SIGNAL_LIST = 5"
| "state_value RUNNING = 6"
| "state_value FAILED = 7"

lemma state_value_inj: "state_value s = state_value t \<Longrightarrow> s = t"
  by (cases s; cases t) simp_all

instantiation session_state :: linorder
begin

definition less_eq_session_state where
  "s \<le> t \<longleftrightarrow> state_value s \<le> state_value t"

definition less_session_state where
  "s < t \<longleftrightarrow> state_value s < state_value t"

instance
  by standard (auto simp: less_eq_session_state_def less_session_state_def intro: state_value_inj)

end

lemmas state_order = less_eq_session_state_def less_session_state_def

lemma state_at_most_failed [simp]: "s \<le> FAILED"
  by (cases s) (simp_all add: state_order)

lemma failed_at_most [simp]: "FAILED \<le> s \<longleftrightarrow> s = FAILED"
  by (cases s) (simp_all add: state_order)

section \<open>Progress\<close>

text \<open>
  From one state to a later one: up in the order, or from \<open>RUNNING\<close> back to the next peer; and the
  peers and the peers done, which a step leaves alone, except as \<open>new\<close> and \<open>fin\<close> say.
\<close>

definition moves_up :: "session_state \<Rightarrow> session_state \<Rightarrow> bool" where
  "moves_up s t \<longleftrightarrow> s \<le> t \<or> s = RUNNING \<and> t = PEER_AWAIT_SIGNAL_LIST"

lemma moves_up_refl [simp]: "moves_up s s"
  by (simp add: moves_up_def)

lemma moves_up_failed [simp]: "moves_up s FAILED" "moves_up FAILED s \<longleftrightarrow> s = FAILED"
  by (auto simp: moves_up_def)

definition advances :: "('rb, 'j) nsh \<Rightarrow> ('rb, 'j) nsh \<Rightarrow> bool" where
  "advances s s' \<longleftrightarrow> moves_up (ns_state s) (ns_state s') \<and> ns_peers s' = ns_peers s \<and>
     ns_handshaked_peers s' = ns_handshaked_peers s"

definition advances_to :: "('rb, 'j) nsh \<Rightarrow> ('rb, 'j) nsh res \<Rightarrow> bool" where
  "advances_to s r \<longleftrightarrow> (\<forall>s'. r = Inr s' \<longrightarrow> advances s s')"

lemma advances_to_simps [simp]: "advances_to s (Inr s') \<longleftrightarrow> advances s s'" "advances_to s (Inl e)"
  by (simp_all add: advances_to_def)

lemma advances_to_bind: "(\<And>x. m = Inr x \<Longrightarrow> advances_to s (k x)) \<Longrightarrow> advances_to s (bind_res m k)"
  by (cases m) simp_all

lemma step_advances: "advances_to s (step_state_machine env s)"
proof -
  have "advances s s'" if "step_state_machine env s = Inr s'" for s'
    using that by (cases "ns_state s") (auto simp: send_signal_list_Inr send_announce_def send_hello_def advances_def moves_up_def
        state_order split: if_splits)
  then show ?thesis by (simp add: advances_to_def)
qed

section \<open>Messages\<close>

definition known :: "('rb, 'j) nsh \<Rightarrow> string set" where
  "known s = set (map fst (ns_peers s))"

text \<open>What one message does: at most one new peer, at most one more peer done.\<close>

definition progress :: "('rb, 'j) nsh \<Rightarrow> ('rb, 'j) nsh \<Rightarrow> bool" where
  "progress s s' \<longleftrightarrow> moves_up (ns_state s) (ns_state s') \<and> (known s' = known s \<or> (\<exists>c. known s' = insert c (known s))) \<and>
     (ns_handshaked_peers s' = ns_handshaked_peers s \<or>
      ns_handshaked_peers s' = ns_handshaked_peers s + 1 \<and> ns_state s = PEER_AWAIT_SIGNAL_LIST \<and> ns_state s' = RUNNING)"

definition progress_to :: "('rb, 'j) nsh \<Rightarrow> ('rb, 'j) nsh res \<Rightarrow> bool" where
  "progress_to s r \<longleftrightarrow> (\<forall>s'. r = Inr s' \<longrightarrow> progress s s')"

lemma progress_to_simps [simp]: "progress_to s (Inr s') \<longleftrightarrow> progress s s'" "progress_to s (Inl e)"
  by (simp_all add: progress_to_def)

lemma progress_to_bind: "(\<And>x. m = Inr x \<Longrightarrow> progress_to s (k x)) \<Longrightarrow> progress_to s (bind_res m k)"
  by (cases m) simp_all

text \<open>A step of the state machine after something that left the state, or failed it.\<close>

lemma progress_step:
  assumes "ns_state t = ns_state s \<or> ns_state t = FAILED" "known t = known s \<or> (\<exists>c. known t = insert c (known s))"
    and "ns_handshaked_peers t = ns_handshaked_peers s"
  shows "progress_to s (step_state_machine env t)"
proof -
  have "progress s s'" if "advances t s'" for s'
    using that assms by (auto simp: advances_def progress_def known_def)
  with step_advances [of t env] show ?thesis by (auto simp: advances_to_def progress_to_def)
qed

lemma progress_step_same:
  "ns_state t = ns_state s \<or> ns_state t = FAILED \<Longrightarrow> ns_peers t = ns_peers s \<Longrightarrow>
   ns_handshaked_peers t = ns_handshaked_peers s \<Longrightarrow> progress_to s (step_state_machine env t)"
  by (rule progress_step) (simp_all add: known_def)

lemma progress_same:
  "ns_state s' = ns_state s \<or> ns_state s' = FAILED \<Longrightarrow> ns_peers s' = ns_peers s \<Longrightarrow>
   ns_handshaked_peers s' = ns_handshaked_peers s \<Longrightarrow> progress s s'"
  by (auto simp: progress_def known_def)

lemma known_simps [simp]:
  "known (s\<lparr>ns_peers := map_set k v (ns_peers s)\<rparr>) = known s"
  "known (s\<lparr>ns_peers := map_emplace k v (ns_peers s)\<rparr>) = insert k (known s)"
  unfolding known_def by simp (simp add: set_map_emplace)

lemma progress_open: "progress_to s (handle_open env c s)"
proof -
  have fin: "progress_to s (finish_open env t)" "progress s ((emit m t)\<lparr>ns_state := FAILED\<rparr>)"
    if "ns_state t = ns_state s" "ns_peers t = ns_peers s" "ns_handshaked_peers t = ns_handshaked_peers s" for t m
    unfolding finish_open_def using that by (auto intro!: progress_step_same progress_same simp del: step_simps)
  show ?thesis
  proof (cases "ns_jack_midi s")
    case True
    show ?thesis unfolding handle_open_def Let_def using True
    proof (simp, intro progress_to_bind)
      fix t assume "reset_jack env c (s\<lparr>ns_client_id := c\<rparr>) = Inr t"
      then have t: "jack_frame (s\<lparr>ns_client_id := c\<rparr>) t" by (rule reset_jack_frame)
      obtain u r where u: "connect_jack env t = (u, r)" by fastforce
      have f: "jack_frame t u" by (rule connect_jack_frame [OF jack_frameD(9) [OF t] u])
      have "ns_state u = ns_state s" "ns_peers u = ns_peers s" "ns_handshaked_peers u = ns_handshaked_peers s"
        using jack_frameD(1, 4, 5) [OF t] jack_frameD(1, 4, 5) [OF f] by simp_all
      from fin [OF this] u show "progress_to s (case connect_jack env t of (s3, Inl Jack_error) \<Rightarrow>
            Inr ((emit (To_server (''/error'', [Str NSM_OPEN, I32 (-10), Str ''JackClientException whilst opening''])) s3)
              \<lparr>ns_state := FAILED\<rparr>)
          | (s3, Inl e) \<Rightarrow> Inl e | (s3, Inr _) \<Rightarrow> finish_open env s3)"
        by (auto split: sum.splits failure.splits)
    qed
  next
    case False
    then show ?thesis using fin [of "s\<lparr>ns_client_id := c\<rparr>"] by (simp add: handle_open_def)
  qed
qed

lemma progress_list_end: "progress_to s (handle_list_end path s)"
  by (auto simp: handle_list_end_def progress_def moves_up_def state_order known_def intro!: progress_to_bind)

lemma progress_list_reply: "progress_to s (handle_signal_list_reply path mn mx d s)"
proof -
  have "progress s (s\<lparr>ns_peers := map_set k q (ns_peers s)\<rparr>)" for k q by (simp add: progress_def)
  then show ?thesis by (auto simp: handle_signal_list_reply_def intro!: progress_to_bind)
qed

lemma progress_hello: "progress_to s (handle_hello env u n v c s)"
  by (auto simp: handle_hello_def simp del: step_simps intro!: progress_step)

lemma progress_handlers:
  "progress_to s (handle_announce_reply env path caps s)" "progress_to s (handle_error env path s)"
  "progress s (handle_save s)" "progress_to s (handle_signal_list env source s)" "progress s s"
  by (auto simp: handle_announce_reply_def handle_error_def handle_save_def handle_signal_list_def
      assert_server_announce_matches_required_capabilities_def NSM_REQUIRED_SERVER_CAPABILITIES_def
      simp del: step_simps intro!: progress_to_bind progress_step_same progress_same)

lemma progress_dispatch: "progress_to s (dispatch env source msg s)"
  unfolding dispatch_def
  by (auto split: prod.splits list.splits osc_arg.splits if_splits simp: progress_handlers(3, 5)
      intro!: progress_handlers(1, 2, 4) progress_list_end progress_list_reply progress_hello progress_open)

section \<open>Properties\<close>

text \<open>C11: A session moves on: whatever message arrives, and whether or not it is expected, the state does not
  fall back in the order of the protocol, except from running to the wait for the next peer; a failed
  session stays failed; no peer is forgotten and at most one is added; and the count of the peers
  done grows only by the end of the list that is awaited, by one.\<close>

theorem session_advances:
  assumes "dispatch env source msg s = Inr s'"
  shows "(ns_state s \<le> ns_state s' \<or> ns_state s = RUNNING \<and> ns_state s' = PEER_AWAIT_SIGNAL_LIST) \<and>
    (ns_state s = FAILED \<longrightarrow> ns_state s' = FAILED) \<and>
    (known s' = known s \<or> (\<exists>c. known s' = insert c (known s))) \<and>
    (ns_handshaked_peers s' = ns_handshaked_peers s \<or>
      ns_handshaked_peers s' = ns_handshaked_peers s + 1 \<and> ns_state s = PEER_AWAIT_SIGNAL_LIST \<and> ns_state s' = RUNNING)"
  using progress_dispatch [of s env source msg] assms by (auto simp: progress_def moves_up_def)

text \<open>The end of the list of a peer moves the session from the wait to running.\<close>

lemma session_advances_witness:
  "\<exists>s s'. sample_run [announce_reply, open_msg, hello_msg ''a''] = Inr s \<and>
     dispatch ok_env [] (''/reply'', [Str OSC_SIGNAL_LIST]) s = Inr s' \<and>
     ns_state s = PEER_AWAIT_SIGNAL_LIST \<and> ns_state s' = RUNNING \<and> ns_state s \<le> ns_state s' \<and> known s' = {''a''}"
proof -
  have "case bind_res (sample_run [announce_reply, open_msg, hello_msg ''a'']) (\<lambda>s.
      bind_res (dispatch ok_env [] (''/reply'', [Str OSC_SIGNAL_LIST]) s) (\<lambda>s'. Inr (ns_state s, ns_state s', map fst (ns_peers s')))) of
    Inl e \<Rightarrow> False | Inr r \<Rightarrow> r = (PEER_AWAIT_SIGNAL_LIST, RUNNING, [''a''])" by code_simp
  then obtain s s' where s: "sample_run [announce_reply, open_msg, hello_msg ''a''] = Inr s"
      "dispatch ok_env [] (''/reply'', [Str OSC_SIGNAL_LIST]) s = Inr s'" "ns_state s = PEER_AWAIT_SIGNAL_LIST" "ns_state s' = RUNNING"
      "map fst (ns_peers s') = [''a'']"
    by (auto simp: bind_res_Inr_iff split: sum.splits)
  moreover have "ns_state s \<le> ns_state s'" using session_advances [OF s(2)] s(3, 4) by simp
  moreover have "known s' = {''a''}" using s(5) by (simp add: known_def)
  ultimately show ?thesis by blast
qed

end
