(* ===== verification/Midi_To_Lights.thy ===== *)
theory Midi_To_Lights
  imports Driver_Main
begin

text \<open>
  The way of MIDI through the driver of \<open>main.cpp\<close>: the process callback copies the events of the
  input port into the ring, and a turn of the MIDI loop parses them and sets the lights.
\<close>

section \<open>Messages in the ring\<close>

text \<open>The ring shows its bytes in one segment, also while \<open>n\<close> messages of three bytes are taken.\<close>

fun unwrapped :: "'rb jack_rb \<Rightarrow> nat \<Rightarrow> 'rb \<Rightarrow> bool" where
  "unwrapped ops 0 r \<longleftrightarrow> True"
| "unwrapped ops (Suc n) r \<longleftrightarrow> seg_len (snd (rb_get_read_vector ops r)) = 0 \<and> unwrapped ops n (rb_read_advance ops r 3)"

lemma parse_wire_events:
  assumes "wire_event e" "list_all wire_event es"
  shows "parse_bytes (event_bytes e @ concat (map event_bytes es)) = (e, concat (map event_bytes es))"
proof (rule parse_event_bytes [OF assms(1)], cases es)
  case (Cons e' es')
  with assms(2) have "wire_event e'" by simp
  then show "concat (map event_bytes es) = [] \<or> is_status_byte (hd (concat (map event_bytes es)))"
    using Cons assms(2) status_of_event(1) by (cases es) (auto simp: event_bytes_def wire_event_def)
qed simp

lemma length_event_bytes [simp]: "length (event_bytes e) = 3"
  by (simp add: event_bytes_def)

lemma length_events_bytes: "length (concat (map event_bytes es)) = 3 * length es"
  by (induction es) auto

lemma takes_events:
  assumes "jack_ring ops rinv content" "addr \<noteq> 0"
  shows "in_holds rinv content (ji_in_buf jack) (concat (map event_bytes es)) \<Longrightarrow> list_all wire_event es \<Longrightarrow>
    buf (ji_in_buf jack) = Some r \<Longrightarrow> unwrapped ops (length es) r \<Longrightarrow>
    \<exists>q. takes ops addr jack es (jack\<lparr>ji_in_buf := q\<rparr>) \<and> in_holds rinv content q []"
proof (induction es arbitrary: jack r)
  case Nil
  have "read_bufsize ops jack = Inr 0"
    using typed_ring.size_eq [OF jack_bytes [OF assms(1)] Nil(1)] by (simp add: read_bufsize_def)
  with Nil(1) show ?case by (auto intro!: exI [of _ "ji_in_buf jack"] takes.drained)
next
  case (Cons e es)
  let ?bs = "concat (map event_bytes (e # es))" and ?rest = "concat (map event_bytes es)"
  obtain s0 s1 where v: "rb_get_read_vector ops r = (s0, s1)" "seg_len s1 = 0"
    using Cons.prems(4) by (cases "rb_get_read_vector ops r") auto
  have p: "parse_bytes ?bs = (e, ?rest)" using parse_wire_events [of e es] Cons.prems(2) by simp
  let ?r = "rb_read_advance ops r 3"
  let ?jack = "jack\<lparr>ji_in_buf := (ji_in_buf jack)\<lparr>buf := Some ?r\<rparr>\<rparr>"
  have get: "jw_get ops addr jack = Some (Inr (?jack, e))"
    using jw_get_exact [OF assms(1) Cons.prems(1) assms(2) Cons.prems(3) v] p by (simp add: length_events_bytes)
  have r: "rinv r" "content r = ?bs" using Cons.prems(1, 3) by (auto simp: rbuf_holds_def)
  then have "rinv ?r" "content ?r = ?rest"
    using jack_ring.advance_law [OF assms(1) r(1), of 3] by (simp_all add: length_events_bytes)
  then have "in_holds rinv content (ji_in_buf ?jack) ?rest" by (simp add: rbuf_holds_def)
  from Cons.IH [OF this] Cons.prems(2, 4) obtain q where q: "takes ops addr ?jack es (?jack\<lparr>ji_in_buf := q\<rparr>)" "in_holds rinv content q []"
    by auto
  have "read_bufsize ops jack = Inr (length ?bs)"
    using typed_ring.size_eq [OF jack_bytes [OF assms(1)] Cons.prems(1)] by (simp add: read_bufsize_def)
  from takes.one [OF this _ get q(1)] q(2) show ?case by auto
qed

lemma process_MIDI_events_ok:
  "io_ok m out \<Longrightarrow> list_all wire_event es \<Longrightarrow>
   \<exists>cs out'. process_MIDI_events m es out = Inr (cs, out') \<and> io_ok m out' \<and> length cs = length es"
proof (induction es arbitrary: out)
  case (Cons e es)
  then have "unat (ev_raw1 e) < 128" by (simp add: wire_event_def)
  from process_MIDI_event_ok [OF Cons.prems(1) this] obtain c out1 where
    e: "process_MIDI_event m e out = Inr (c, out1)" "io_ok m out1" by blast
  from Cons.IH [OF e(2)] Cons.prems(2) e(1) show ?case by auto
qed simp

section \<open>Properties\<close>

lemma callback_into_empty:
  assumes "jack_ring ops rinv content" "in_holds rinv content (ji_in_buf jack) []"
    and "3 * length es \<le> rbuf_room ops byte_elem (ji_in_buf jack)" "jm_event_count jm b = length es"
    and "\<forall>i < length es. jm_event_get jm b i = Some (event_bytes (es ! i))"
  shows "\<exists>jack1 r. read_callback ops jm jack b = Inr (jack1, 0) \<and> buf (ji_in_buf jack1) = Some r \<and>
    in_holds rinv content (ji_in_buf jack1) (concat (map event_bytes es))"
  using read_loop_ok [OF assms(1), of jm b "map event_bytes es" "ji_in_buf jack" "[]" 0] assms(2-5)
  by (auto simp: read_callback_def length_events_bytes rbuf_holds_def)



end
