(* ===== verification/Osc_Driver.thy ===== *)
theory Osc_Driver
  imports Non_Session
begin

text \<open>
  The program of \<open>driver-osc\<close> (\<open>exe/osc_driver.cpp\<close>): the search for the device, the light colors,
  and the loop that reads the device, toggles the stop buttons, passes the change on and sets the
  lights.  The start of the program, with the environment and the privileges, is in
  \<open>Osc_Program\<close>; the log output is left out.
\<close>

section \<open>The search for the device\<close>

datatype search = Exit_code int | Device int

definition OSC_HIDRAW_PREFIX :: string where "OSC_HIDRAW_PREFIX = ''/dev/hidraw''"
definition F1_VENDOR_ID :: u16 where "F1_VENDOR_ID = 0x17cc"
definition F1_PRODUCT_ID :: u16 where "F1_PRODUCT_ID = 0x1120"

text \<open>One turn of the loop, \<open>None\<close> for \<open>continue\<close>; the loop has no bound.\<close>

definition search_turn :: "'w posix \<Rightarrow> 'w \<Rightarrow> nat \<Rightarrow> 'w \<times> search option" where
  "search_turn os w i = (case sys_open os w (OSC_HIDRAW_PREFIX @ show_nat i) of (w1, n) \<Rightarrow>
     if n < 0 then (if sys_errno os w1 = EACCES then (w1, None) else (w1, Some (Exit_code 2)))
     else (case sys_ioctl_rawinfo os w1 n of (w2, res, devinfo) \<Rightarrow>
       if res < 0 then (w2, Some (Exit_code 3))
       else if di_vendor devinfo = F1_VENDOR_ID \<and> di_product devinfo = F1_PRODUCT_ID then (w2, Some (Device n))
       else (fst (sys_close os w2 n), None)))"

partial_function (option) search_device :: "'w posix \<Rightarrow> nat \<Rightarrow> 'w \<Rightarrow> ('w \<times> search) option" where
  "search_device os i w = (case search_turn os w i of
     (w1, Some r) \<Rightarrow> Some (w1, r)
   | (w1, None) \<Rightarrow> search_device os (i + 1) w1)"

section \<open>Lights\<close>

definition LIGHTNESS_ON :: rat where "LIGHTNESS_ON = 1"
definition LIGHTNESS_OFF :: rat where "LIGHTNESS_OFF = fl 24 (1 / 5)"

definition MTX_COLORS :: "byte list list" where
  "MTX_COLORS = [osc_rgb2color 0x00 0x00 0x7f, osc_rgb2color 0x7f 0x00 0x10, osc_rgb2color 0x00 0x7f 0x00,
     osc_rgb2color 0x7f 0x7f 0x00, osc_rgb2color 0x00 0x00 0x7f, osc_rgb2color 0x7f 0x00 0x10,
     osc_rgb2color 0x00 0x7f 0x00, osc_rgb2color 0x7f 0x7f 0x00, osc_rgb2color 0x00 0x00 0x7f,
     osc_rgb2color 0x7f 0x00 0x10, osc_rgb2color 0x00 0x7f 0x00, osc_rgb2color 0x7f 0x7f 0x00,
     osc_rgb2color 0x00 0x00 0x7f, osc_rgb2color 0x7f 0x00 0x10, osc_rgb2color 0x00 0x7f 0x00,
     osc_rgb2color 0x7f 0x7f 0x00]"

text \<open>A byte times a \<open>float\<close>, converted back to a byte.\<close>

definition dimmed :: "rat \<Rightarrow> byte \<Rightarrow> byte res" where
  "dimmed lightness c = cast_byte (fl 24 (of_int (uint c) * lightness))"

definition scale_color :: "rat \<Rightarrow> byte list \<Rightarrow> byte list res" where
  "scale_color lightness color = fold_res (\<lambda>i xs. bind_res (bind_res (sub_res color i) (dimmed lightness)) (set_sub_res xs i))
     [0..<length color] color"

definition init_lights :: "hid_output \<Rightarrow> hid_output res" where
  "init_lights out =
     bind_res (fold_res (\<lambda>i m. bind_res (bind_res (at_res MTX_COLORS i) (scale_color LIGHTNESS_OFF)) (set_at_res m i))
       [0..<16] (ho_matrix out)) (\<lambda>matrix.
     bind_res (fold_res (\<lambda>i s. bind_res (dimmed LIGHTNESS_OFF 0x7f) (set_at_res s i)) [0..<4] (ho_stop out)) (\<lambda>stop.
       Inr (out\<lparr>ho_matrix := matrix, ho_stop := stop\<rparr>)))"

definition light_matrix :: "rat \<Rightarrow> byte list \<Rightarrow> byte list list \<Rightarrow> byte list list res" where
  "light_matrix lightness = fold_res (\<lambda>btn m.
     bind_res (bind_res (sub_res MTX_COLORS (unat btn)) (scale_color lightness)) (set_sub_res m (unat btn)))"

definition light_stop :: "rat \<Rightarrow> byte list \<Rightarrow> byte list \<Rightarrow> byte list res" where
  "light_stop lightness = fold_res (\<lambda>btn s. bind_res (dimmed lightness 0x7f) (set_sub_res s (unat btn)))"

definition change_lights :: "f1_input_change \<Rightarrow> hid_output \<Rightarrow> hid_output res" where
  "change_lights input out =
     bind_res (light_matrix LIGHTNESS_ON (bd_matrix (pressed_buttons input)) (ho_matrix out)) (\<lambda>m.
     bind_res (light_matrix LIGHTNESS_OFF (bd_matrix (released_buttons input)) m) (\<lambda>m.
     bind_res (light_stop LIGHTNESS_ON (bd_stop (pressed_buttons input)) (ho_stop out)) (\<lambda>s.
     bind_res (light_stop LIGHTNESS_OFF (bd_stop (released_buttons input)) s) (\<lambda>s.
       Inr (out\<lparr>ho_matrix := m, ho_stop := s\<rparr>)))))"

text \<open>\<open>set_colors\<close> on its two static variables.\<close>

definition set_colors ::
    "'w posix \<Rightarrow> 'w \<Rightarrow> f1_hid_dev \<Rightarrow> f1_input_change \<Rightarrow> hid_output \<Rightarrow> bool \<Rightarrow> ('w \<times> hid_output \<times> bool) res" where
  "set_colors os w dev input out first_time =
     bind_res (if first_time then
         bind_res (init_lights out) (\<lambda>out1. case osc_write os w dev out1 of (w1, r) \<Rightarrow> bind_res r (\<lambda>_. Inr (w1, out1)))
       else Inr (w, out)) (\<lambda>(w1, out1).
     bind_res (change_lights input out1) (\<lambda>out2.
     case osc_write os w1 dev out2 of (w2, r) \<Rightarrow> bind_res r (\<lambda>_. Inr (w2, out2, False))))"

section \<open>The loop\<close>

datatype ('rb, 'j) backend = Session "('rb, 'j) nsh" | Jack "'rb jack_client"

record ('w, 'rb, 'j) osc_state =
  od_world :: 'w
  od_dev :: f1_hid_dev
  od_output :: hid_output
  od_first_time :: bool
  od_stop_buttons :: "bool list"
  od_last :: f1_inpu_state
  od_backend :: "('rb, 'j) backend"

text \<open>The stop buttons toggle: the flipped states, and the buttons now on and now off.\<close>

definition toggle_stop :: "byte list \<Rightarrow> bool list \<Rightarrow> (bool list \<times> byte list \<times> byte list) res" where
  "toggle_stop pressed stop_buttons = fold_res (\<lambda>btn (stop, on, off).
     bind_res (at_res stop (unat btn)) (\<lambda>b.
       let stop' = stop[unat btn := \<not> b] in
       if \<not> b then Inr (stop', on @ [btn], off) else Inr (stop', on, off @ [btn])))
     pressed (stop_buttons, [], [])"

definition send_change :: "('rb, 'j) ns_env \<Rightarrow> f1_input_change \<Rightarrow> ('rb, 'j) backend \<Rightarrow> ('rb, 'j) backend res" where
  "send_change env input b = (case b of
     Session s \<Rightarrow> bind_res (broadcast_input_event env input s) (\<lambda>s'. Inr (Session s'))
   | Jack p \<Rightarrow> bind_res (push_event (en_ring env) input p) (\<lambda>p'. Inr (Jack p')))"

definition driver_start ::
    "'w posix \<Rightarrow> 'w \<Rightarrow> int \<Rightarrow> ('rb, 'j) backend \<Rightarrow> ('w, 'rb, 'j) osc_state res" where
  "driver_start os w n b =
     (let dev = hid_dev_new n;
          output = \<lparr>ho_matrix = replicate 16 [0, 0, 0], ho_stop = replicate 4 0\<rparr>
      in bind_res (set_colors os w dev no_change output True) (\<lambda>(w1, out, first_time).
        Inr \<lparr>od_world = w1, od_dev = dev, od_output = out, od_first_time = first_time,
          od_stop_buttons = replicate 4 False, od_last = idle_input, od_backend = b\<rparr>))"

text \<open>
  What precedes the loop: with JACK the client is connected; with a session the program waits until
  the session is ready or has failed, which ends it with code 4.
\<close>

definition jack_backend :: "('rb, 'j) ns_env \<Rightarrow> 'j \<Rightarrow> 'j \<times> ('rb, 'j) backend res" where
  "jack_backend env j = (case jc_connect (en_jack env) j (jc_new (en_ring env) ''Traktor Kontrol F1'') of
     (j', p, r) \<Rightarrow> (j', bind_res r (\<lambda>_. Inr (Jack p))))"

datatype wait = Keep_waiting | Return int | Go_ahead

definition session_wait :: "('rb, 'j) nsh \<Rightarrow> wait" where
  "session_wait s =
     (if \<not> session_is_ready s \<and> \<not> session_has_failed s then Keep_waiting
      else if session_has_failed s then Return 4 else Go_ahead)"

definition driver_turn ::
    "'w posix \<Rightarrow> ('rb, 'j) ns_env \<Rightarrow> byte list \<Rightarrow> ('w, 'rb, 'j) osc_state \<Rightarrow> ('w, 'rb, 'j) osc_state res" where
  "driver_turn os env stack s =
     (case osc_read os (od_world s) stack (od_dev s) of
        (w1, dev1, Inl e) \<Rightarrow> Inl e
      | (w1, dev1, Inr current) \<Rightarrow>
          let input_diff = state_minus current (od_last s) in
          bind_res (toggle_stop (bd_stop (pressed_buttons input_diff)) (od_stop_buttons s)) (\<lambda>(stop, on, off).
          let input = input_diff\<lparr>pressed_buttons := (pressed_buttons input_diff)\<lparr>bd_stop := on\<rparr>,
            released_buttons := (released_buttons input_diff)\<lparr>bd_stop := off\<rparr>\<rparr> in
          bind_res (send_change env input (od_backend s)) (\<lambda>b.
          bind_res (set_colors os w1 dev1 input (od_output s) (od_first_time s)) (\<lambda>(w2, out, first_time).
            Inr \<lparr>od_world = w2, od_dev = dev1, od_output = out, od_first_time = first_time,
              od_stop_buttons = stop, od_last = current, od_backend = b\<rparr>))))"

section \<open>Lights\<close>

definition DIM_COLORS :: "byte list list" where
  "DIM_COLORS = map (map (\<lambda>c. word_of_nat (unat c div 5))) MTX_COLORS"

lemma scaled_colors:
  assumes "i < 16"
  shows "scale_color LIGHTNESS_ON (MTX_COLORS ! i) = Inr (MTX_COLORS ! i)"
    "scale_color LIGHTNESS_OFF (MTX_COLORS ! i) = Inr (DIM_COLORS ! i)"
proof -
  have "\<forall>i \<in> set [0..<16]. scale_color LIGHTNESS_ON (MTX_COLORS ! i) = Inr (MTX_COLORS ! i) \<and>
      scale_color LIGHTNESS_OFF (MTX_COLORS ! i) = Inr (DIM_COLORS ! i)"
    by code_simp
  with assms show "scale_color LIGHTNESS_ON (MTX_COLORS ! i) = Inr (MTX_COLORS ! i)"
    "scale_color LIGHTNESS_OFF (MTX_COLORS ! i) = Inr (DIM_COLORS ! i)" by simp_all
qed

lemma dimmed_stop: "dimmed LIGHTNESS_ON 0x7f = Inr 0x7f" "dimmed LIGHTNESS_OFF 0x7f = Inr 25"
  by code_simp+

lemma length_colors [simp]: "length MTX_COLORS = 16" "length DIM_COLORS = 16"
  by (simp_all add: MTX_COLORS_def DIM_COLORS_def)

lemma unat_of_nat_byte: "i < 256 \<Longrightarrow> unat (of_nat i :: byte) = i"
  by (simp add: unat_of_nat)

lemma light_matrix_eq:
  assumes "\<forall>i \<in> set ks. i < 16" "length m = 16" "lightness = LIGHTNESS_ON \<and> cs = MTX_COLORS \<or> lightness = LIGHTNESS_OFF \<and> cs = DIM_COLORS"
  shows "light_matrix lightness (map of_nat ks) m = Inr (fold (\<lambda>i m. m[i := cs ! i]) ks m)"
proof -
  have b: "unat (of_nat i :: byte) = i" if "i \<in> set ks" for i using assms(1) that by (intro unat_of_nat_byte) fastforce
  have "light_matrix lightness (map of_nat ks) m =
      fold_res (\<lambda>i m. bind_res (bind_res (sub_res MTX_COLORS (unat (of_nat i :: byte))) (scale_color lightness))
        (set_sub_res m (unat (of_nat i :: byte)))) ks m"
    by (simp only: light_matrix_def fold_res_map)
  also have "\<dots> = Inr (fold (\<lambda>i m. m[unat (of_nat i :: byte) := cs ! i]) ks m)"
    by (rule fold_res_set_sub) (use assms b scaled_colors in auto)
  also have "fold (\<lambda>i m. m[unat (of_nat i :: byte) := cs ! i]) ks m = fold (\<lambda>i m. m[i := cs ! i]) ks m"
    by (rule fold_cong) (simp_all add: b)
  finally show ?thesis .
qed

lemma light_stop_eq:
  assumes "\<forall>b \<in> set bs. unat b < 4" "length s = 4" "dimmed lightness 0x7f = Inr v"
  shows "light_stop lightness bs s = Inr (fold (\<lambda>b s. s[unat b := v]) bs s)"
  unfolding light_stop_def by (rule fold_res_set_sub) (use assms in auto)

lemma init_lights_eq:
  assumes "length (ho_matrix out) = 16" "length (ho_stop out) = 4"
  shows "init_lights out = Inr (out\<lparr>ho_matrix := DIM_COLORS, ho_stop := replicate 4 25\<rparr>)"
proof -
  have m: "fold_res (\<lambda>i m. bind_res (bind_res (at_res MTX_COLORS i) (scale_color LIGHTNESS_OFF)) (set_at_res m i)) [0..<16] (ho_matrix out) =
      Inr (fold (\<lambda>i m. m[i := DIM_COLORS ! i]) [0..<16] (ho_matrix out))"
    by (rule fold_res_set_at) (use assms scaled_colors in auto)
  have "fold (\<lambda>i m. m[i := DIM_COLORS ! i]) [0..<16] (ho_matrix out) = DIM_COLORS"
    by (rule nth_equalityI) (use assms nth_fold_update_hit [of _ "[0..<16]" "\<lambda>i. i" "ho_matrix out" "\<lambda>i. DIM_COLORS ! i"] in auto)
  moreover have s: "fold_res (\<lambda>i s. bind_res (dimmed LIGHTNESS_OFF 0x7f) (set_at_res s i)) [0..<4] (ho_stop out) =
      Inr (fold (\<lambda>i s. s[i := 25]) [0..<4] (ho_stop out))"
    by (rule fold_res_set_at) (use assms dimmed_stop in auto)
  moreover have "fold (\<lambda>i s. s[i := 25]) [0..<4] (ho_stop out) = replicate 4 25"
    by (rule nth_equalityI) (use assms in \<open>auto simp: nth_fold_const\<close>)
  ultimately show ?thesis using m by (simp add: init_lights_def)
qed

text \<open>The lights show which matrix buttons are held and which stop buttons are on.\<close>

definition lights_of :: "bool list \<Rightarrow> bool list \<Rightarrow> hid_output \<Rightarrow> bool" where
  "lights_of matrix stop out \<longleftrightarrow>
     ho_matrix out = map (\<lambda>i. if matrix ! i then MTX_COLORS ! i else DIM_COLORS ! i) [0..<16] \<and>
     ho_stop out = map (\<lambda>i. if stop ! i then 0x7f else 25) [0..<4]"

section \<open>Toggling\<close>

lemma toggle_stop_eq:
  assumes "distinct bs" "\<forall>b \<in> set bs. unat b < length stop"
  shows "toggle_stop bs stop = Inr (fold (\<lambda>b s. s[unat b := \<not> stop ! unat b]) bs stop,
     filter (\<lambda>b. \<not> stop ! unat b) bs, filter (\<lambda>b. stop ! unat b) bs)"
proof -
  have "fold_res (\<lambda>btn (s, on, off). bind_res (at_res s (unat btn)) (\<lambda>b.
       let s' = s[unat btn := \<not> b] in
       if \<not> b then Inr (s', on @ [btn], off) else Inr (s', on, off @ [btn]))) cs (t, on, off) =
     Inr (fold (\<lambda>b s. s[unat b := \<not> stop ! unat b]) cs t, on @ filter (\<lambda>b. \<not> stop ! unat b) cs, off @ filter (\<lambda>b. stop ! unat b) cs)"
    if "distinct cs" "\<forall>b \<in> set cs. unat b < length t \<and> t ! unat b = stop ! unat b" for cs t and on off :: "byte list"
    using that
  proof (induction cs arbitrary: t on off)
    case (Cons c cs)
    have "\<forall>b \<in> set cs. unat b < length (t[unat c := \<not> stop ! unat c]) \<and> t[unat c := \<not> stop ! unat c] ! unat b = stop ! unat b"
      using Cons.prems by (auto simp: nth_list_update word_unat_eq_iff [symmetric])
    with Cons show ?case by (auto simp: Let_def)
  qed simp
  from this [OF assms(1), of stop "[]" "[]"] assms(2) show ?thesis by (simp add: toggle_stop_def)
qed
lemma unat_of_nat_filter:
  assumes "n \<le> 256"
  shows "unat ` set (map of_nat (filter P [0..<n]) :: byte list) = {i. i < n \<and> P i}"
proof -
  have "unat (of_nat i :: byte) = i" if "i < n" for i using that assms by (intro unat_of_nat_byte) simp
  then show ?thesis by (auto simp: image_iff)
qed

lemma distinct_of_nat_filter: "n \<le> 256 \<Longrightarrow> distinct (map of_nat (filter P [0..<n]) :: byte list)"
proof -
  assume n: "n \<le> 256"
  have "inj_on (of_nat :: nat \<Rightarrow> byte) {0..<n}"
    by (rule inj_on_inverseI [where g = unat]) (use n in \<open>simp add: unat_of_nat_byte\<close>)
  then show ?thesis by (auto simp: distinct_map intro: inj_on_subset)
qed

lemma nth_fold_btns:
  assumes "k < length xs" "distinct bs"
  shows "fold (\<lambda>b s. s[unat (b :: byte) := g b]) bs xs ! k = (if k \<in> unat ` set bs then g (of_nat k) else xs ! k)"
proof (cases "k \<in> unat ` set bs")
  case True
  then obtain b where b: "b \<in> set bs" "k = unat b" by auto
  have inj: "inj_on unat (set bs)" by (auto intro: inj_onI simp: word_unat_eq_iff)
  have "g (of_nat k) = g b" using b(2) by simp
  with nth_fold_update_hit [OF b(1) inj, of xs g] assms(1) b(2) True show ?thesis by simp
next
  case False
  with nth_fold_update_other [of k unat bs g xs] show ?thesis by simp
qed

lemma length_fold_btns [simp]: "length (fold (\<lambda>b s. s[unat (b :: byte) := g b]) bs xs) = length xs"
  by (induction bs arbitrary: xs) auto

lemma length_fold_lights [simp]: "length (fold (\<lambda>i m. m[i := g i]) ks xs) = length xs"
  by (induction ks arbitrary: xs) auto

lemma nth_fold_lights:
  fixes g :: "nat \<Rightarrow> 'a"
  assumes "k < length xs"
  shows "fold (\<lambda>i m. m[i := g i]) ks xs ! k = (if k \<in> set ks then g k else xs ! k)"
  using assms by (induction ks arbitrary: xs) (auto simp: nth_list_update)

text \<open>The change of one turn, with the stop buttons replaced by what the toggling gives.\<close>

lemma change_lights_turn:
  assumes "wf_input new" "wf_input old" "length stop = 4" "lights_of (in_matrix old) stop out"
    and "toggle_stop (bd_stop (pressed_buttons (state_minus new old))) stop = Inr (stop', on, off)"
    and "input = (state_minus new old)\<lparr>pressed_buttons := (pressed_buttons (state_minus new old))\<lparr>bd_stop := on\<rparr>,
      released_buttons := (released_buttons (state_minus new old))\<lparr>bd_stop := off\<rparr>\<rparr>"
  shows "\<exists>out'. change_lights input out = Inr out' \<and> lights_of (in_matrix new) stop' out' \<and> length stop' = 4"
proof -
  let ?m = "ho_matrix out" and ?s = "ho_stop out"
  let ?press = "filter (\<lambda>i. \<not> in_matrix old ! i \<and> in_matrix new ! i) [0..<16]"
  let ?release = "filter (\<lambda>i. in_matrix old ! i \<and> \<not> in_matrix new ! i) [0..<16]"
  let ?stops = "map of_nat (filter (\<lambda>i. \<not> in_stop old ! i \<and> in_stop new ! i) [0..<4]) :: byte list"
  have len: "length ?m = 16" "length ?s = 4" using assms(4) by (simp_all add: lights_of_def)
  have lists: "bd_matrix (pressed_buttons input) = map of_nat ?press" "bd_matrix (released_buttons input) = map of_nat ?release"
    "bd_stop (pressed_buttons input) = on" "bd_stop (released_buttons input) = off"
    "bd_stop (pressed_buttons (state_minus new old)) = ?stops"
    by (simp_all add: assms(6) state_minus_def Let_def btn_changes_eq)
  have stops: "distinct ?stops" "\<forall>b \<in> set ?stops. unat b < 4"
    by (rule distinct_of_nat_filter) (simp, auto simp: of_nat_byte_less)
  have t: "stop' = fold (\<lambda>b s. s[unat b := \<not> stop ! unat b]) ?stops stop" "on = filter (\<lambda>b. \<not> stop ! unat b) ?stops"
    "off = filter (\<lambda>b. stop ! unat b) ?stops"
    using assms(5) toggle_stop_eq [OF stops(1), of stop] stops(2) unfolding lists assms(3) by simp_all
  have on: "\<forall>b \<in> set on. unat b < 4" "\<forall>b \<in> set off. unat b < 4" "distinct on" "distinct off"
    using stops by (auto simp: t)
  let ?m1 = "fold (\<lambda>i m. m[i := MTX_COLORS ! i]) ?press ?m"
  let ?m2 = "fold (\<lambda>i m. m[i := DIM_COLORS ! i]) ?release ?m1"
  let ?s1 = "fold (\<lambda>b s. s[unat b := 0x7f]) on ?s"
  let ?s2 = "fold (\<lambda>b s. s[unat b := 25]) off ?s1"
  have "change_lights input out = Inr (out\<lparr>ho_matrix := ?m2, ho_stop := ?s2\<rparr>)"
    using light_matrix_eq [of ?press ?m LIGHTNESS_ON MTX_COLORS] light_matrix_eq [of ?release ?m1 LIGHTNESS_OFF DIM_COLORS]
      light_stop_eq [OF on(1) len(2) dimmed_stop(1)] light_stop_eq [OF on(2) _ dimmed_stop(2), of ?s1] len
    by (simp add: change_lights_def lists)
  moreover have "?m2 = map (\<lambda>i. if in_matrix new ! i then MTX_COLORS ! i else DIM_COLORS ! i) [0..<16]"
  proof (rule map_nth_eqI)
    fix i :: nat assume i: "i < 16"
    have "?m ! i = (if in_matrix old ! i then MTX_COLORS ! i else DIM_COLORS ! i)" using assms(4) i by (simp add: lights_of_def)
    moreover have "?m1 ! i = (if i \<in> set ?press then MTX_COLORS ! i else ?m ! i)"
      by (rule nth_fold_lights) (simp add: i len)
    moreover have "?m2 ! i = (if i \<in> set ?release then DIM_COLORS ! i else ?m1 ! i)"
      by (rule nth_fold_lights) (simp add: i len)
    ultimately show "?m2 ! i = (if in_matrix new ! i then MTX_COLORS ! i else DIM_COLORS ! i)" using i by auto
  qed (simp add: len)
  moreover have "?s2 = map (\<lambda>i. if stop' ! i then 0x7f else 25) [0..<4]"
  proof (rule map_nth_eqI)
    fix i :: nat assume i: "i < 4"
    have "?s ! i = (if stop ! i then 0x7f else 25)" using assms(4) i by (simp add: lights_of_def)
    moreover have "i \<in> unat ` set on \<longleftrightarrow> i \<in> unat ` set ?stops \<and> \<not> stop ! i" "i \<in> unat ` set off \<longleftrightarrow> i \<in> unat ` set ?stops \<and> stop ! i"
      by (auto simp: t)
    moreover have "unat (of_nat i :: byte) = i" using i by (intro unat_of_nat_byte) simp
    ultimately show "?s2 ! i = (if stop' ! i then 0x7f else 25)"
      using i len assms(3) nth_fold_btns [OF _ on(4), of i ?s1 "\<lambda>_. 25"] nth_fold_btns [OF _ on(3), of i ?s "\<lambda>_. 0x7f"]
        nth_fold_btns [OF _ stops(1), of i stop "\<lambda>b. \<not> stop ! unat b"]
      by (auto simp: t(1))
  qed (simp add: len)
  ultimately show ?thesis using assms(3) t(1) by (simp add: lights_of_def)
qed

section \<open>What is proved of the program\<close>

inductive osc_passed_over :: "'w posix \<Rightarrow> nat \<Rightarrow> 'w \<Rightarrow> nat \<Rightarrow> 'w \<Rightarrow> bool" for os where
  here: "osc_passed_over os i w i w"
| denied: "sys_open os w (OSC_HIDRAW_PREFIX @ show_nat i) = (w1, n) \<Longrightarrow> n < 0 \<Longrightarrow> sys_errno os w1 = EACCES \<Longrightarrow>
    osc_passed_over os (Suc i) w1 k w2 \<Longrightarrow> osc_passed_over os i w k w2"
| other: "sys_open os w (OSC_HIDRAW_PREFIX @ show_nat i) = (w1, n) \<Longrightarrow> 0 \<le> n \<Longrightarrow>
    sys_ioctl_rawinfo os w1 n = (w2, res, info) \<Longrightarrow> 0 \<le> res \<Longrightarrow>
    di_vendor info \<noteq> F1_VENDOR_ID \<or> di_product info \<noteq> F1_PRODUCT_ID \<Longrightarrow>
    osc_passed_over os (Suc i) (fst (sys_close os w2 n)) k w3 \<Longrightarrow> osc_passed_over os i w k w3"

lemma search_turn_None:
  "search_turn os w i = (w1, None) \<Longrightarrow> osc_passed_over os (Suc i) w1 k w2 \<Longrightarrow> osc_passed_over os i w k w2"
  by (auto simp: search_turn_def split: prod.splits if_splits intro: osc_passed_over.denied osc_passed_over.other)

lemma search_device_passed_over:
  "osc_passed_over os i w k w2 \<Longrightarrow> search_device os i w = search_device os k w2"
proof (induction rule: osc_passed_over.induct)
  case (denied w i w1 n k w2)
  then show ?case by (subst search_device.simps) (simp add: search_turn_def)
next
  case (other w i w1 n w2 res info k w3)
  then show ?case by (subst search_device.simps) (auto simp: search_turn_def)
qed simp

lemma search_device_stops:
  assumes "search_device os i w = Some y"
  shows "\<exists>k w2. osc_passed_over os i w k w2 \<and> search_turn os w2 k = (fst y, Some (snd y))"
proof (rule search_device.raw_induct [where P = "\<lambda>os i w y. \<exists>k w2. osc_passed_over os i w k w2 \<and>
      search_turn os w2 k = (fst y, Some (snd y))", OF _ assms])
  fix f os i w y
  assume IH: "\<And>os i w y. f os i w = Some y \<Longrightarrow> \<exists>k w2. osc_passed_over os i w k w2 \<and> search_turn os w2 k = (fst y, Some (snd y))"
    and e: "(case search_turn os w i of (w1, None) \<Rightarrow> f os (i + 1) w1 | (w1, Some r) \<Rightarrow> Some (w1, r)) = Some y"
  obtain w1 o1 where t: "search_turn os w i = (w1, o1)" by fastforce
  show "\<exists>k w2. osc_passed_over os i w k w2 \<and> search_turn os w2 k = (fst y, Some (snd y))"
  proof (cases o1)
    case None
    with e t have "f os (i + 1) w1 = Some y" by simp
    from IH [OF this] obtain k w2 where "osc_passed_over os (Suc i) w1 k w2" "search_turn os w2 k = (fst y, Some (snd y))" by auto
    with None t show ?thesis by (blast intro: search_turn_None)
  next
    case (Some r)
    with e t have "search_turn os w i = (fst y, Some (snd y))" by auto
    then show ?thesis by (blast intro: osc_passed_over.here)
  qed
qed

text \<open>The search ends with a device exactly when an index is reached, past nodes without permission
  and past other devices, which it closes again, whose node opens and is a Traktor Kontrol F1.\<close>

theorem search_device_found:
  "search_device os 0 w = Some (w', Device n) \<longleftrightarrow>
   (\<exists>k w1 w2 res info. osc_passed_over os 0 w k w1 \<and> sys_open os w1 (''/dev/hidraw'' @ show_nat k) = (w2, n) \<and> 0 \<le> n \<and>
      sys_ioctl_rawinfo os w2 n = (w', res, info) \<and> 0 \<le> res \<and> di_vendor info = 0x17cc \<and> di_product info = 0x1120)"
   (is "_ \<longleftrightarrow> ?found")
proof
  assume "search_device os 0 w = Some (w', Device n)"
  from search_device_stops [OF this] obtain k w1 where p: "osc_passed_over os 0 w k w1" and t: "search_turn os w1 k = (w', Some (Device n))"
    by auto
  obtain w2 m where o: "sys_open os w1 (OSC_HIDRAW_PREFIX @ show_nat k) = (w2, m)" by fastforce
  obtain w3 res info where i: "sys_ioctl_rawinfo os w2 m = (w3, res, info)" using prod_cases3 by blast
  have "m = n \<and> 0 \<le> n \<and> w3 = w' \<and> 0 \<le> res \<and> di_vendor info = 0x17cc \<and> di_product info = 0x1120"
    using t by (auto simp: search_turn_def o i F1_VENDOR_ID_def F1_PRODUCT_ID_def split: if_splits)
  with p o i show ?found unfolding OSC_HIDRAW_PREFIX_def by blast
next
  assume ?found
  then obtain k w1 w2 res info where f: "osc_passed_over os 0 w k w1" "sys_open os w1 (''/dev/hidraw'' @ show_nat k) = (w2, n)" "0 \<le> n"
      "sys_ioctl_rawinfo os w2 n = (w', res, info)" "0 \<le> res" "di_vendor info = 0x17cc" "di_product info = 0x1120"
    by blast
  then have "search_turn os w1 k = (w', Some (Device n))"
    by (simp add: search_turn_def OSC_HIDRAW_PREFIX_def F1_VENDOR_ID_def F1_PRODUCT_ID_def)
  with search_device_passed_over [OF f(1)] show "search_device os 0 w = Some (w', Device n)"
    by (simp add: search_device.simps)
qed

text \<open>What a turn sends on: the change with the stop buttons replaced by what their toggling gives.\<close>

definition turn_change :: "f1_input_change \<Rightarrow> bool list \<Rightarrow> f1_input_change" where
  "turn_change d stop = d\<lparr>
     pressed_buttons := (pressed_buttons d)\<lparr>bd_stop := filter (\<lambda>b. \<not> stop ! unat b) (bd_stop (pressed_buttons d))\<rparr>,
     released_buttons := (released_buttons d)\<lparr>bd_stop := filter (\<lambda>b. stop ! unat b) (bd_stop (pressed_buttons d))\<rparr>\<rparr>"

lemma change_ok_turn: "change_ok d \<Longrightarrow> change_ok (turn_change d stop)"
  by (auto simp: turn_change_def change_ok_def list_all_iff)

lemma driver_turn_sends:
  assumes "length (od_stop_buttons s) = 4" "driver_turn os env stack s = Inr s'"
  defines "d \<equiv> state_minus (od_last s') (od_last s)"
  shows "send_change env (turn_change d (od_stop_buttons s)) (od_backend s) = Inr (od_backend s')"
    "od_stop_buttons s' = map (\<lambda>i. od_stop_buttons s ! i \<noteq> (\<not> in_stop (od_last s) ! i \<and> in_stop (od_last s') ! i)) [0..<4]"
proof -
  obtain w1 dev1 r where read: "osc_read os (od_world s) stack (od_dev s) = (w1, dev1, r)" using prod_cases3 by blast
  with assms(2) obtain current where r: "r = Inr current" by (cases r) (auto simp: driver_turn_def)
  let ?diff = "state_minus current (od_last s)" and ?stop = "od_stop_buttons s"
  let ?input = "\<lambda>on off. ?diff\<lparr>pressed_buttons := (pressed_buttons ?diff)\<lparr>bd_stop := on\<rparr>,
            released_buttons := (released_buttons ?diff)\<lparr>bd_stop := off\<rparr>\<rparr>"
  obtain stop on off where t: "toggle_stop (bd_stop (pressed_buttons ?diff)) ?stop = Inr (stop, on, off)"
      "send_change env (?input on off) (od_backend s) = Inr (od_backend s')"
      and s': "od_stop_buttons s' = stop" "od_last s' = current"
    using assms(2) by (auto simp: driver_turn_def read r Let_def bind_res_Inr_iff)
  let ?stops = "map of_nat (filter (\<lambda>i. \<not> in_stop (od_last s) ! i \<and> in_stop current ! i) [0..<4]) :: byte list"
  have p: "bd_stop (pressed_buttons ?diff) = ?stops" by (simp add: state_minus_def Let_def btn_changes_eq)
  have stops: "distinct ?stops" "\<forall>b \<in> set ?stops. unat b < length ?stop"
    unfolding assms(1) by (rule distinct_of_nat_filter) (simp, auto simp: of_nat_byte_less)
  from t(1) toggle_stop_eq [OF stops] have on: "on = filter (\<lambda>b. \<not> ?stop ! unat b) ?stops" "off = filter (\<lambda>b. ?stop ! unat b) ?stops"
    "stop = fold (\<lambda>b s. s[unat b := \<not> ?stop ! unat b]) ?stops ?stop" unfolding p by simp_all
  show "send_change env (turn_change d ?stop) (od_backend s) = Inr (od_backend s')"
    using t(2) unfolding turn_change_def d_def s' p on .
  show "od_stop_buttons s' = map (\<lambda>i. ?stop ! i \<noteq> (\<not> in_stop (od_last s) ! i \<and> in_stop (od_last s') ! i)) [0..<4]"
  proof (rule map_nth_eqI)
    fix i :: nat assume i: "i < 4"
    have "unat (of_nat i :: byte) = i" using i by (intro unat_of_nat_byte) simp
    with nth_fold_btns [OF _ stops(1), of i ?stop "\<lambda>b. \<not> ?stop ! unat b"] i assms(1)
      unat_of_nat_filter [of 4 "\<lambda>i. \<not> in_stop (od_last s) ! i \<and> in_stop current ! i"]
    show "od_stop_buttons s' ! i = (?stop ! i \<noteq> (\<not> in_stop (od_last s) ! i \<and> in_stop (od_last s') ! i))"
      by (simp add: s' on(3))
  qed (simp add: s' on(3) assms(1))
qed

text \<open>
  The runs of the program: its loop, and between its turns the messages that liblo delivers and the
  process callbacks of JACK.
\<close>

inductive driver_run :: "'w posix \<Rightarrow> ('rb, 'j) ns_env \<Rightarrow> 'b jack_midi \<Rightarrow> ('w, 'rb, 'j) osc_state \<Rightarrow> bool" for os env jm where
  session: "session_run env ns \<Longrightarrow> session_wait ns = Go_ahead \<Longrightarrow> driver_start os w n (Session ns) = Inr s \<Longrightarrow>
    driver_run os env jm s"
| jack: "jack_backend env j = (j', Inr p) \<Longrightarrow> driver_start os w n p = Inr s \<Longrightarrow> driver_run os env jm s"
| turn: "driver_run os env jm s \<Longrightarrow> length stack = INPUT_BUF_SIZE \<Longrightarrow> driver_turn os env stack s = Inr s' \<Longrightarrow>
    driver_run os env jm s'"
| message: "driver_run os env jm s \<Longrightarrow> od_backend s = Session ns \<Longrightarrow> dispatch env source msg ns = Inr ns' \<Longrightarrow>
    driver_run os env jm (s\<lparr>od_backend := Session ns'\<rparr>)"
| period: "driver_run os env jm s \<Longrightarrow> od_backend s = Jack p \<Longrightarrow> process_cb (en_ring env) jm p b = Inr (p', b', res) \<Longrightarrow>
    driver_run os env jm (s\<lparr>od_backend := Jack p'\<rparr>)"
| session_period: "driver_run os env jm s \<Longrightarrow> od_backend s = Session ns \<Longrightarrow> ns_jack ns = Some p \<Longrightarrow>
    process_cb (en_ring env) jm p b = Inr (p', b', res) \<Longrightarrow> driver_run os env jm (s\<lparr>od_backend := Session (ns\<lparr>ns_jack := Some p'\<rparr>)\<rparr>)"

definition lights_sent :: "'w posix \<Rightarrow> ('w, 'rb, 'j) osc_state \<Rightarrow> bool" where
  "lights_sent os s \<longleftrightarrow> (\<exists>w. sys_write os w (hd_fd (od_dev s)) (report_layout (output_of (od_output s))) = (od_world s, 81))"

definition lights_inv :: "'w posix \<Rightarrow> ('w, 'rb, 'j) osc_state \<Rightarrow> bool" where
  "lights_inv os s \<longleftrightarrow> \<not> od_first_time s \<and> wf_input (od_last s) \<and> wf_input (hd_input (od_dev s)) \<and>
     length (od_stop_buttons s) = 4 \<and> lights_of (in_matrix (od_last s)) (od_stop_buttons s) (od_output s) \<and> lights_sent os s"

lemma lights_of_wf:
  assumes "lights_of m s out"
  shows "wf_hid_output out"
proof -
  have "list_all (\<lambda>c. length c = 3) MTX_COLORS" "list_all (\<lambda>c. length c = 3) DIM_COLORS" by code_simp+
  then have "length (MTX_COLORS ! i) = 3" "length (DIM_COLORS ! i) = 3" if "i < 16" for i
    using that by (auto simp: list_all_length)
  then have "list_all (\<lambda>c. length c = 3) (map (\<lambda>i. if m ! i then MTX_COLORS ! i else DIM_COLORS ! i) [0..<16])"
    by (auto simp: list_all_length simp del: upt.simps)
  then show ?thesis using assms by (simp add: lights_of_def wf_hid_output_def del: upt.simps)
qed

lemma osc_write_sent:
  assumes "wf_hid_output out" "osc_write os w dev out = (w', Inr ())"
  shows "sys_write os w (hd_fd dev) (report_layout (output_of out)) = (w', 81)"
  using assms by (auto simp: osc_write_def encode_output_eq split: prod.splits if_splits)

lemma init_lights_of:
  assumes "length (ho_matrix out) = 16" "length (ho_stop out) = 4"
  shows "\<exists>out'. init_lights out = Inr out' \<and> lights_of (replicate 16 False) (replicate 4 False) out'"
proof -
  have "DIM_COLORS = map (\<lambda>i. if replicate 16 False ! i then MTX_COLORS ! i else DIM_COLORS ! i) [0..<16]"
    "replicate 4 (25 :: byte) = map (\<lambda>i. if replicate 4 False ! i then 0x7f else 25) [0..<4]"
    by (rule map_nth_eqI, simp_all add: del: upt.simps)+
  then show ?thesis using init_lights_eq [OF assms] by (auto simp: lights_of_def)
qed

lemma bind_res_unit_eq_Inr: "bind_res r (\<lambda>_. Inr x) = Inr y \<longleftrightarrow> r = Inr () \<and> x = y"
  by (cases r) auto

lemma driver_start_inv:
  assumes "driver_start os w n b = Inr s"
  shows "lights_inv os s"
proof -
  let ?out = "\<lparr>ho_matrix = replicate 16 [0, 0, 0], ho_stop = replicate 4 0\<rparr>"
  obtain out1 where out1: "init_lights ?out = Inr out1" "lights_of (replicate 16 False) (replicate 4 False) out1"
    using init_lights_of [of ?out] by auto
  have "change_lights no_change out1 = Inr out1"
    by (simp add: change_lights_def no_change_def light_matrix_def light_stop_def)
  with assms out1(1) obtain w1 w2 where w: "osc_write os w1 \<lparr>hd_fd = n, hd_input = idle_input\<rparr> out1 = (w2, Inr ())"
      and s: "s = \<lparr>od_world = w2, od_dev = \<lparr>hd_fd = n, hd_input = idle_input\<rparr>, od_output = out1, od_first_time = False,
          od_stop_buttons = replicate 4 False, od_last = idle_input, od_backend = b\<rparr>"
    by (auto simp: driver_start_def Let_def set_colors_def bind_res_Inr_iff split: prod.splits)
  have "wf_input idle_input" "in_matrix idle_input = replicate 16 False" by (simp_all add: wf_input_def idle_input_def)
  with w out1(2) osc_write_sent [OF lights_of_wf [OF out1(2)] w] show ?thesis
    by (auto simp: lights_inv_def lights_sent_def s)
qed

lemma osc_read_ok:
  assumes "\<And>w n k. length (snd (snd (sys_read os w n k))) \<le> k" "wf_input (hd_input dev)" "length stack = INPUT_BUF_SIZE"
    and "osc_read os w stack dev = (w1, dev1, Inr current)"
  shows "wf_input current" "dev1 = dev\<lparr>hd_input := current\<rparr>"
proof -
  obtain w2 n got where r: "sys_read os w (hd_fd dev) (length stack) = (w2, n, got)" using prod_cases3 by blast
  have "length (got @ drop (length got) stack) = 22"
    using assms(1) [of w "hd_fd dev" "length stack"] unfolding r using assms(3) by (simp add: INPUT_BUF_SIZE_def)
  from decode_input_eq [OF this assms(2)] assms(4) have "current = decoded (got @ drop (length got) stack)" "dev1 = dev\<lparr>hd_input := current\<rparr>"
    by (auto simp: osc_read_def r split: if_splits)
  then show "wf_input current" "dev1 = dev\<lparr>hd_input := current\<rparr>" by simp_all
qed

lemma driver_turn_inv:
  assumes "\<And>w n k. length (snd (snd (sys_read os w n k))) \<le> k" "length stack = INPUT_BUF_SIZE"
    and "lights_inv os s" "driver_turn os env stack s = Inr s'"
  shows "lights_inv os s'"
proof -
  obtain w1 dev1 r where read: "osc_read os (od_world s) stack (od_dev s) = (w1, dev1, r)" using prod_cases3 by blast
  with assms(4) obtain current where r: "r = Inr current" by (cases r) (auto simp: driver_turn_def)
  have inv: "\<not> od_first_time s" "wf_input (od_last s)" "wf_input (hd_input (od_dev s))" "length (od_stop_buttons s) = 4"
    "lights_of (in_matrix (od_last s)) (od_stop_buttons s) (od_output s)" using assms(3) by (simp_all add: lights_inv_def)
  note cur = osc_read_ok [OF assms(1) inv(3) assms(2) read [unfolded r]]
  let ?diff = "state_minus current (od_last s)"
  let ?input = "\<lambda>on off. ?diff\<lparr>pressed_buttons := (pressed_buttons ?diff)\<lparr>bd_stop := on\<rparr>,
            released_buttons := (released_buttons ?diff)\<lparr>bd_stop := off\<rparr>\<rparr>"
  obtain stop on off b w2 out where t: "toggle_stop (bd_stop (pressed_buttons ?diff)) (od_stop_buttons s) = Inr (stop, on, off)"
      "set_colors os w1 dev1 (?input on off) (od_output s) (od_first_time s) = Inr (w2, out, od_first_time s')"
      and s': "od_world s' = w2" "od_dev s' = dev1" "od_output s' = out" "od_stop_buttons s' = stop" "od_last s' = current"
    using assms(4) by (auto simp: driver_turn_def read r Let_def bind_res_Inr_iff)
  obtain out' where out: "change_lights (?input on off) (od_output s) = Inr out'" "lights_of (in_matrix current) stop out'" "length stop = 4"
    using change_lights_turn [OF cur(1) inv(2,4,5) t(1) refl] by blast
  with t(2) inv(1) have sent: "osc_write os w1 dev1 out = (w2, Inr ())" "\<not> od_first_time s'" "out' = out"
    by (auto simp: set_colors_def bind_res_Inr_iff split: prod.splits)
  from osc_write_sent [OF lights_of_wf sent(1)] out sent cur show ?thesis
    by (auto simp: lights_inv_def lights_sent_def s')
qed

lemma driver_run_lights:
  assumes "\<And>w n k. length (snd (snd (sys_read os w n k))) \<le> k" "driver_run os env jm s"
  shows "lights_inv os s"
  using assms(2)
proof induction
  case (session ns w n s)
  from session(3) show ?case by (rule driver_start_inv)
next
  case (jack j j' p w n s)
  from jack(2) show ?case by (rule driver_start_inv)
next
  case (turn s stack s')
  then show ?case by (blast intro: driver_turn_inv [OF assms(1)])
qed (simp_all add: lights_inv_def lights_sent_def)

text \<open>C14: As long as the program of \<open>driver-osc\<close> runs, whatever is reported and whatever the session or
  JACK does, the lights mirror the input: a matrix button has its full color while it is held and a
  fifth of it otherwise, a stop button is bright while its toggle is on; and the report of exactly
  these lights is the last thing that was written to the device.\<close>

theorem lights_mirror:
  assumes "\<And>w n k. length (snd (snd (sys_read os w n k))) \<le> k" "driver_run os env jm s"
  shows "ho_matrix (od_output s) = map (\<lambda>i. if in_matrix (od_last s) ! i then MTX_COLORS ! i else DIM_COLORS ! i) [0..<16] \<and>
    ho_stop (od_output s) = map (\<lambda>i. if od_stop_buttons s ! i then 0x7f else 25) [0..<4] \<and> lights_sent os s"
  using driver_run_lights [OF assms] by (simp add: lights_inv_def lights_of_def)

definition jc_connected :: "ring jack_client" where
  "jc_connected = \<lparr>jc_name = ''Traktor Kontrol F1'', jc_client = Some 1, jc_port = Some 2,
     jc_buf = Some \<lparr>mem = replicate 256 0, rd = 0, wr = 0\<rparr>, jc_channel = 0, jc_created = 0, jc_sent = 0\<rparr>"

lemma jc_connected_holds: "jc_holds ring_ops ring_ok ring_content jc_connected [] 255"
  by (simp add: jc_holds_def jc_connected_def ring_ok_def ring_content_def ring_read_space_def ring_write_space_def)

lemma jack_connected: "jack_backend ok_env [] = ([C_open, C_callback, C_register, C_activate], Inr (Jack jc_connected))"
  by code_simp

lemma mem_write:
  "wf_hid_output out \<Longrightarrow> osc_write mem_os w dev out = (w\<lparr>md_tx := md_tx w @ [report_layout (output_of out)]\<rparr>, Inr ())"
  by (simp add: osc_write_def encode_output_eq mem_os_def)

lemma sample_start:
  "\<exists>s. driver_start mem_os w n b = Inr s \<and> od_backend s = b \<and> od_last s = idle_input \<and>
     od_dev s = \<lparr>hd_fd = n, hd_input = idle_input\<rparr> \<and> od_stop_buttons s = replicate 4 False \<and> md_rx (od_world s) = md_rx w"
proof -
  let ?out = "\<lparr>ho_matrix = replicate 16 [0, 0, 0], ho_stop = replicate 4 0\<rparr>"
  obtain out1 where out1: "init_lights ?out = Inr out1" "lights_of (replicate 16 False) (replicate 4 False) out1"
    using init_lights_of [of ?out] by auto
  have "change_lights no_change out1 = Inr out1"
    by (simp add: change_lights_def no_change_def light_matrix_def light_stop_def)
  with out1(1) mem_write [OF lights_of_wf [OF out1(2)]] show ?thesis
    by (simp add: driver_start_def Let_def set_colors_def)
qed

lemma driver_turn_ok:
  assumes "osc_read os (od_world s) stack (od_dev s) = (w1, dev1, Inr current)"
    and "toggle_stop (bd_stop (pressed_buttons (state_minus current (od_last s)))) (od_stop_buttons s) = Inr (stop, on, off)"
    and "send_change env ((state_minus current (od_last s))\<lparr>
      pressed_buttons := (pressed_buttons (state_minus current (od_last s)))\<lparr>bd_stop := on\<rparr>,
      released_buttons := (released_buttons (state_minus current (od_last s)))\<lparr>bd_stop := off\<rparr>\<rparr>) (od_backend s) = Inr b"
    and "change_lights ((state_minus current (od_last s))\<lparr>
      pressed_buttons := (pressed_buttons (state_minus current (od_last s)))\<lparr>bd_stop := on\<rparr>,
      released_buttons := (released_buttons (state_minus current (od_last s)))\<lparr>bd_stop := off\<rparr>\<rparr>) (od_output s) = Inr out"
    and "\<not> od_first_time s" "osc_write os w1 dev1 out = (w2, Inr ())"
  shows "driver_turn os env stack s = Inr \<lparr>od_world = w2, od_dev = dev1, od_output = out, od_first_time = False,
      od_stop_buttons = stop, od_last = current, od_backend = b\<rparr>"
  using assms by (simp add: driver_turn_def Let_def set_colors_def)

lemma sample_turn:
  assumes "lights_inv mem_os s" "od_last s = idle_input" "od_backend s = Jack jc_connected" "md_rx (od_world s) = [sample_report]"
    and "od_dev s = \<lparr>hd_fd = n, hd_input = idle_input\<rparr>" "od_stop_buttons s = replicate 4 False"
  shows "\<exists>s'. driver_turn mem_os ok_env (replicate 22 0) s = Inr s' \<and>
    od_last s' = decoded sample_report \<and> od_stop_buttons s' = [True, False, False, False]"
proof -
  let ?diff = "state_minus (decoded sample_report) idle_input"
  let ?input = "?diff\<lparr>pressed_buttons := (pressed_buttons ?diff)\<lparr>bd_stop := [0]\<rparr>,
            released_buttons := (released_buttons ?diff)\<lparr>bd_stop := []\<rparr>\<rparr>"
  have len: "length sample_report = 22" by (simp add: sample_report_def)
  have wf: "wf_input idle_input" by (simp add: wf_input_def idle_input_def)
  have read: "osc_read mem_os (od_world s) (replicate 22 0) (od_dev s) =
      ((od_world s)\<lparr>md_rx := []\<rparr>, (od_dev s)\<lparr>hd_input := decoded sample_report\<rparr>, Inr (decoded sample_report))"
    using assms(4, 5) len decode_input_eq [OF len wf] by (simp add: osc_read_def mem_os_def)
  have t: "toggle_stop (bd_stop (pressed_buttons ?diff)) (replicate 4 False) = Inr ([True, False, False, False], [0], [])"
    by code_simp
  obtain p where p: "push_event ring_ops ?input jc_connected = Inr p"
  proof -
    have "change_ok ?input" "3 * length (change_messages (jc_channel jc_connected) ?input) \<le> 255"
      "list_all (\<lambda>m. length m = 3) (change_messages (jc_channel jc_connected) ?input)" by code_simp+
    note ok = this
    have "\<exists>p. write_all ring_ops (change_messages (jc_channel jc_connected) ?input) jc_connected = Inr p"
      using write_all_holds [OF ref_ring.jack_ring_axioms jc_connected_holds ok(3)] unfolding if_P [OF ok(2)] by blast
    then show thesis using that unfolding push_event_eq [OF ok(1)] by blast
  qed
  obtain out where out: "change_lights ?input (od_output s) = Inr out" "lights_of (in_matrix (decoded sample_report)) [True, False, False, False] out"
    using change_lights_turn [OF wf_decoded wf _ _ t refl] assms(1, 2, 6) by (auto simp: lights_inv_def)
  have send: "send_change ok_env ?input (od_backend s) = Inr (Jack p)"
    unfolding assms(3) send_change_def backend.case ok_env_def ns_env.simps p by simp
  have first: "\<not> od_first_time s" using assms(1) by (simp add: lights_inv_def)
  show ?thesis
    unfolding driver_turn_ok [OF read t [folded assms(2, 6)] send [folded assms(2)] out(1) [folded assms(2)] first
        mem_write [OF lights_of_wf [OF out(2)]]]
    by simp
qed

lemma sample_run_turn:
  "\<exists>s s'. driver_run mem_os ok_env list_midi s \<and> od_last s = idle_input \<and> od_backend s = Jack jc_connected \<and>
     od_stop_buttons s = replicate 4 False \<and> driver_turn mem_os ok_env (replicate 22 0) s = Inr s' \<and>
     od_last s' = decoded sample_report \<and> od_stop_buttons s' = [True, False, False, False]"
proof -
  have rx: "md_rx (sample_world [sample_report]) = [sample_report]" by (simp add: sample_world_def)
  obtain s :: "(mem_dev, ring, client_call list) osc_state" where s:
      "driver_start mem_os (sample_world [sample_report]) 3 (Jack jc_connected) = Inr s" "od_backend s = Jack jc_connected"
      "od_last s = idle_input" "od_dev s = \<lparr>hd_fd = 3, hd_input = idle_input\<rparr>" "od_stop_buttons s = replicate 4 False"
      "md_rx (od_world s) = [sample_report]"
    using sample_start [of "sample_world [sample_report]" 3 "Jack jc_connected :: (ring, client_call list) backend"]
    unfolding rx by blast
  from sample_turn [OF driver_start_inv [OF s(1)] s(3, 2, 6, 4, 5)] s driver_run.jack [OF jack_connected s(1)]
  show ?thesis by blast
qed

lemma mem_os_reads: "length (snd (snd (sys_read mem_os w n k))) \<le> k"
  by (auto simp: mem_os_def split: list.splits)

lemma lights_mirror_witness:
  "\<exists>s. driver_run mem_os ok_env list_midi s \<and> ho_stop (od_output s) = [0x7f, 25, 25, 25] \<and>
     ho_matrix (od_output s) ! 15 = MTX_COLORS ! 15 \<and> ho_matrix (od_output s) ! 14 = DIM_COLORS ! 14"
proof -
  obtain s s' where s: "driver_run mem_os ok_env list_midi s" "driver_turn mem_os ok_env (replicate 22 0) s = Inr s'"
      "od_last s' = decoded sample_report" "od_stop_buttons s' = [True, False, False, False]"
    using sample_run_turn by blast
  have run: "driver_run mem_os ok_env list_midi s'"
    by (rule driver_run.turn [OF s(1) _ s(2)]) (simp add: INPUT_BUF_SIZE_def)
  have bits: "in_matrix (decoded sample_report) ! 15" "\<not> in_matrix (decoded sample_report) ! 14" by code_simp+
  from lights_mirror [OF mem_os_reads run] run s(3, 4) bits show ?thesis
    by (intro exI [of _ s']) (simp del: upt.simps, simp add: numeral_eq_Suc)
qed

end
