(* ===== verification/Osc_Program.thy ===== *)
theory Osc_Program
  imports Osc_Driver
begin

text \<open>
  The whole program of \<open>driver-osc\<close>: \<open>main\<close>, \<open>drop_privileges\<close> and the start of \<open>exec_driver\<close> in
  \<open>exe/osc_driver.cpp\<close>, around the loop of \<open>Osc_Driver\<close>; and the session test \<open>exe/nsm_test.cpp\<close>.
  The process credentials are a part of the world the system calls work on (\<open>ids_api\<close>).
\<close>

section \<open>Process credentials\<close>

record 'w ids_api =
  sys_getuid :: "'w \<Rightarrow> int"
  sys_getgid :: "'w \<Rightarrow> int"
  sys_setuid :: "'w \<Rightarrow> int \<Rightarrow> 'w \<times> int"
  sys_setgid :: "'w \<Rightarrow> int \<Rightarrow> 'w \<times> int"

text \<open>
  What POSIX says of them: \<open>getuid\<close> and \<open>getgid\<close> return the real ids, a successful \<open>setuid\<close> makes its
  argument the effective user id, and neither a failing call nor \<open>setgid\<close> nor a call on a file
  changes the user ids.
\<close>

locale posix_ids =
  fixes os :: "'w posix" and ids :: "'w ids_api"
    and ruid :: "'w \<Rightarrow> int" and euid :: "'w \<Rightarrow> int" and rgid :: "'w \<Rightarrow> int"
  assumes real_ids: "sys_getuid ids w = ruid w" "sys_getgid ids w = rgid w"
    and setuid_law: "sys_setuid ids w u = (w', r) \<Longrightarrow> euid w' = (if r = -1 then euid w else u)"
    and setgid_law: "sys_setgid ids w g = (w', r) \<Longrightarrow> ruid w' = ruid w \<and> euid w' = euid w"
    and file_laws: "euid (fst (sys_open os w path)) = euid w" "euid (fst (sys_close os w n)) = euid w"
      "euid (fst (sys_ioctl_rawinfo os w n)) = euid w" "euid (fst (sys_write os w n bs)) = euid w"
      "euid (fst (sys_read os w n k)) = euid w"

definition drop_privileges :: "'w ids_api \<Rightarrow> 'w \<Rightarrow> 'w \<times> int option" where
  "drop_privileges ids w = (case sys_setgid ids w (sys_getgid ids w) of (w1, r) \<Rightarrow>
     if r = -1 then (w1, Some 1)
     else (case sys_setuid ids w1 (sys_getuid ids w1) of (w2, r) \<Rightarrow>
       if r = -1 then (w2, Some 1) else (w2, None)))"

section \<open>The program\<close>

text \<open>
  Where the program is: waiting for the session, in its loop, ended with a code, or ended by an
  exception that nothing catches.
\<close>

datatype ('w, 'rb, 'j) program =
    Waiting 'w int "('rb, 'j) nsh"
  | Looping "('w, 'rb, 'j) osc_state"
  | Exited int
  | Aborted failure

text \<open>The handler in \<open>main\<close> around \<open>exec_driver\<close>.\<close>

definition main_catch :: "failure \<Rightarrow> ('w, 'rb, 'j) program" where
  "main_catch e = (if e = Hid_error then Exited 1 else Aborted e)"

definition enter_loop :: "'w posix \<Rightarrow> 'w \<Rightarrow> int \<Rightarrow> ('rb, 'j) backend \<Rightarrow> ('w, 'rb, 'j) program" where
  "enter_loop os w n b = (case driver_start os w n b of Inl e \<Rightarrow> main_catch e | Inr s \<Rightarrow> Looping s)"

definition exec_driver ::
    "'w posix \<Rightarrow> ('rb, 'j) ns_env \<Rightarrow> bool \<Rightarrow> string \<Rightarrow> 'j \<Rightarrow> 'w \<Rightarrow> int \<Rightarrow> ('w, 'rb, 'j) program" where
  "exec_driver os env nsm exe j w n =
     (if nsm then
        (case start_session env (nsh_new exe default_signals True j) of
           Inl e \<Rightarrow> main_catch e | Inr s \<Rightarrow> Waiting w n s)
      else
        (case jack_backend env j of
           (_, Inl e) \<Rightarrow> main_catch e | (_, Inr b) \<Rightarrow> enter_loop os w n b))"

text \<open>One look at the session every second.\<close>

definition poll_session :: "'w posix \<Rightarrow> 'w \<Rightarrow> int \<Rightarrow> ('rb, 'j) nsh \<Rightarrow> ('w, 'rb, 'j) program" where
  "poll_session os w n s = (case session_wait s of
     Keep_waiting \<Rightarrow> Waiting w n s | Return c \<Rightarrow> Exited c | Go_ahead \<Rightarrow> enter_loop os w n (Session s))"

definition osc_main ::
    "'w posix \<Rightarrow> 'w ids_api \<Rightarrow> ('rb, 'j) ns_env \<Rightarrow> bool \<Rightarrow> string \<Rightarrow> 'j \<Rightarrow> 'w \<Rightarrow> ('w, 'rb, 'j) program option" where
  "osc_main os ids env nsm exe j w = map_option (\<lambda>(w1, r). case r of
       Exit_code c \<Rightarrow> Exited c
     | Device n \<Rightarrow>
         if sys_getuid ids w1 = 0 then (case drop_privileges ids w1 of
             (w2, Some c) \<Rightarrow> Exited c
           | (w2, None) \<Rightarrow> exec_driver os env nsm exe j w2 n)
         else exec_driver os env nsm exe j w1 n)
     (search_device os 0 w)"

text \<open>
  The runs: while the program waits, and in its loop, liblo delivers messages and JACK calls the
  process callback.  A handler of the server thread that fails ends the program.
\<close>

inductive osc_program ::
    "'w posix \<Rightarrow> 'w ids_api \<Rightarrow> ('rb, 'j) ns_env \<Rightarrow> 'b jack_midi \<Rightarrow> 'w \<Rightarrow> ('w, 'rb, 'j) program \<Rightarrow> bool"
    for os ids env jm w0 where
  boot: "osc_main os ids env nsm exe j w0 = Some p \<Longrightarrow> osc_program os ids env jm w0 p"
| reply: "osc_program os ids env jm w0 (Waiting w n s) \<Longrightarrow> dispatch env source msg s = r \<Longrightarrow>
    osc_program os ids env jm w0 (case r of Inl e \<Rightarrow> Aborted e | Inr s' \<Rightarrow> Waiting w n s')"
| poll: "osc_program os ids env jm w0 (Waiting w n s) \<Longrightarrow> osc_program os ids env jm w0 (poll_session os w n s)"
| turn: "osc_program os ids env jm w0 (Looping s) \<Longrightarrow> length stack = INPUT_BUF_SIZE \<Longrightarrow> driver_turn os env stack s = r \<Longrightarrow>
    osc_program os ids env jm w0 (case r of Inl e \<Rightarrow> main_catch e | Inr s' \<Rightarrow> Looping s')"
| message: "osc_program os ids env jm w0 (Looping s) \<Longrightarrow> od_backend s = Session ns \<Longrightarrow> dispatch env source msg ns = r \<Longrightarrow>
    osc_program os ids env jm w0 (case r of Inl e \<Rightarrow> Aborted e | Inr ns' \<Rightarrow> Looping (s\<lparr>od_backend := Session ns'\<rparr>))"
| period: "osc_program os ids env jm w0 (Looping s) \<Longrightarrow> od_backend s = Jack p \<Longrightarrow> process_cb (en_ring env) jm p b = Inr (p', b', res) \<Longrightarrow>
    osc_program os ids env jm w0 (Looping (s\<lparr>od_backend := Jack p'\<rparr>))"
| session_period: "osc_program os ids env jm w0 (Looping s) \<Longrightarrow> od_backend s = Session ns \<Longrightarrow> ns_jack ns = Some p \<Longrightarrow>
    process_cb (en_ring env) jm p b = Inr (p', b', res) \<Longrightarrow>
    osc_program os ids env jm w0 (Looping (s\<lparr>od_backend := Session (ns\<lparr>ns_jack := Some p'\<rparr>)\<rparr>))"

section \<open>The session test\<close>

definition get_env :: "string option \<Rightarrow> string" where
  "get_env val = (case val of None \<Rightarrow> [] | Some v \<Rightarrow> v)"

text \<open>The messages are those that arrive in the ten seconds the program sleeps.\<close>

definition nsm_test_main ::
    "('rb, 'j) ns_env \<Rightarrow> string option \<Rightarrow> string \<Rightarrow> 'j \<Rightarrow> (string \<times> osc_msg) list \<Rightarrow> int res" where
  "nsm_test_main env NSM_URL exe j msgs =
     (if get_env NSM_URL = [] then Inr 1
      else bind_res (start_session env (nsh_new exe [] False j)) (\<lambda>s.
        bind_res (fold_res (\<lambda>(source, msg). dispatch env source msg) msgs s) (\<lambda>_. Inr 0)))"

section \<open>Exits\<close>

definition program_ok :: "'w posix \<Rightarrow> ('rb, 'j) ns_env \<Rightarrow> 'b jack_midi \<Rightarrow> ('w, 'rb, 'j) program \<Rightarrow> bool" where
  "program_ok os env jm p \<longleftrightarrow> (case p of
     Waiting w n s \<Rightarrow> session_run env s
   | Looping s \<Rightarrow> driver_run os env jm s
   | Exited c \<Rightarrow> c \<in> {1, 2, 3, 4}
   | Aborted e \<Rightarrow> True)"

lemma main_catch_ok: "program_ok os env jm (main_catch e)"
  by (simp add: program_ok_def main_catch_def)

lemma enter_loop_session:
  "session_run env s \<Longrightarrow> session_wait s = Go_ahead \<Longrightarrow> program_ok os env jm (enter_loop os w n (Session s))"
  by (auto simp: enter_loop_def main_catch_ok split: sum.split)
     (auto simp: program_ok_def intro: driver_run.session)

lemma exec_driver_ok: "program_ok os env jm (exec_driver os env nsm exe j w n)"
  by (auto simp: exec_driver_def enter_loop_def main_catch_ok split: sum.split prod.split)
     (auto simp: program_ok_def intro: driver_run.jack session_run.started)

lemma search_turn_codes: "search_turn os w i = (w', Some (Exit_code c)) \<Longrightarrow> c \<in> {2, 3}"
  by (auto simp: search_turn_def split: prod.splits if_splits)

lemma osc_main_ok:
  assumes "osc_main os ids env nsm exe j w = Some p"
  shows "program_ok os env jm p"
proof -
  from assms obtain w1 r where s: "search_device os 0 w = Some (w1, r)"
      and p: "p = (case r of Exit_code c \<Rightarrow> Exited c | Device n \<Rightarrow>
         if sys_getuid ids w1 = 0 then (case drop_privileges ids w1 of
             (w2, Some c) \<Rightarrow> Exited c | (w2, None) \<Rightarrow> exec_driver os env nsm exe j w2 n)
         else exec_driver os env nsm exe j w1 n)"
    by (auto simp: osc_main_def)
  show ?thesis
  proof (cases r)
    case (Exit_code c)
    with search_device_stops [OF s] search_turn_codes have "c \<in> {2, 3}" by fastforce
    with p Exit_code show ?thesis by (auto simp: program_ok_def)
  next
    case (Device n)
    obtain w2 d where d: "drop_privileges ids w1 = (w2, d)" by fastforce
    then have "d = None \<or> d = Some 1" by (auto simp: drop_privileges_def split: prod.splits if_splits)
    with p Device d show ?thesis by (auto simp: exec_driver_ok) (simp_all add: program_ok_def)
  qed
qed

lemma poll_session_ok: "session_run env s \<Longrightarrow> program_ok os env jm (poll_session os w n s)"
  by (auto simp: poll_session_def enter_loop_session split: wait.split)
     (auto simp: program_ok_def session_wait_def split: if_splits)

lemma osc_program_ok: "osc_program os ids env jm w0 p \<Longrightarrow> program_ok os env jm p"
proof (induction rule: osc_program.induct)
  case (boot nsm exe j p)
  then show ?case by (rule osc_main_ok)
next
  case (reply w n s source msg r)
  then show ?case by (auto simp: program_ok_def intro: session_run.message split: sum.split)
next
  case (poll w n s)
  then show ?case by (simp add: program_ok_def [of _ _ _ "Waiting w n s"] poll_session_ok)
next
  case (turn s stack r)
  then show ?case by (cases r) (auto simp: main_catch_ok, auto simp: program_ok_def intro: driver_run.turn)
next
  case (message s ns source msg r)
  then show ?case by (cases r) (auto simp: program_ok_def intro: driver_run.message)
next
  case (period s p b p' b' res)
  then show ?case by (auto simp: program_ok_def intro: driver_run.period)
next
  case (session_period s ns p b p' b' res)
  then show ?case by (auto simp: program_ok_def intro: driver_run.session_period)
qed

section \<open>Credentials\<close>

definition program_world :: "('w, 'rb, 'j) program \<Rightarrow> 'w option" where
  "program_world p = (case p of Waiting w n s \<Rightarrow> Some w | Looping s \<Rightarrow> Some (od_world s) | _ \<Rightarrow> None)"

lemma program_world_simps [simp]:
  "program_world (Waiting w n s) = Some w" "program_world (Looping t) = Some (od_world t)"
  "program_world (Exited c) = None" "program_world (Aborted e) = None" "program_world (main_catch e) = None"
  by (simp_all add: program_world_def main_catch_def)

context posix_ids
begin

lemma osc_write_euid: "osc_write os w dev out = (w', r) \<Longrightarrow> euid w' = euid w"
  using file_laws(4) by (auto simp: osc_write_def split: sum.splits prod.splits) (metis fst_conv)+

lemma osc_read_euid: "osc_read os w stack dev = (w', r) \<Longrightarrow> euid w' = euid w"
  using file_laws(5) by (auto simp: osc_read_def split: sum.splits prod.splits if_splits) (metis fst_conv)+

lemma set_colors_euid: "set_colors os w dev input out first = Inr (w', out', first') \<Longrightarrow> euid w' = euid w"
proof -
  assume a: "set_colors os w dev input out first = Inr (w', out', first')"
  obtain w1 out1 out2 where f: "(if first then bind_res (init_lights out) (\<lambda>o1. case osc_write os w dev o1 of
        (w1, r) \<Rightarrow> bind_res r (\<lambda>_. Inr (w1, o1))) else Inr (w, out)) = Inr (w1, out1)"
      and s: "(case osc_write os w1 dev out2 of (w2, r) \<Rightarrow> bind_res r (\<lambda>_. Inr (w2, out2, False))) = Inr (w', out', first')"
    using a by (auto simp: set_colors_def bind_res_Inr_iff)
  obtain w2 r where w2: "osc_write os w1 dev out2 = (w2, r)" by fastforce
  with s have "w2 = w'" by (auto simp: bind_res_Inr_iff)
  moreover have "euid w1 = euid w"
  proof (cases first)
    case True
    with f obtain o1 where o1: "(case osc_write os w dev o1 of (w1, r) \<Rightarrow> bind_res r (\<lambda>_. Inr (w1, o1))) = Inr (w1, out1)"
      by (auto simp: bind_res_Inr_iff)
    obtain w3 r' where w3: "osc_write os w dev o1 = (w3, r')" by fastforce
    with o1 have "w3 = w1" by (auto simp: bind_res_Inr_iff)
    with osc_write_euid [OF w3] show ?thesis by simp
  qed (use f in simp)
  ultimately show ?thesis using osc_write_euid [OF w2] by simp
qed

lemma driver_start_euid: "driver_start os w n b = Inr s \<Longrightarrow> euid (od_world s) = euid w"
  by (auto simp: driver_start_def Let_def bind_res_Inr_iff split: prod.splits dest!: set_colors_euid)

lemma driver_turn_euid: "driver_turn os env stack s = Inr s' \<Longrightarrow> euid (od_world s') = euid (od_world s)"
  by (auto simp: driver_turn_def Let_def bind_res_Inr_iff split: prod.splits sum.splits
      dest!: set_colors_euid osc_read_euid)

lemma search_turn_euid: "search_turn os w i = (w', r) \<Longrightarrow> euid w' = euid w"
  using file_laws(1-3) by (auto simp: search_turn_def split: prod.splits if_splits) (metis fst_conv)+

lemma search_device_euid:
  assumes "search_device os i w = Some y"
  shows "euid (fst y) = euid w"
proof -
  from search_device_stops [OF assms] obtain k w2 where "osc_passed_over os i w k w2" "search_turn os w2 k = (fst y, Some (snd y))"
    by blast
  moreover have "osc_passed_over os i w k w2 \<Longrightarrow> euid w2 = euid w" for i w k w2
    by (induction rule: osc_passed_over.induct) (use file_laws(1-3) in \<open>metis fst_conv\<close>)+
  ultimately show ?thesis using search_turn_euid by metis
qed

lemma drop_privileges_euid: "ruid w = 0 \<Longrightarrow> drop_privileges ids w = (w', None) \<Longrightarrow> euid w' = 0"
  using setgid_law setuid_law by (auto simp: drop_privileges_def real_ids split: prod.splits if_splits)

lemma enter_loop_euid: "program_world (enter_loop os w n b) = Some w' \<Longrightarrow> euid w' = euid w"
  by (auto simp: enter_loop_def split: sum.splits dest: driver_start_euid)

lemma exec_driver_euid: "program_world (exec_driver os env nsm exe j w n) = Some w' \<Longrightarrow> euid w' = euid w"
  by (auto simp: exec_driver_def split: sum.splits prod.splits if_splits dest: enter_loop_euid)

lemma osc_main_euid:
  assumes "osc_main os ids env nsm exe j w0 = Some p" "euid w0 = 0" "program_world p = Some w"
  shows "euid w = 0"
proof -
  from assms(1) obtain w1 r where s: "search_device os 0 w0 = Some (w1, r)"
      and p: "p = (case r of Exit_code c \<Rightarrow> Exited c | Device n \<Rightarrow>
         if ruid w1 = 0 then (case drop_privileges ids w1 of
             (w2, Some c) \<Rightarrow> Exited c | (w2, None) \<Rightarrow> exec_driver os env nsm exe j w2 n)
         else exec_driver os env nsm exe j w1 n)"
    by (auto simp: osc_main_def real_ids)
  from search_device_euid [OF s] assms(2) have e: "euid w1 = 0" by simp
  obtain n where n: "r = Device n" using p assms(3) by (cases r) auto
  show ?thesis
  proof (cases "ruid w1 = 0")
    case True
    obtain w2 d where d: "drop_privileges ids w1 = (w2, d)" by fastforce
    with p n True assms(3) have "d = None" by (cases d) auto
    with p n True d assms(3) drop_privileges_euid [OF True] show ?thesis by (auto dest: exec_driver_euid)
  next
    case False
    with p n assms(3) e show ?thesis by (auto dest: exec_driver_euid)
  qed
qed

lemma poll_session_euid: "program_world (poll_session os w n s) = Some w' \<Longrightarrow> euid w' = euid w"
  by (auto simp: poll_session_def split: wait.splits dest: enter_loop_euid)

lemma osc_program_euid:
  "osc_program os ids env jm w0 p \<Longrightarrow> euid w0 = 0 \<Longrightarrow> \<forall>w. program_world p = Some w \<longrightarrow> euid w = 0"
proof (induction rule: osc_program.induct)
  case (boot nsm exe j p)
  then show ?case by (blast intro: osc_main_euid)
next
  case (turn s stack r)
  then show ?case by (auto split: sum.splits dest: driver_turn_euid)
qed (auto split: sum.splits dest: poll_session_euid)

end

section \<open>Credentials in memory\<close>

text \<open>The rules of Linux for the ids of a process, beside a world of files.\<close>

record creds =
  cr_ruid :: int
  cr_euid :: int
  cr_suid :: int
  cr_rgid :: int
  cr_egid :: int

definition cred_os :: "'w posix \<Rightarrow> ('w \<times> creds) posix" where
  "cred_os os = \<lparr>
     sys_open = (\<lambda>(w, c) path. case sys_open os w path of (w', n) \<Rightarrow> ((w', c), n)),
     sys_close = (\<lambda>(w, c) n. case sys_close os w n of (w', r) \<Rightarrow> ((w', c), r)),
     sys_ioctl_rawinfo = (\<lambda>(w, c) n. case sys_ioctl_rawinfo os w n of (w', r) \<Rightarrow> ((w', c), r)),
     sys_write = (\<lambda>(w, c) n bs. case sys_write os w n bs of (w', r) \<Rightarrow> ((w', c), r)),
     sys_read = (\<lambda>(w, c) n k. case sys_read os w n k of (w', r) \<Rightarrow> ((w', c), r)),
     sys_errno = (\<lambda>(w, c). sys_errno os w)\<rparr>"

definition cred_ids :: "('w \<times> creds) ids_api" where
  "cred_ids = \<lparr>
     sys_getuid = (\<lambda>(w, c). cr_ruid c), sys_getgid = (\<lambda>(w, c). cr_rgid c),
     sys_setuid = (\<lambda>(w, c) u. if u = -1 then ((w, c), -1)
       else if cr_euid c = 0 then ((w, c\<lparr>cr_ruid := u, cr_euid := u, cr_suid := u\<rparr>), 0)
       else if u = cr_ruid c \<or> u = cr_suid c then ((w, c\<lparr>cr_euid := u\<rparr>), 0) else ((w, c), -1)),
     sys_setgid = (\<lambda>(w, c) g. if cr_euid c = 0 \<or> g = cr_rgid c then ((w, c\<lparr>cr_egid := g\<rparr>), 0) else ((w, c), -1))\<rparr>"

interpretation linux_ids: posix_ids "cred_os os" cred_ids "\<lambda>w. cr_ruid (snd w)" "\<lambda>w. cr_euid (snd w)" "\<lambda>w. cr_rgid (snd w)"
  by unfold_locales (auto simp: cred_os_def cred_ids_def split: prod.splits if_splits)

definition setuid_root :: creds where
  "setuid_root = \<lparr>cr_ruid = 1000, cr_euid = 0, cr_suid = 0, cr_rgid = 1000, cr_egid = 1000\<rparr>"

lemma cred_write: "osc_write (cred_os os) (w, c) dev out = (case osc_write os w dev out of (w', r) \<Rightarrow> ((w', c), r))"
  by (auto simp: osc_write_def cred_os_def split: sum.split prod.split)

lemma cred_start:
  "\<exists>s. driver_start (cred_os mem_os) (w, c) n b = Inr s \<and> od_backend s = b \<and> snd (od_world s) = c"
proof -
  let ?out = "\<lparr>ho_matrix = replicate 16 [0, 0, 0], ho_stop = replicate 4 0\<rparr>"
  obtain out1 where out1: "init_lights ?out = Inr out1" "lights_of (replicate 16 False) (replicate 4 False) out1"
    using init_lights_of [of ?out] by auto
  have "change_lights no_change out1 = Inr out1"
    by (simp add: change_lights_def no_change_def light_matrix_def light_stop_def)
  with out1(1) mem_write [OF lights_of_wf [OF out1(2)]] show ?thesis
    by (simp add: driver_start_def Let_def set_colors_def cred_write)
qed

lemma cred_search:
  "search_device (cred_os mem_os) 0 (sample_world [], setuid_root) = Some ((sample_world [], setuid_root), Device 3)"
proof -
  have "search_turn (cred_os mem_os) (sample_world [], setuid_root) 0 = ((sample_world [], setuid_root), Some (Device 3))"
    by code_simp
  then show ?thesis by (subst search_device.simps) simp
qed

lemma cred_main:
  "\<exists>s. osc_main (cred_os mem_os) cred_ids ok_env False exe [] (sample_world [], setuid_root) = Some (Looping s) \<and>
     od_backend s = Jack jc_connected"
proof -
  obtain s :: "(mem_dev \<times> creds, ring, client_call list) osc_state" where
      s: "driver_start (cred_os mem_os) (sample_world [], setuid_root) 3 (Jack jc_connected) = Inr s" "od_backend s = Jack jc_connected"
    using cred_start by blast
  have "sys_getuid cred_ids (sample_world [], setuid_root) = 1000" by (simp add: cred_ids_def setuid_root_def)
  with s show ?thesis by (simp add: osc_main_def cred_search exec_driver_def jack_connected enter_loop_def)
qed

section \<open>Properties\<close>

text \<open>C10: Dropping privileges has no effect: whenever the process starts with effective user id 0, be it
  started by root or set-user-id root, it still has effective user id 0 in the main loop, after every
  run up to there.  \<open>drop_privileges\<close> is only called when the real user id is 0, and then sets the
  effective one to the real one.\<close>

theorem root_never_dropped:
  assumes "posix_ids os ids ruid euid rgid" "euid w0 = 0" "osc_program os ids env jm w0 (Looping s)"
  shows "euid (od_world s) = 0"
  using posix_ids.osc_program_euid [OF assms(1, 3, 2)] by simp

lemma root_never_dropped_witness:
  "\<exists>s. osc_program (cred_os mem_os) cred_ids ok_env list_midi (sample_world [], setuid_root) (Looping s) \<and>
     cr_ruid setuid_root = 1000 \<and> cr_euid (snd (od_world s)) = 0"
proof -
  obtain s where s: "osc_main (cred_os mem_os) cred_ids ok_env False ''driver'' [] (sample_world [], setuid_root) = Some (Looping s)"
    using cred_main by blast
  have "cr_ruid setuid_root = 1000" "cr_euid (snd (sample_world [], setuid_root)) = 0" by (simp_all add: setuid_root_def)
  moreover have run: "osc_program (cred_os mem_os) cred_ids ok_env list_midi (sample_world [], setuid_root) (Looping s)"
    by (rule osc_program.boot [OF s])
  moreover from root_never_dropped [OF linux_ids.posix_ids_axioms _ run] have "cr_euid (snd (od_world s)) = 0"
    by (simp add: setuid_root_def)
  ultimately show ?thesis by blast
qed



text \<open>Without a session, a JACK server that is not there ends the program by an exception: \<open>main\<close>
  catches those of the device only.\<close>

lemma jack_failure_aborts:
  "search_device os 0 w = Some (w1, Device n) \<Longrightarrow> sys_getuid ids w1 \<noteq> 0 \<Longrightarrow> jack_backend env j = (j', Inl Jack_error) \<Longrightarrow>
   osc_main os ids env False exe j w = Some (Aborted Jack_error)"
  by (simp add: osc_main_def exec_driver_def main_catch_def)

end
