(* ===== verification/Osc_Debug.thy ===== *)
theory Osc_Debug
  imports Osc_Driver
begin

text \<open>
  The debugging program of \<open>driver-osc\<close> (\<open>exe/debug.cpp\<close>): the turn of its loop, which reads a
  report, colors the matrix and derives the color of the idle buttons from the faders; the text it
  prints; and its runs.
\<close>

section \<open>Range mapping\<close>

text \<open>
  \<open>vmap<std::uint16_t>\<close> promotes its operands to \<open>int\<close> and converts the result back; \<open>vmap<float>\<close>
  rounds every operation.
\<close>

definition vmap_u16 :: "u16 \<Rightarrow> u16 \<Rightarrow> u16 \<Rightarrow> u16 \<Rightarrow> u16 \<Rightarrow> u16 res" where
  "vmap_u16 val from_min from_max to_min to_max =
     (let p = (uint val - uint from_min) * (uint to_max - uint to_min); d = uint from_max - uint from_min
      in if d = 0 \<or> \<bar>p\<bar> \<ge> 2 ^ 31 then Inl Undefined_behaviour
         else Inr (word_of_int (sgn p * sgn d * (\<bar>p\<bar> div \<bar>d\<bar>) + uint to_min)))"

definition vmap_float :: "rat \<Rightarrow> rat \<Rightarrow> rat \<Rightarrow> rat \<Rightarrow> rat \<Rightarrow> rat" where
  "vmap_float val from_min from_max to_min to_max =
     fl 24 (fl 24 (fl 24 (fl 24 (val - from_min) * fl 24 (to_max - to_min)) / fl 24 (from_max - from_min)) + to_min)"

text \<open>The conversion of a \<open>float\<close> to \<open>std::uint16_t\<close>, undefined out of range.\<close>

definition cast_u16 :: "rat \<Rightarrow> u16 res" where
  "cast_u16 x = (let t = (if 0 \<le> x then \<lfloor>x\<rfloor> else - \<lfloor>- x\<rfloor>)
     in if 0 \<le> t \<and> t < 2 ^ 16 then Inr (word_of_int t) else Inl Undefined_behaviour)"

section \<open>One turn\<close>

record debug_state =
  db_dev :: f1_hid_dev
  db_output :: hid_output
  db_color :: "byte \<times> byte \<times> byte"

definition debug_matrix :: "f1_inpu_state \<Rightarrow> byte \<times> byte \<times> byte \<Rightarrow> byte list list \<Rightarrow> byte list list res" where
  "debug_matrix data color = (case color of (r, g, b) \<Rightarrow> fold_res (\<lambda>i m.
     bind_res (sub_res (in_matrix data) i) (\<lambda>held.
       set_at_res m i (if held then osc_rgb2color (word_of_nat (i * 8)) (word_of_nat (0x7f - i * 8)) 0
         else osc_rgb2color r g b))) [0..<16])"

definition fader_level :: "f1_inpu_state \<Rightarrow> rat \<Rightarrow> nat \<Rightarrow> byte res" where
  "fader_level data brightness i =
     bind_res (at_res (in_faders data) i) (\<lambda>v.
     bind_res (cast_u16 (fl 24 (of_int (uint v) * brightness))) (\<lambda>x.
     bind_res (vmap_u16 x 0 0xfff 0 0x7f) (\<lambda>y. Inr (ucast y))))"

definition debug_color :: "f1_inpu_state \<Rightarrow> (byte \<times> byte \<times> byte) res" where
  "debug_color data =
     bind_res (at_res (in_faders data) 3) (\<lambda>v.
     let brightness = vmap_float (of_int (uint v)) 0 0xfff 0 1 in
     bind_res (fader_level data brightness 0) (\<lambda>r.
     bind_res (fader_level data brightness 1) (\<lambda>g.
     bind_res (fader_level data brightness 2) (\<lambda>b. Inr (r, g, b)))))"

definition debug_turn :: "'w posix \<Rightarrow> 'w \<Rightarrow> byte list \<Rightarrow> debug_state \<Rightarrow> 'w \<times> debug_state res" where
  "debug_turn os w stack s = (case osc_read os w stack (db_dev s) of
     (w1, dev1, Inl e) \<Rightarrow> (w1, Inl e)
   | (w1, dev1, Inr data) \<Rightarrow> (case debug_matrix data (db_color s) (ho_matrix (db_output s)) of
       Inl e \<Rightarrow> (w1, Inl e)
     | Inr matrix \<Rightarrow>
         let out = (db_output s)\<lparr>ho_matrix := matrix\<rparr> in
         (case osc_write os w1 dev1 out of
           (w2, Inl e) \<Rightarrow> (w2, Inl e)
         | (w2, Inr _) \<Rightarrow> (w2, bind_res (debug_color data) (\<lambda>color.
             Inr \<lparr>db_dev = dev1, db_output = out, db_color = color\<rparr>)))))"

section \<open>The text\<close>

fun show_hex :: "nat \<Rightarrow> string" where
  "show_hex n = (if n < 16 then [''0123456789abcdef'' ! n] else show_hex (n div 16) @ [''0123456789abcdef'' ! (n mod 16)])"

declare show_hex.simps [simp del]

text \<open>\<open>std::hex\<close> stays set on the stream: from then on every integer is printed with radix 16.\<close>

definition show_int :: "bool \<Rightarrow> nat \<Rightarrow> string" where
  "show_int hex n = (if hex then show_hex n else show_nat n)"

definition ENDL :: string where "ENDL = [CHR 0x0A]"

definition debug_text_matrix :: "f1_inpu_state \<Rightarrow> string \<Rightarrow> string res" where
  "debug_text_matrix data = fold_res (\<lambda>j out.
     bind_res (fold_res (\<lambda>i out. bind_res (sub_res (in_matrix data) (i + 4 * j)) (\<lambda>held.
         Inr (out @ '' '' @ (if held then ''X'' else ''-'')))) [0..<4] (out @ ''   ''))
       (\<lambda>out. Inr (out @ ENDL))) [0..<4]"

definition debug_text_stop :: "f1_inpu_state \<Rightarrow> string \<Rightarrow> string res" where
  "debug_text_stop data out = fold_res (\<lambda>i out. bind_res (sub_res (in_stop data) i) (\<lambda>held.
       Inr (out @ '' '' @ (if held then ''S'' else ''.'')))) [0..<4] (out @ ENDL @ ''Stop buttons'' @ ENDL @ ''   '')"

definition debug_text_special :: "f1_inpu_state \<Rightarrow> string \<Rightarrow> string res" where
  "debug_text_special data out =
     bind_res (fold_res (\<lambda>i out. bind_res (sub_res (in_special data) i) (\<lambda>held.
         bind_res (at_res ''WBSTR+CQS'' i) (\<lambda>ch. Inr (out @ [if held then ch else CHR ''-''] @ '' '')))) [0..<9]
       (out @ ENDL @ ''Special buttons'' @ ENDL)) (\<lambda>out. Inr (out @ ENDL))"

definition debug_text_positions :: "string \<Rightarrow> u16 list \<Rightarrow> string \<Rightarrow> string res" where
  "debug_text_positions name vals = fold_res (\<lambda>i out. bind_res (at_res vals i) (\<lambda>v.
     Inr (out @ name @ show_hex i @ '' '' @ show_hex (unat v) @ [CHR 0x09]))) [0..<4]"

text \<open>What a turn prints, and that the stream is hexadecimal after it.\<close>

definition debug_text :: "bool \<Rightarrow> f1_inpu_state \<Rightarrow> string res" where
  "debug_text hex data =
     bind_res (debug_text_matrix data (''[REPORT ID '' @ show_int hex (unat (in_report_id data)) @ '']'' @ ENDL @
       ''Button Matrix'' @ ENDL)) (\<lambda>out.
     bind_res (debug_text_stop data out) (\<lambda>out.
     bind_res (debug_text_special data out) (\<lambda>out.
     bind_res (debug_text_positions ''K'' (in_knobs data)
       (out @ ENDL @ ''Wheel: '' @ show_int hex (unat (in_wheel data)) @ ENDL @ ''Knobs and faders'' @ ENDL)) (\<lambda>out.
     bind_res (debug_text_positions ''F'' (in_faders data) out) (\<lambda>out. Inr (out @ ENDL))))))"

section \<open>The program\<close>

datatype 'w debug_program = Debugging 'w debug_state bool string | Debug_ended int | Debug_aborted failure

text \<open>
  \<open>output_data\<close> is not initialised: its content is an argument.  Nothing catches an exception of the
  device.
\<close>

definition debug_start :: "'w posix \<Rightarrow> string \<Rightarrow> hid_output \<Rightarrow> 'w \<Rightarrow> 'w debug_program" where
  "debug_start os devfile indet w = (case sys_open os w devfile of (w1, n) \<Rightarrow>
     if n < 0 then Debug_ended 1
     else Debugging w1 \<lparr>db_dev = hid_dev_new n, db_output = indet, db_color = (0, 0, 0)\<rparr> False [])"

text \<open>The output of the turns that were completed.\<close>

definition debug_step :: "'w posix \<Rightarrow> byte list \<Rightarrow> 'w \<Rightarrow> debug_state \<Rightarrow> bool \<Rightarrow> string \<Rightarrow> 'w debug_program" where
  "debug_step os stack w s hex out = (case debug_turn os w stack s of
     (w1, Inl e) \<Rightarrow> Debug_aborted e
   | (w1, Inr s1) \<Rightarrow> (case debug_text hex (hd_input (db_dev s1)) of
       Inl e \<Rightarrow> Debug_aborted e
     | Inr txt \<Rightarrow> Debugging w1 s1 True (out @ txt)))"

inductive debug_run :: "'w posix \<Rightarrow> string \<Rightarrow> 'w debug_program \<Rightarrow> bool" for os devfile where
  start: "length (ho_matrix indet) = 16 \<Longrightarrow> length (ho_stop indet) = 4 \<Longrightarrow> debug_run os devfile (debug_start os devfile indet w)"
| step: "debug_run os devfile (Debugging w s hex out) \<Longrightarrow> length stack = 22 \<Longrightarrow>
    debug_run os devfile (debug_step os stack w s hex out)"

section \<open>The faders' color\<close>

lemma uint_12bit: "unat (x :: u16) \<le> 0xfff \<Longrightarrow> 0 \<le> uint x \<and> uint x \<le> 4095"
  unfolding uint_of_unat by (intro conjI) linarith+

lemma vmap_u16_level:
  assumes "unat x \<le> 0xfff"
  shows "vmap_u16 x 0 0xfff 0 0x7f = Inr (word_of_int (uint x * 127 div 4095))"
proof -
  define n where "n = uint x"
  have n: "0 \<le> n" "n \<le> 4095" using uint_12bit [OF assms] by (simp_all add: n_def)
  have k: "uint (0 :: u16) = 0" "uint (0xfff :: u16) = 4095" "uint (0x7f :: u16) = 127" by simp_all
  have e: "sgn (n * 127) * sgn 4095 * (\<bar>n * 127\<bar> div \<bar>4095\<bar>) + 0 = n * 127 div 4095"
    using n by (cases "n = 0") (simp_all add: sgn_if)
  have c: "\<not> ((4095 :: int) = 0 \<or> \<bar>n * 127\<bar> \<ge> 2 ^ 31)" using n by simp
  show ?thesis unfolding vmap_u16_def k n_def [symmetric] Let_def diff_zero by (simp only: e c if_False)
qed

lemma fl_up:
  assumes "0 \<le> x"
  shows "fl 24 x \<le> x + x / 2 ^ 24"
proof -
  have "fl 24 x - x \<le> \<bar>x\<bar> / 2 ^ 24" using fl_error [of 24 x] by linarith
  with assms show ?thesis by simp
qed

lemma brightness_bounds:
  assumes "v \<le> 0xfff"
  shows "0 \<le> vmap_float (of_nat v) 0 0xfff 0 1 \<and> vmap_float (of_nat v) 0 0xfff 0 1 \<le> 1 + 1 / 2 ^ 24"
proof -
  have int: "fl 24 (of_nat n) = of_nat n" if "n < 2 ^ 24" for n
    using fl_of_int [of "int n" 24] that by simp
  let ?y = "fl 24 (of_nat v / 0xfff)"
  have "fl 24 1 = 1" "fl 24 0xfff = 0xfff" using int [of 1] int [of "0xfff"] by simp_all
  then have eq: "vmap_float (of_nat v) 0 0xfff 0 1 = fl 24 ?y"
    using int [of v] assms by (simp add: vmap_float_def)
  note y = fl_position [OF assms]
  then have "fl 24 ?y \<le> ?y + ?y / 2 ^ 24" by (intro fl_up) simp
  also have "\<dots> \<le> 1 + 1 / 2 ^ 24" using y by simp
  finally show ?thesis unfolding eq using fl_nonneg [of ?y 24] y by simp
qed

lemma level_byte:
  assumes "0 \<le> t" "t \<le> 4095"
  shows "vmap_u16 (word_of_int t) 0 0xfff 0 0x7f = Inr (word_of_int (t * 127 div 4095)) \<and>
    unat (ucast (word_of_int (t * 127 div 4095) :: u16) :: byte) < 128"
proof -
  have u: "uint (word_of_int s :: u16) = s" if "0 \<le> s" "s \<le> 4095" for s
    using that by (simp add: uint_word_of_int)
  have "unat (word_of_int t :: u16) \<le> 0xfff" unfolding unat_eq_nat_uint u [OF assms] using assms by simp
  note l = vmap_u16_level [OF this, unfolded u [OF assms]]
  define q where "q = t * 127 div 4095"
  have q: "0 \<le> q" "q \<le> 127" using assms by (simp_all add: q_def pos_imp_zdiv_nonneg_iff)
  have "uint (ucast (word_of_int q :: u16) :: byte) = q"
    using q u [of q] by (simp add: unsigned_ucast_eq take_bit_int_eq_self)
  then have "unat (ucast (word_of_int q :: u16) :: byte) < 128" using q by (simp add: unat_eq_nat_uint)
  with l show ?thesis unfolding q_def by simp
qed

lemma fader_level_ok:
  assumes "i < length (in_faders data)" "unat (in_faders data ! i) \<le> 0xfff" "0 \<le> br" "br \<le> 1 + 1 / 2 ^ 24"
  shows "\<exists>c. fader_level data br i = Inr c \<and> unat c < 128"
proof -
  define v :: rat where "v = of_int (uint (in_faders data ! i))"
  have "v \<le> of_int 4095" "of_int 0 \<le> v" unfolding v_def of_int_le_iff using uint_12bit [OF assms(2)] by blast+
  then have v: "v \<le> 4095" "0 \<le> v" by simp_all
  have x: "0 \<le> v * br" "v * br \<le> 4095 * (1 + 1 / 2 ^ 24)"
    using v assms(3, 4) by (simp, intro mult_mono) simp_all
  define y where "y = fl 24 (v * br)"
  have "y \<le> v * br + v * br / 2 ^ 24" unfolding y_def by (rule fl_up [OF x(1)])
  also have "\<dots> \<le> 4095 * (1 + 1 / 2 ^ 24) + 4095 * (1 + 1 / 2 ^ 24) / 2 ^ 24"
    by (intro add_mono divide_right_mono x(2)) simp
  also have "\<dots> < 4096" by simp
  finally have y: "y < 4096" "0 \<le> y" using fl_nonneg [OF x(1), of 24] by (simp_all add: y_def)
  then have t: "0 \<le> \<lfloor>y\<rfloor>" "\<lfloor>y\<rfloor> \<le> 4095" by (simp, linarith)
  have c: "cast_u16 y = Inr (word_of_int \<lfloor>y\<rfloor>)" using y(2) t by (simp add: cast_u16_def Let_def)
  note a = at_res_ok [OF assms(1)]
  from level_byte [OF t] show ?thesis
    unfolding fader_level_def a bind_res_simps v_def [symmetric] y_def [symmetric] c by auto
qed

lemma debug_color_ok:
  assumes "length (in_faders data) = 4" "list_all (\<lambda>v. unat v \<le> 0xfff) (in_faders data)"
  shows "\<exists>r g b. debug_color data = Inr (r, g, b) \<and> unat r < 128 \<and> unat g < 128 \<and> unat b < 128"
proof -
  have f: "unat (in_faders data ! i) \<le> 0xfff" if "i < 4" for i using assms that by (simp add: list_all_length)
  define br where "br = vmap_float (of_int (uint (in_faders data ! 3))) 0 0xfff 0 1"
  have br: "0 \<le> br" "br \<le> 1 + 1 / 2 ^ 24"
    using brightness_bounds [OF f [of 3]] unfolding br_def by simp_all
  have lv: "\<exists>c. fader_level data br i = Inr c \<and> unat c < 128" if "i < 4" for i
    using fader_level_ok [OF _ f br] that assms(1) by simp
  obtain r where r: "fader_level data br 0 = Inr r" "unat r < 128" using lv [of 0] by auto
  obtain g where g: "fader_level data br 1 = Inr g" "unat g < 128" using lv [of 1] by auto
  obtain b where b: "fader_level data br 2 = Inr b" "unat b < 128" using lv [of 2] by auto
  have "at_res (in_faders data) 3 = Inr (in_faders data ! 3)" using assms(1) by simp
  then have "debug_color data = Inr (r, g, b)"
    unfolding debug_color_def by (simp only: bind_res_simps Let_def br_def [symmetric] r(1) g(1) b(1))
  with r(2) g(2) b(2) show ?thesis by blast
qed

section \<open>The matrix\<close>

definition debug_light :: "f1_inpu_state \<Rightarrow> byte \<times> byte \<times> byte \<Rightarrow> nat \<Rightarrow> byte list" where
  "debug_light data color i = (if in_matrix data ! i then [0, word_of_nat (i * 8), word_of_nat (0x7f - i * 8)]
     else case color of (r, g, b) \<Rightarrow> [b, r, g])"

lemma fold_res_cong:
  "(\<And>x s. x \<in> set xs \<Longrightarrow> f x s = g x s) \<Longrightarrow> fold_res f xs s = fold_res g xs s"
proof (induction xs arbitrary: s)
  case (Cons x xs)
  then show ?case by (cases "g x s") auto
qed simp

lemma debug_matrix_eq:
  assumes "length (in_matrix data) = 16" "length m = 16"
  shows "debug_matrix data color m = Inr (map (debug_light data color) [0..<16])"
proof -
  obtain r g b where c: "color = (r, g, b)" by (cases color)
  have "debug_matrix data color m =
      fold_res (\<lambda>i m. bind_res (Inr (debug_light data color i)) (set_at_res m i)) [0..<16] m"
    unfolding debug_matrix_def c prod.case
  proof (rule fold_res_cong)
    fix i and m :: "byte list list" assume "i \<in> set [0..<16]"
    then show "bind_res (sub_res (in_matrix data) i) (\<lambda>held.
       set_at_res m i (if held then osc_rgb2color (word_of_nat (i * 8)) (word_of_nat (0x7f - i * 8)) 0
         else osc_rgb2color r g b)) = bind_res (Inr (debug_light data (r, g, b) i)) (set_at_res m i)"
      using assms(1) by (simp add: debug_light_def osc_rgb2color_def)
  qed
  also have "\<dots> = Inr (fold (\<lambda>i m. m[i := debug_light data color i]) [0..<16] m)"
    by (rule fold_res_set_at) (use assms in auto)
  also have "fold (\<lambda>i m. m[i := debug_light data color i]) [0..<16] m = map (debug_light data color) [0..<16]"
    by (rule map_nth_eqI) (use assms nth_fold_lights [of _ m "debug_light data color" "[0..<16]"] in \<open>auto simp del: upt.simps\<close>)
  finally show ?thesis .
qed

lemma debug_light_dim:
  assumes "i < 16" "case color of (r, g, b) \<Rightarrow> unat r < 128 \<and> unat g < 128 \<and> unat b < 128"
  shows "length (debug_light data color i) = 3 \<and> (\<forall>c \<in> set (debug_light data color i). unat c < 128)"
proof -
  have "unat (word_of_nat (i * 8) :: byte) = i * 8" "unat (word_of_nat (0x7f - i * 8) :: byte) = 0x7f - i * 8"
    by (rule unat_of_nat_byte, use assms(1) in simp)+
  then have "unat (word_of_nat (i * 8) :: byte) < 128" "unat (word_of_nat (0x7f - i * 8) :: byte) < 128"
    using assms(1) by linarith+
  then show ?thesis using assms(2) by (cases color) (auto simp: debug_light_def)
qed
section \<open>A turn\<close>

lemma debug_turn_ok:
  assumes "wf_input (hd_input (db_dev s))" "length (ho_matrix (db_output s)) = 16" "length (ho_stop (db_output s)) = 4"
    and "case db_color s of (r, g, b) \<Rightarrow> unat r < 128 \<and> unat g < 128 \<and> unat b < 128"
    and "sys_read os w (hd_fd (db_dev s)) 22 = (w1, 22, report)" "length report = 22" "length stack = 22"
    and "list_all (\<lambda>v. unat v \<le> 0xfff) (in_faders (decoded report))"
  defines "out \<equiv> (db_output s)\<lparr>ho_matrix := map (debug_light (decoded report) (db_color s)) [0..<16]\<rparr>"
  shows "\<exists>r g b. unat r < 128 \<and> unat g < 128 \<and> unat b < 128 \<and>
    (\<forall>c \<in> set (ho_matrix out). length c = 3 \<and> (\<forall>x \<in> set c. unat x < 128)) \<and>
    debug_turn os w stack s = (case sys_write os w1 (hd_fd (db_dev s)) (report_layout (output_of out)) of (w2, n) \<Rightarrow>
      (w2, if n \<noteq> 81 then Inl Hid_error
        else Inr \<lparr>db_dev = (db_dev s)\<lparr>hd_input := decoded report\<rparr>, db_output = out, db_color = (r, g, b)\<rparr>))"
proof -
  let ?data = "decoded report"
  have read: "osc_read os w stack (db_dev s) = (w1, (db_dev s)\<lparr>hd_input := ?data\<rparr>, Inr ?data)"
    using assms(1, 5-7) by (simp add: osc_read_def decode_input_eq)
  have wf: "length (in_matrix ?data) = 16" "length (in_faders ?data) = 4" by (simp_all add: decoded_def)
  obtain r g b where c: "debug_color ?data = Inr (r, g, b)" "unat r < 128" "unat g < 128" "unat b < 128"
    using debug_color_ok [OF wf(2) assms(8)] by blast
  have lights: "\<forall>c \<in> set (ho_matrix out). length c = 3 \<and> (\<forall>x \<in> set c. unat x < 128)"
    using debug_light_dim [OF _ assms(4)] by (auto simp: out_def simp del: upt.simps)
  then have "wf_hid_output out" using assms(3) by (simp add: wf_hid_output_def out_def list_all_iff del: upt.simps)
  then have e: "encode_output out = Inr (report_layout (output_of out))" "length (report_layout (output_of out)) = 81"
    by (simp_all add: encode_output_eq)
  have "debug_turn os w stack s = (case sys_write os w1 (hd_fd (db_dev s)) (report_layout (output_of out)) of (w2, n) \<Rightarrow>
      (w2, if n \<noteq> 81 then Inl Hid_error
        else Inr \<lparr>db_dev = (db_dev s)\<lparr>hd_input := ?data\<rparr>, db_output = out, db_color = (r, g, b)\<rparr>))"
    unfolding debug_turn_def read debug_matrix_eq [OF wf(1) assms(2)] Let_def prod.case sum.case out_def [symmetric]
    by (simp add: osc_write_def e c(1) split: prod.split)
  with c(2-4) lights show ?thesis by blast
qed

section \<open>Runs\<close>

lemma debug_text_total:
  assumes "wf_input s"
  shows "\<exists>txt. debug_text hex s = Inr txt"
proof -
  have len: "length (in_special s) = 9" "length (in_matrix s) = 16" "length (in_stop s) = 4"
      "length (in_knobs s) = 4" "length (in_faders s) = 4"
    using assms by (simp_all add: wf_input_def)
  have row: "\<exists>txt. fold_res (\<lambda>i out. bind_res (sub_res (in_matrix s) (i + 4 * j)) (\<lambda>held.
         Inr (out @ '' '' @ (if held then ''X'' else ''-'')))) [0..<4] out = Inr txt" if "j < 4" for j out
    by (rule fold_res_total) (use that len in \<open>simp add: sub_res_def\<close>)
  have "\<exists>txt. debug_text_matrix s out = Inr txt" for out
    unfolding debug_text_matrix_def
  proof (rule fold_res_total)
    fix j out assume "j \<in> set [0..<4 :: nat]"
    then have "j < 4" by simp
    from row [OF this, of "out @ ''   ''"] show "\<exists>txt. bind_res (fold_res (\<lambda>i out. bind_res (sub_res (in_matrix s) (i + 4 * j)) (\<lambda>held.
         Inr (out @ '' '' @ (if held then ''X'' else ''-'')))) [0..<4] (out @ ''   '')) (\<lambda>out. Inr (out @ ENDL)) = Inr txt" by auto
  qed
  moreover have "\<exists>txt. debug_text_stop s out = Inr txt" for out
    unfolding debug_text_stop_def by (rule fold_res_total) (simp add: sub_res_def len)
  moreover have "\<exists>txt. debug_text_special s out = Inr txt" for out
  proof -
    have "\<exists>txt. fold_res (\<lambda>i out. bind_res (sub_res (in_special s) i) (\<lambda>held.
         bind_res (at_res ''WBSTR+CQS'' i) (\<lambda>ch. Inr (out @ [if held then ch else CHR ''-''] @ '' '')))) [0..<9] out' = Inr txt" for out'
      by (rule fold_res_total) (simp add: sub_res_def at_res_def len)
    from this [of "out @ ENDL @ ''Special buttons'' @ ENDL"] show ?thesis unfolding debug_text_special_def by auto
  qed
  moreover have "\<exists>txt. debug_text_positions name vals out = Inr txt" if "length vals = 4" for name vals out
    unfolding debug_text_positions_def by (rule fold_res_total) (simp add: at_res_def that)
  ultimately have parts: "\<And>out. \<exists>txt. debug_text_matrix s out = Inr txt" "\<And>out. \<exists>txt. debug_text_stop s out = Inr txt"
      "\<And>out. \<exists>txt. debug_text_special s out = Inr txt" "\<And>out. \<exists>txt. debug_text_positions ''K'' (in_knobs s) out = Inr txt"
      "\<And>out. \<exists>txt. debug_text_positions ''F'' (in_faders s) out = Inr txt"
    using len(4, 5) by blast+
  have bind: "\<exists>y. bind_res r k = Inr y" if "\<exists>x. r = Inr x" "\<And>x. \<exists>y. k x = Inr y"
    for r :: "string res" and k :: "string \<Rightarrow> string res"
    using that by (auto simp: bind_res_def)
  show ?thesis unfolding debug_text_def by (intro bind parts) simp
qed

text \<open>The report id 17 is printed as 17 by the first turn and as 11 by the later ones.\<close>

lemma debug_hex_sticks: "show_int False 17 = ''17'' \<and> show_int True 17 = ''11''"
  by code_simp

text \<open>The kernel delivers whole reports with 12-bit faders, or an error.\<close>

definition whole_reports :: "'w posix \<Rightarrow> bool" where
  "whole_reports os \<longleftrightarrow> (\<forall>w n w1 k got. sys_read os w n 22 = (w1, k, got) \<longrightarrow>
     k < 0 \<or> k = 22 \<and> length got = 22 \<and> list_all (\<lambda>v. unat v \<le> 0xfff) (in_faders (decoded got)))"

definition debug_ok :: "debug_state \<Rightarrow> bool" where
  "debug_ok s \<longleftrightarrow> wf_input (hd_input (db_dev s)) \<and> length (ho_matrix (db_output s)) = 16 \<and> length (ho_stop (db_output s)) = 4 \<and>
     (case db_color s of (r, g, b) \<Rightarrow> unat r < 128 \<and> unat g < 128 \<and> unat b < 128)"

definition dim_lights :: "debug_state \<Rightarrow> bool" where
  "dim_lights s \<longleftrightarrow> (\<forall>c \<in> set (ho_matrix (db_output s)). length c = 3 \<and> (\<forall>x \<in> set c. unat x < 128))"

definition step_fine :: "'w debug_program \<Rightarrow> bool" where
  "step_fine p \<longleftrightarrow> (case p of Debugging w s hex out \<Rightarrow> debug_ok s \<and> dim_lights s \<and> hex
     | Debug_ended c \<Rightarrow> False | Debug_aborted e \<Rightarrow> e = Hid_error)"

lemma debug_step_fine:
  assumes "whole_reports os" "debug_ok s" "length stack = 22"
  shows "step_fine (debug_step os stack w s hex txt)"
proof -
  have d: "wf_input (hd_input (db_dev s))" "length (ho_matrix (db_output s)) = 16" "length (ho_stop (db_output s)) = 4"
    "case db_color s of (r, g, b) \<Rightarrow> unat r < 128 \<and> unat g < 128 \<and> unat b < 128"
    using assms(2) by (simp_all add: debug_ok_def)
  obtain w1 k got where rd: "sys_read os w (hd_fd (db_dev s)) 22 = (w1, k, got)" using prod_cases3 by blast
  show ?thesis
  proof (cases "k < 0")
    case True
    then show ?thesis using rd assms(3) by (simp add: debug_step_def debug_turn_def osc_read_def step_fine_def)
  next
    case False
    then have got: "k = 22" "length got = 22" "list_all (\<lambda>v. unat v \<le> 0xfff) (in_faders (decoded got))"
      using assms(1) rd unfolding whole_reports_def by blast+
    define out where "out = (db_output s)\<lparr>ho_matrix := map (debug_light (decoded got) (db_color s)) [0..<16]\<rparr>"
    obtain r g b where c: "unat r < 128" "unat g < 128" "unat b < 128"
        "\<forall>c \<in> set (ho_matrix out). length c = 3 \<and> (\<forall>x \<in> set c. unat x < 128)"
        "debug_turn os w stack s = (case sys_write os w1 (hd_fd (db_dev s)) (report_layout (output_of out)) of (w2, n) \<Rightarrow>
          (w2, if n \<noteq> 81 then Inl Hid_error
            else Inr \<lparr>db_dev = (db_dev s)\<lparr>hd_input := decoded got\<rparr>, db_output = out, db_color = (r, g, b)\<rparr>))"
      using debug_turn_ok [OF d rd [unfolded got(1)] got(2) assms(3) got(3), folded out_def] by blast
    obtain w2 n where wr: "sys_write os w1 (hd_fd (db_dev s)) (report_layout (output_of out)) = (w2, n)" by fastforce
    obtain txt' where txt': "debug_text hex (decoded got) = Inr txt'" using debug_text_total [of "decoded got" hex] by auto
    show ?thesis
    proof (cases "n = 81")
      case True
      with c wr txt' d(3) show ?thesis
        by (simp add: debug_step_def step_fine_def debug_ok_def dim_lights_def out_def del: upt.simps)
    next
      case False
      with c(5) wr show ?thesis by (simp add: debug_step_def step_fine_def)
    qed
  qed
qed

lemma debug_run_ok:
  assumes "whole_reports os"
  shows "debug_run os devfile p \<Longrightarrow> (\<forall>w s hex out. p = Debugging w s hex out \<longrightarrow> debug_ok s)"
proof (induction rule: debug_run.induct)
  case (start indet w)
  have "wf_input idle_input" by (simp add: wf_input_def idle_input_def)
  with start show ?case by (auto simp: debug_start_def debug_ok_def split: prod.splits if_splits)
next
  case (step w s hex out stack)
  then show ?case using debug_step_fine [OF assms, of s stack w hex out] by (auto simp: step_fine_def)
qed

section \<open>Properties\<close>


definition sample_indet :: hid_output where
  "sample_indet = \<lparr>ho_matrix = replicate 16 [200, 0, 0], ho_stop = [9, 9, 9, 9]\<rparr>"

lemma mem_whole_reports: "whole_reports (mem_os\<lparr>sys_read := (\<lambda>w n k. (w, 22, sample_report))\<rparr>)"
proof -
  have "list_all (\<lambda>v. unat v \<le> 0xfff) (in_faders (decoded sample_report))" by code_simp
  then show ?thesis by (simp add: whole_reports_def sample_report_def)
qed


end
