(* ===== verification/Spec2Isabelle.thy ===== *)
theory Spec2Isabelle
  imports Midi_Stream Driver_Steps Jack_Test Devtest Client_Threads Session_Threads Session_Peers
    Session_Progress Midi_To_Lights Osc_Program Osc_Debug
begin

text \<open>
  A verification of the two userspace drivers for the Traktor Kontrol F1, a USB controller with
  sixteen colored matrix buttons, nine special and four stop buttons, four knobs, four faders, a
  wheel and two seven-segment displays.

  The program.  \<open>driver\<close> (under \<open>src/driver/src\<close>) reads HID reports of the device, turns them into
  MIDI for JACK, and sets the lights, also by MIDI it receives.  \<open>driver-osc\<close> (under
  \<open>src/driver-osc/src\<close>) is an older driver with the same device: it sends the changes to JACK, or as
  OSC messages to the peers of a NON session.  Both talk to the kernel through a \<open>hidraw\<close> node.

  Conventions.  A method is a function from the object's record to the updated record and a result.
  Results are \<open>failure + 'a\<close> (\<open>Prelude\<close>): exceptions, failed assertions and undefined behaviour are
  values of \<open>failure\<close>, and \<open>bind_res\<close>, \<open>fold_res\<close> are sequencing and \<open>for\<close> loops.  \<open>at_res\<close> is the
  checked \<open>at\<close>, \<open>sub_res\<close> the unchecked subscript, whose misuse is \<open>Undefined_behaviour\<close>.  Bytes and
  16-bit values are words and wrap.  Assertions are modelled as enabled.  \<open>float\<close> and \<open>double\<close> are
  rationals with every operation rounded to 24 or 53 bits (\<open>Rounding\<close>); exponent bounds are left out,
  as no value of the program comes near them.

  Code outside the repository is a parameter: the JACK ring buffer is a record of functions
  (\<open>jack_rb\<close>) with the documented laws as the locale \<open>jack_ring\<close>, interpreted on a ring buffer over an
  array (\<open>ring_ops\<close>); the JACK client, port and MIDI buffer calls are \<open>jack_api\<close>, \<open>jack_midi\<close> and
  \<open>jc_api\<close>; POSIX calls are \<open>posix\<close>; liblo is \<open>ns_env\<close>.  State behind a parameter is an abstract
  value threaded through the calls.

  The theories, in the order they build on each other, and what their lemmas show:

  \<^item> \<open>Jack_Ring\<close>, \<open>Byte_Iterator\<close>: the contracts of the JACK ring and of an input iterator over bytes.

  \<^item> \<open>Ring_Iterator\<close> (\<open>io/RingbufferIterator.*\<close>): the read iterator meets the iterator contract where
    the readable bytes are contiguous, and misreads the second segment otherwise.

  \<^item> \<open>Midi_Event\<close>, \<open>Midi_Stream\<close> (\<open>io/MidiEvent.*\<close>, \<open>io/MidiStream.*\<close>): encoding and parsing are inverse,
    parsing is total over every iterator, note names, and streams of events.

  \<^item> \<open>Ringbuffer\<close> (\<open>io/Ringbuffer.hpp\<close>): refinement of a bounded queue (locale \<open>bounded_queue\<close>, a
    sublocale of \<open>typed_ring\<close>), errors exactly when full or empty, copies.

  \<^item> \<open>Hid_Device\<close> (\<open>io/HidDevice.*\<close>, \<open>io/FileDescriptor.hpp\<close>): ownership of descriptors, errors.

  \<^item> \<open>F1_Data\<close>, \<open>F1_Device\<close> (\<open>tkf1/F1Device.*\<close>): decoding of input reports, the events of a change and
    their replay, the layout and injectivity of output reports, the digits.

  \<^item> \<open>Rounding\<close>, \<open>Io_Mapper\<close> (\<open>tkf1/IOMapper.*\<close>): the scaling of positions equals integer rounding; from
    a good configuration no sequence of inputs leads to a failure; toggles and lights.

  \<^item> \<open>Jack_Wrapper\<close> (\<open>io/JackWrapper.*\<close>): MIDI put into the wrapper is written by the process callback
    in order, MIDI of the port is appended and parsed; activation.

  \<^item> \<open>Driver_Main\<close> (\<open>main.cpp\<close>): the search for the device, one turn of the input thread and one of the
    MIDI loop.

  \<^item> \<open>Landlock\<close> (\<open>setup_landlock\<close> in \<open>main.cpp\<close>): which actions the sandbox allows and where, over the
    contract of the Landlock library (locale \<open>landlock_lib\<close>).

  \<^item> \<open>Ring_Parse\<close>, \<open>Driver_Program\<close> (\<open>main\<close> in \<open>main.cpp\<close>): the runs of the whole driver
    (\<open>driver_program\<close>), its invariant, and what can end it; the parser on wrapped rings.

  \<^item> \<open>Driver_Steps\<close> (the threads of \<open>main.cpp\<close>): the same runs with the calls of the two threads and
    of the process callback interleaved in any way (\<open>interleaved\<close>); the invariant holds at every
    point, and the runs by turns are among them.

  \<^item> \<open>Midi_To_Lights\<close>: what the process callback takes from the input port, the next turn of the
    MIDI loop applies to the lights and writes to the device.

  \<^item> \<open>Devtest\<close> (\<open>devtest.cpp\<close>): the runs of the device test, the light pattern and the printed text.

  \<^item> \<open>Osc_Input\<close> (\<open>F1InputState.*\<close>, \<open>F1HidDev.*\<close>): differences of input states can be replayed; the
    decoder and the encoder agree with those of \<open>F1_Device\<close>.

  \<^item> \<open>Jack_Client\<close> (\<open>JackClient.*\<close>): the bytes sent for a change; disconnecting.

  \<^item> \<open>Non_Session\<close> (\<open>NonSignal.hpp\<close>, \<open>NonPeer.*\<close>, \<open>NonSessionHandler.*\<close>): the state machine, its
    termination and its invariant over every run (\<open>session_run\<close>), failure, the broadcasts.  A
    \<open>std::map\<close> is an association list ordered by its keys and an iterator into it a key, \<open>None\<close> for
    \<open>end()\<close>.  The text of an \<open>/error\<close> reply is its constant prefix.

  \<^item> \<open>Client_Threads\<close>, \<open>Session_Threads\<close>: the process callback of \<open>JackClient\<close> cut at its accesses to the
    ring and interleaved with \<open>write_midi\<close> (\<open>client_run\<close>), and the broadcast to the peers cut at its
    sends and interleaved with messages (\<open>broadcasting\<close>).

  \<^item> \<open>Session_Peers\<close>: a session meets every peer that introduces itself, from its start on.

  \<^item> \<open>Session_Progress\<close>: the states ordered like the values of \<open>NonSessionHandler::State\<close>; no message
    moves a session back, except to the next peer.

  \<^item> \<open>Osc_Driver\<close> (\<open>exe/osc_driver.cpp\<close>): the search, and the lights over every run of the program
    (\<open>driver_run\<close>): turns of the loop, messages to the session and process callbacks in any order.

  \<^item> \<open>Osc_Program\<close> (\<open>main\<close> and \<open>exec_driver\<close> there, \<open>exe/nsm_test.cpp\<close>): the runs of the whole program
    from its start (\<open>osc_program\<close>), its exit codes, and the process credentials (locale \<open>posix_ids\<close>).

  \<^item> \<open>Jack_Test\<close> (\<open>exe/test_jack.cpp\<close>): the set-up of the JACK test program and what its callback copies.

  \<^item> \<open>Osc_Debug\<close> (\<open>exe/debug.cpp\<close>): the runs of the debugging program, its float arithmetic and
    its text.

  \<^item> This theory: the two properties that span the components, from a report of the device to the
    MIDI port and to the peers of the session.

  Loops.  Bounded loops are folds over their index range.  Loops over iterators and the device search
  are partial functions, shown to end (\<open>parse_total\<close>, \<open>stream_roundtrip\<close>) or characterised
  (\<open>search_device_found\<close>).  The MIDI batch has the bound of the code, 1024; no other fuel is used.

  Not modelled: log output, the formatting of printed floats, sleeping, the rule of the sandbox for the
  address sanitizer, and the unit tests.  A call on the device, the mapper, the JACK wrapper or the
  session is the smallest step: data races on the state the threads share inside one call are not seen.
  In the runs of \<open>driver-osc\<close> as a whole, a turn of the loop and each callback of JACK or liblo is one
  step; \<open>Client_Threads\<close> and \<open>Session_Threads\<close> cut the two where the threads share more than that.
\<close>

section \<open>From the device to the port\<close>



text \<open>C16: The turn of \<open>driver-osc\<close>: what one report changes is what its listeners get.  A stop button toggles when
  it is pressed and its release does nothing; with the stop buttons so replaced, the change between
  two reports goes as one bundle to every known peer, in the order of their client ids, or, with
  JACK, its messages are queued for the port after those already queued.\<close>

theorem osc_turn_delivers:
  assumes "\<And>w n k. length (snd (snd (sys_read os w n k))) \<le> k" "driver_run os env jm s" "driver_turn os env stack s = Inr s'"
  shows "let c = turn_change (state_minus (od_last s') (od_last s)) (od_stop_buttons s) in
    od_stop_buttons s' = map (\<lambda>i. od_stop_buttons s ! i \<noteq> (\<not> in_stop (od_last s) ! i \<and> in_stop (od_last s') ! i)) [0..<4] \<and>
    (case od_backend s of
       Session ns \<Rightarrow> \<exists>ns'. od_backend s' = Session ns' \<and> ns_sent ns' = ns_sent ns @
         map (\<lambda>(k, peer). Bundle_to (np_url peer) (change_bundle c)) (ns_peers ns)
     | Jack p \<Rightarrow> \<exists>p'. od_backend s' = Jack p' \<and> (\<forall>rinv content msgs room. jack_ring (en_ring env) rinv content \<longrightarrow>
         jc_holds (en_ring env) rinv content p msgs room \<longrightarrow>
         jc_holds (en_ring env) rinv content p' (msgs @ change_messages (jc_channel p) c)
           (room - 3 * length (change_messages (jc_channel p) c))))"
proof -
  have "length (od_stop_buttons s) = 4" using driver_run_lights [OF assms(1, 2)] by (simp add: lights_inv_def)
  note t = driver_turn_sends [OF this assms(3)]
  let ?c = "turn_change (state_minus (od_last s') (od_last s)) (od_stop_buttons s)"
  have "change_ok ?c" by (rule change_ok_turn [OF change_ok_state_minus])
  note ok = push_event_holds [OF _ _ this]
  show ?thesis
  proof (cases "od_backend s")
    case (Session ns)
    with t(1) obtain ns' where "broadcast_input_event env ?c ns = Inr ns'" "od_backend s' = Session ns'"
      by (auto simp: send_change_def bind_res_Inr_iff)
    with broadcast_sent [OF this(1)] t(2) Session show ?thesis by (simp add: Let_def)
  next
    case (Jack p)
    with t(1) obtain p' where "push_event (en_ring env) ?c p = Inr p'" "od_backend s' = Jack p'"
      by (auto simp: send_change_def bind_res_Inr_iff)
    with ok t(2) Jack show ?thesis by (auto simp: Let_def)
  qed
qed

lemma osc_turn_delivers_witness:
  "\<exists>s s' p room. driver_run mem_os ok_env list_midi s \<and> driver_turn mem_os ok_env (replicate 22 0) s = Inr s' \<and>
     od_backend s' = Jack p \<and> jc_holds ring_ops ring_ok ring_content p
       [[0x90, 48, 0x7f], [0x90, 63, 0x7f], [0xb0, 0x70, 0x7f], [0xb0, 0x66, 0x7f], [0xb0, 0x6c, 0x7f]] room"
proof -
  obtain s s' where s: "driver_run mem_os ok_env list_midi s" "od_last s = idle_input" "od_backend s = Jack jc_connected"
      "od_stop_buttons s = replicate 4 False" "driver_turn mem_os ok_env (replicate 22 0) s = Inr s'"
      "od_last s' = decoded sample_report"
    using sample_run_turn by blast
  have m: "change_messages (jc_channel jc_connected) (turn_change (state_minus (decoded sample_report) idle_input) (replicate 4 False)) =
      [[0x90, 48, 0x7f], [0x90, 63, 0x7f], [0xb0, 0x70, 0x7f], [0xb0, 0x66, 0x7f], [0xb0, 0x6c, 0x7f]]"
    by code_simp
  have env: "en_ring ok_env = ring_ops" by (simp add: ok_env_def)
  from osc_turn_delivers [OF mem_os_reads s(1, 5)] ref_ring.jack_ring_axioms jc_connected_holds
  show ?thesis unfolding Let_def s(2-4, 6) backend.case m env using s(1, 5) by fastforce
qed

end
